(* ===== verification/Prelude.thy ===== *)
theory Prelude
  imports Main "HOL-Library.Word" "HOL-Library.Char_ord" "HOL-Library.List_Lexorder"
begin

text \<open>
  The vocabulary every component shares: how the C++ code fails, the \<open>std::string\<close> and
  \<open>std::map\<close> operations it uses, the C library's number parsing and printing, and the
  fixed-width conversions (\<open>size_t\<close> to \<open>unsigned int\<close>, \<open>int\<close> to \<open>short\<close>) that the code
  performs silently. A \<open>std::string\<close> is an HOL \<^typ>\<open>string\<close> (a list of bytes); a position
  returned by \<open>find\<close> is an option, with \<^const>\<open>None\<close> for \<open>npos\<close>, and becomes a number by
  \<open>as_size\<close> exactly where the code stores it in an integer.
\<close>

named_theorems str_simps \<open>equations of the std::string and C string operations\<close>
named_theorems act_simps \<open>equations of the state and exception plumbing\<close>

section \<open>Faults and results\<close>

text \<open>
  What can go wrong in the code: \<open>throw\<close> of an \<open>int\<close> (the socket layer), a
  \<open>std::exception\<close>, the \<open>std::out_of_range\<close> of \<open>substr\<close>, the undefined behaviours the
  memory model can detect (\<open>NoReturn\<close> is a function that ends without a \<open>return\<close>), and, as
  \<open>Diverges\<close>, a call that never comes back.
\<close>

datatype fault =
    ThrowInt int
  | ThrowStd
  | OutOfRange
  | WildAccess
  | WildFree
  | NullDeref
  | UseAfterFree
  | DoubleFree
  | NoReturn
  | Diverges

type_synonym 'a res = "fault + 'a"

text \<open>\<open>std::out_of_range\<close> derives from \<open>std::exception\<close>; a thrown \<open>int\<close> does not.\<close>

fun is_std_exception :: "fault \<Rightarrow> bool" where
  "is_std_exception ThrowStd = True"
| "is_std_exception OutOfRange = True"
| "is_std_exception _ = False"

definition bind_res :: "'a res \<Rightarrow> ('a \<Rightarrow> 'b res) \<Rightarrow> 'b res" where
  "bind_res m k = (case m of Inl e \<Rightarrow> Inl e | Inr x \<Rightarrow> k x)"

lemma bind_res_simps [simp]:
  "bind_res (Inl e) k = Inl e"
  "bind_res (Inr x) k = k x"
  by (simp_all add: bind_res_def)

text \<open>The result of a loop that may not end.\<close>

definition returned :: "'a option \<Rightarrow> 'a res" where
  "returned x = (case x of None \<Rightarrow> Inl Diverges | Some y \<Rightarrow> Inr y)"

lemma returned_simps [simp]: "returned None = Inl Diverges" "returned (Some y) = Inr y"
  by (simp_all add: returned_def)

text \<open>
  An action on a state \<open>'s\<close> keeps the state it has reached when it faults, as a C++ object
  keeps the writes made before a \<open>throw\<close>.
\<close>

type_synonym ('s, 'a) act = "'s \<Rightarrow> 'a res \<times> 's"

definition return_act :: "'a \<Rightarrow> ('s, 'a) act" where
  "return_act x s = (Inr x, s)"

definition bind_act :: "('s, 'a) act \<Rightarrow> ('a \<Rightarrow> ('s, 'b) act) \<Rightarrow> ('s, 'b) act" where
  "bind_act m k s = (case m s of (Inl e, s') \<Rightarrow> (Inl e, s') | (Inr x, s') \<Rightarrow> k x s')"

definition then_act :: "('s, 'a) act \<Rightarrow> ('s, 'b) act \<Rightarrow> ('s, 'b) act" where
  "then_act m n = bind_act m (\<lambda>_. n)"

lemma return_act_apply [act_simps]: "return_act x s = (Inr x, s)"
  by (simp add: return_act_def)

lemma bind_act_Inl [act_simps]: "m s = (Inl e, s') \<Longrightarrow> bind_act m k s = (Inl e, s')"
  by (simp add: bind_act_def)

lemma bind_act_Inr [act_simps]: "m s = (Inr x, s') \<Longrightarrow> bind_act m k s = k x s'"
  by (simp add: bind_act_def)

lemma then_act_Inl [act_simps]: "m s = (Inl e, s') \<Longrightarrow> then_act m n s = (Inl e, s')"
  by (simp add: then_act_def act_simps)

lemma then_act_Inr [act_simps]: "m s = (Inr x, s') \<Longrightarrow> then_act m n s = n s'"
  by (simp add: then_act_def act_simps)

lemma then_act_assoc: "then_act (then_act a b) c = then_act a (then_act b c)"
  by (auto simp: then_act_def bind_act_def fun_eq_iff split: prod.splits sum.splits)

lemma then_act_return: "then_act (return_act ()) m = m"
  by (simp add: then_act_def bind_act_def return_act_def fun_eq_iff)

text \<open>A call whose result is dropped, and a statement under an \<open>if\<close> without \<open>else\<close>.\<close>

definition drop_result :: "('s, 'a) act \<Rightarrow> ('s, unit) act" where
  "drop_result m = bind_act m (\<lambda>_. return_act ())"

definition only_if :: "bool \<Rightarrow> ('s, unit) act \<Rightarrow> ('s, unit) act" where
  "only_if b m = (if b then m else return_act ())"

lemma only_if_simps [simp]: "only_if True m = m" "only_if False m = return_act ()"
  by (simp_all add: only_if_def)

text \<open>Running a list of actions in order, stopping at the first fault.\<close>

fun run_acts :: "('s, unit) act list \<Rightarrow> ('s, unit) act" where
  "run_acts [] s = (Inr (), s)"
| "run_acts (a # as) s = (case a s of (Inl e, s') \<Rightarrow> (Inl e, s') | (Inr _, s') \<Rightarrow> run_acts as s')"

lemma run_acts_append:
  "run_acts (as @ bs) s =
    (case run_acts as s of (Inl e, s') \<Rightarrow> (Inl e, s') | (Inr _, s') \<Rightarrow> run_acts bs s')"
  by (induction as arbitrary: s) (auto split: prod.splits sum.splits)

section \<open>Machine integers\<close>

text \<open>
  \<open>std::string::npos\<close> is the largest \<open>size_t\<close>. Storing a \<open>size_t\<close> in an \<open>unsigned int\<close>
  keeps the low 32 bits; comparing the result with \<open>npos\<close> widens it again, so a truncated
  \<open>npos\<close> is never equal to \<open>npos\<close>.
\<close>

definition npos :: nat where
  "npos = 2 ^ 64 - 1"

definition u32 :: "nat \<Rightarrow> nat" where
  "u32 n = n mod 2 ^ 32"

fun as_size :: "nat option \<Rightarrow> nat" where
  "as_size None = npos"
| "as_size (Some p) = p"

lemma npos_value: "npos = 18446744073709551615"
  by (simp add: npos_def)

lemma u32_npos [simp]: "u32 npos = 4294967295"
  by (simp add: u32_def npos_def)

lemma u32_small [simp]: "n < 4294967296 \<Longrightarrow> u32 n = n"
  by (simp add: u32_def)

lemma u32_not_npos [simp]: "u32 n \<noteq> npos"
proof -
  have "u32 n < 2 ^ 32" by (simp add: u32_def)
  then show ?thesis by (simp add: npos_def)
qed

lemma small_not_npos [simp]: "n < 4294967296 \<Longrightarrow> n \<noteq> npos" "n < 4294967296 \<Longrightarrow> npos \<noteq> n"
  by (simp_all add: npos_value)

lemma u32_wrap [simp]: "u32 4294967296 = 0"
  by (simp add: u32_def)

text \<open>The two's complement readings of a value's low 32 and 16 bits.\<close>

definition i32 :: "int \<Rightarrow> int" where
  "i32 v = sint (word_of_int v :: 32 word)"

definition i16 :: "int \<Rightarrow> int" where
  "i16 v = sint (word_of_int v :: 16 word)"

lemma i32_small [simp]: "- 2147483648 \<le> v \<Longrightarrow> v < 2147483648 \<Longrightarrow> i32 v = v"
  by (simp add: i32_def signed_of_int signed_take_bit_int_eq_self)

lemma i16_small [simp]: "- 32768 \<le> v \<Longrightarrow> v < 32768 \<Longrightarrow> i16 v = v"
  by (simp add: i16_def signed_of_int signed_take_bit_int_eq_self)

end
