(* ===== verification/Std_Text.thy ===== *)
theory Std_Text
  imports Prelude
begin

text \<open>
  The parts of the C++ standard library the code uses on text: searching and cutting a
  \<open>std::string\<close>, reading a C string, \<open>isspace\<close>, ASCII case, \<open>atoi\<close>, \<open>sscanf("%x")\<close>, the
  \<open>%i\<close>/\<open>%u\<close>/\<open>%lu\<close>/\<open>%02x\<close> conversions, and \<open>std::map\<close> with its sorted iteration order.
  Nothing here models code of the repository; everything here is used by the theories that do.
\<close>

section \<open>Characters\<close>

abbreviation (input) code :: "char \<Rightarrow> nat" where
  "code c \<equiv> of_char c"

abbreviation NUL :: char where "NUL \<equiv> CHR 0x00"
abbreviation TAB :: char where "TAB \<equiv> CHR 0x09"
abbreviation LF :: char where "LF \<equiv> CHR 0x0A"
abbreviation CR :: char where "CR \<equiv> CHR 0x0D"
abbreviation SP :: char where "SP \<equiv> CHR 0x20"
abbreviation DQUOTE :: char where "DQUOTE \<equiv> CHR 0x22"
abbreviation SQUOTE :: char where "SQUOTE \<equiv> CHR 0x27"

abbreviation CRLF :: string where "CRLF \<equiv> [CR, LF]"

text \<open>\<open>isspace\<close> in the C locale.\<close>

definition is_space :: "char \<Rightarrow> bool" where
  "is_space c \<longleftrightarrow> c \<in> {SP, TAB, LF, CHR 0x0B, CHR 0x0C, CR}"

definition is_digit :: "char \<Rightarrow> bool" where
  "is_digit c \<longleftrightarrow> 48 \<le> code c \<and> code c \<le> (57::nat)"

definition digit_val :: "char \<Rightarrow> nat" where
  "digit_val c = code c - 48"

definition digit_char :: "nat \<Rightarrow> char" where
  "digit_char d = char_of (48 + d)"

lemma digit_char_is_digit [simp]: "d < 10 \<Longrightarrow> is_digit (digit_char d)"
  by (simp add: is_digit_def digit_char_def)

lemma digit_val_char [simp]: "d < 10 \<Longrightarrow> digit_val (digit_char d) = d"
  by (simp add: digit_val_def digit_char_def)

lemma digit_not_space: "is_digit c \<Longrightarrow> \<not> is_space c"
  by (auto simp: is_digit_def is_space_def)

lemma not_digit_simps [simp]:
  "\<not> is_digit NUL" "\<not> is_digit SP" "\<not> is_digit CR" "\<not> is_digit LF"
  "\<not> is_digit (CHR ''-'')" "\<not> is_digit (CHR ''+'')" "\<not> is_digit (CHR ''/'')"
  "\<not> is_digit (CHR '':'')" "\<not> is_digit (CHR ''.'')" "\<not> is_digit DQUOTE"
  by (simp_all add: is_digit_def)

text \<open>\<open>std::transform\<close> with the C library's \<open>tolower\<close>, in the C locale.\<close>

definition tolower_c :: "char \<Rightarrow> char" where
  "tolower_c c = (if CHR ''A'' \<le> c \<and> c \<le> CHR ''Z'' then char_of (code c + (32::nat)) else c)"

section \<open>Searching and cutting\<close>

text \<open>\<open>s.find(c)\<close> for a character, \<open>s.find_last_of(c)\<close> for a single character.\<close>

fun find_ch :: "char \<Rightarrow> string \<Rightarrow> nat option" where
  "find_ch c [] = None"
| "find_ch c (x # xs) = (if x = c then Some 0 else map_option Suc (find_ch c xs))"

fun find_last_ch :: "char \<Rightarrow> string \<Rightarrow> nat option" where
  "find_last_ch c [] = None"
| "find_last_ch c (x # xs) =
    (case find_last_ch c xs of Some p \<Rightarrow> Some (Suc p) | None \<Rightarrow> (if x = c then Some 0 else None))"

text \<open>\<open>s.find(pat)\<close>; the empty pattern is found at 0.\<close>

fun starts_with :: "string \<Rightarrow> string \<Rightarrow> bool" where
  "starts_with [] s = True"
| "starts_with (p # ps) [] = False"
| "starts_with (p # ps) (x # xs) = (p = x \<and> starts_with ps xs)"

fun find_str :: "string \<Rightarrow> string \<Rightarrow> nat option" where
  "find_str pat [] = (if pat = [] then Some 0 else None)"
| "find_str pat (x # xs) =
    (if starts_with pat (x # xs) then Some 0 else map_option Suc (find_str pat xs))"

text \<open>\<open>s.find(pat, pos)\<close>: a position past the end finds nothing.\<close>

definition find_str_from :: "string \<Rightarrow> string \<Rightarrow> nat \<Rightarrow> nat option" where
  "find_str_from pat s pos =
    (if length s < pos then None else map_option ((+) pos) (find_str pat (drop pos s)))"

text \<open>\<open>s.substr(pos)\<close> and \<open>s.substr(pos, n)\<close> throw \<open>std::out_of_range\<close> past the end.\<close>

definition substr_from :: "string \<Rightarrow> nat \<Rightarrow> string res" where
  "substr_from s pos = (if length s < pos then Inl OutOfRange else Inr (drop pos s))"

definition substr :: "string \<Rightarrow> nat \<Rightarrow> nat \<Rightarrow> string res" where
  "substr s pos n = (if length s < pos then Inl OutOfRange else Inr (take n (drop pos s)))"

text \<open>What \<open>s.c_str()\<close> denotes to a reader of C strings: the bytes before the first NUL.\<close>

definition cstr :: "string \<Rightarrow> string" where
  "cstr s = takeWhile (\<lambda>c. c \<noteq> NUL) s"

text \<open>
  \<open>s[i]\<close>: the terminating NUL at \<open>i = size()\<close>; further out the read is undefined, and
  \<open>oob\<close> is the byte that happens to be there.
\<close>

definition char_at :: "char \<Rightarrow> string \<Rightarrow> nat \<Rightarrow> char" where
  "char_at oob s i = (if i < length s then s ! i else if i = length s then NUL else oob)"

lemma find_ch_None: "find_ch c s = None \<longleftrightarrow> c \<notin> set s"
  by (induction s) auto

lemma find_ch_append [str_simps]: "c \<notin> set a \<Longrightarrow> find_ch c (a @ c # b) = Some (length a)"
  by (induction a) auto

lemma find_ch_Some:
  "find_ch c s = Some p \<longleftrightarrow> (\<exists>a b. s = a @ c # b \<and> c \<notin> set a \<and> p = length a)"
proof (induction s arbitrary: p)
  case (Cons x s)
  show ?case
  proof (cases "x = c")
    case True
    show ?thesis
    proof
      assume "find_ch c (x # s) = Some p"
      with True have "x # s = [] @ c # s \<and> c \<notin> set [] \<and> p = length []" by simp
      then show "\<exists>a b. x # s = a @ c # b \<and> c \<notin> set a \<and> p = length a" by blast
    next
      assume "\<exists>a b. x # s = a @ c # b \<and> c \<notin> set a \<and> p = length a"
      with True show "find_ch c (x # s) = Some p" by (auto simp: Cons_eq_append_conv)
    qed
  next
    case False
    have "find_ch c (x # s) = Some p \<longleftrightarrow> (\<exists>q. find_ch c s = Some q \<and> p = Suc q)"
      using False by auto
    also have "\<dots> \<longleftrightarrow> (\<exists>q a b. s = a @ c # b \<and> c \<notin> set a \<and> q = length a \<and> p = Suc q)"
      using Cons.IH by blast
    also have "\<dots> \<longleftrightarrow> (\<exists>a b. x # s = a @ c # b \<and> c \<notin> set a \<and> p = length a)"
      using False by (fastforce simp: Cons_eq_append_conv)
    finally show ?thesis .
  qed
qed simp

lemma find_ch_less: "find_ch c s = Some p \<Longrightarrow> p < length s"
  by (auto simp: find_ch_Some)

lemma find_last_ch_None: "find_last_ch c s = None \<longleftrightarrow> c \<notin> set s"
  by (induction s) (auto split: option.splits)

lemma find_last_ch_append [str_simps]:
  "c \<notin> set b \<Longrightarrow> find_last_ch c (a @ c # b) = Some (length a)"
proof (induction a)
  case Nil
  then show ?case by (simp add: find_last_ch_None split: option.splits)
qed auto

lemma find_last_ch_less: "find_last_ch c s = Some p \<Longrightarrow> p < length s"
  by (induction s arbitrary: p) (auto split: option.splits if_splits)

lemma starts_with_iff: "starts_with p s \<longleftrightarrow> (\<exists>t. s = p @ t)"
  by (induction p s rule: starts_with.induct) auto

lemma find_str_None: "find_str pat s = None \<longleftrightarrow> (\<nexists>a b. s = a @ pat @ b)"
proof (induction s)
  case (Cons x s)
  show ?case
  proof (cases "starts_with pat (x # s)")
    case True
    then obtain t where "x # s = [] @ pat @ t" by (auto simp: starts_with_iff)
    with True show ?thesis by (metis find_str.simps(2) option.distinct(1))
  next
    case False
    have "(\<exists>a b. x # s = a @ pat @ b) \<longleftrightarrow> (\<exists>a b. s = a @ pat @ b)"
    proof
      assume "\<exists>a b. x # s = a @ pat @ b"
      then obtain a b where ab: "x # s = a @ pat @ b" by blast
      with False have "a \<noteq> []" by (auto simp: starts_with_iff)
      with ab show "\<exists>a b. s = a @ pat @ b" by (cases a) auto
    next
      assume "\<exists>a b. s = a @ pat @ b"
      then show "\<exists>a b. x # s = a @ pat @ b" by (metis append_Cons)
    qed
    with False Cons.IH show ?thesis by simp
  qed
qed auto

lemma find_str_SomeD: "find_str pat s = Some p \<Longrightarrow> \<exists>b. s = take p s @ pat @ b \<and> p \<le> length s"
proof (induction s arbitrary: p)
  case (Cons x s)
  show ?case
  proof (cases "starts_with pat (x # s)")
    case True
    with Cons.prems show ?thesis by (auto simp: starts_with_iff)
  next
    case False
    with Cons.prems obtain q where "find_str pat s = Some q" and p: "p = Suc q" by auto
    with Cons.IH obtain b where "s = take q s @ pat @ b" and "q \<le> length s" by blast
    with p show ?thesis by auto
  qed
qed (auto split: if_splits)

lemma find_str_len: "find_str pat s = Some p \<Longrightarrow> p + length pat \<le> length s"
proof -
  assume "find_str pat s = Some p"
  then obtain b where s: "s = take p s @ pat @ b" and p: "p \<le> length s"
    using find_str_SomeD by blast
  from arg_cong [OF s, of length] p show ?thesis by simp
qed

lemma cstr_no_NUL [simp]: "NUL \<notin> set (cstr s)"
  by (auto simp: cstr_def dest: set_takeWhileD)

lemma cstr_id [simp]: "NUL \<notin> set s \<Longrightarrow> cstr s = s"
  by (auto simp: cstr_def)

lemma cstr_append: "cstr (s @ t) = (if NUL \<in> set s then cstr s else s @ cstr t)"
  by (induction s) (auto simp: cstr_def)

end
