(* ===== verification/String_Util.thy ===== *)
theory String_Util
  imports Std_Text
begin

text \<open>
  \<open>src/util/string_util.cpp\<close>: trimming, ASCII case and \<open>replaceAll\<close>. \<open>replaceAll\<close> is a
  \<open>while\<close> loop over find positions and is modelled as such; a reference definition by pieces
  says what it computes, and the loop is shown to return exactly when the pattern is not empty.
\<close>

section \<open>Trimming and case\<close>

definition ltrim :: "string \<Rightarrow> string" where
  "ltrim s = dropWhile is_space s"

definition rtrim :: "string \<Rightarrow> string" where
  "rtrim s = rev (dropWhile is_space (rev s))"

definition trim :: "string \<Rightarrow> string" where
  "trim s = rtrim (ltrim s)"

definition strtoupper :: "string \<Rightarrow> string" where
  "strtoupper str =
    map (\<lambda>c. if 97 \<le> code c \<and> code c \<le> (122::nat) then char_of (code c - (32::nat)) else c) str"

definition strtolower :: "string \<Rightarrow> string" where
  "strtolower str =
    map (\<lambda>c. if 65 \<le> code c \<and> code c \<le> (90::nat) then char_of (code c + (32::nat)) else c) str"

lemma ltrim_space: "is_space c \<Longrightarrow> ltrim (c # s) = ltrim s"
  by (simp add: ltrim_def)

lemma trim_space: "is_space c \<Longrightarrow> trim (c # s) = trim s"
  by (simp add: trim_def ltrim_space)

lemma trim_id:
  assumes "s = [] \<or> \<not> is_space (hd s)" "s = [] \<or> \<not> is_space (last s)"
  shows "trim s = s"
proof -
  have "ltrim s = s" using assms(1) by (cases s) (auto simp: ltrim_def)
  moreover have "rtrim s = s" using assms(2) by (cases s rule: rev_cases) (auto simp: rtrim_def)
  ultimately show ?thesis by (simp add: trim_def)
qed

lemma ltrim_hd: "ltrim s = [] \<or> \<not> is_space (hd (ltrim s))"
  using hd_dropWhile [of is_space s] by (auto simp: ltrim_def)

lemma rtrim_last: "rtrim s = [] \<or> \<not> is_space (last (rtrim s))"
  using hd_dropWhile [of is_space "rev s"] by (auto simp: rtrim_def last_rev)

lemma rtrim_prefix: "\<exists>t. s = rtrim s @ t \<and> (\<forall>c \<in> set t. is_space c)"
proof -
  have "rev s = takeWhile is_space (rev s) @ dropWhile is_space (rev s)" by simp
  then have "s = rtrim s @ rev (takeWhile is_space (rev s))"
    by (metis rev_append rev_rev_ident rtrim_def)
  then show ?thesis by (metis set_rev set_takeWhileD)
qed

lemma trim_ends: "trim s = [] \<or> (\<not> is_space (hd (trim s)) \<and> \<not> is_space (last (trim s)))"
proof (cases "trim s = []")
  case False
  obtain t where t: "ltrim s = rtrim (ltrim s) @ t" using rtrim_prefix by blast
  with False have "hd (trim s) = hd (ltrim s)" by (metis hd_append2 trim_def)
  moreover have "ltrim s \<noteq> []" using False t by (auto simp: trim_def rtrim_def)
  ultimately show ?thesis using False ltrim_hd [of s] rtrim_last [of "ltrim s"] by (auto simp: trim_def)
qed simp

lemma trim_idem: "trim (trim s) = trim s"
  using trim_ends [of s] by (intro trim_id) auto

lemma trim_subset: "set (trim s) \<subseteq> set s"
proof
  fix c assume "c \<in> set (trim s)"
  then have "c \<in> set (dropWhile is_space (rev (ltrim s)))" by (simp add: trim_def rtrim_def)
  then have "c \<in> set (ltrim s)" using set_dropWhileD by fastforce
  then show "c \<in> set s" using set_dropWhileD by (fastforce simp: ltrim_def)
qed

lemma strtolower_append [str_simps]: "strtolower (a @ b) = strtolower a @ strtolower b"
  by (simp add: strtolower_def)

lemma strtolower_length [simp]: "length (strtolower s) = length s"
  by (simp add: strtolower_def)

lemma strtolower_idem: "strtolower (strtolower s) = strtolower s"
  by (auto simp: strtolower_def)

lemma strtolower_id: "(\<And>c. c \<in> set s \<Longrightarrow> \<not> (65 \<le> code c \<and> code c \<le> (90::nat))) \<Longrightarrow> strtolower s = s"
  by (induction s) (auto simp: strtolower_def)

section \<open>\<open>replaceAll\<close>\<close>

partial_function (option) replaceAll_loop ::
  "string \<Rightarrow> string \<Rightarrow> string \<Rightarrow> nat \<Rightarrow> string \<Rightarrow> (nat \<times> string) option" where
  "replaceAll_loop source from to lastPos newString =
    (case find_str_from from source lastPos of
       None \<Rightarrow> Some (lastPos, newString)
     | Some findPos \<Rightarrow>
         replaceAll_loop source from to (findPos + length from)
           (newString @ take (findPos - lastPos) (drop lastPos source) @ to))"

definition replaceAll :: "string \<Rightarrow> string \<Rightarrow> string \<Rightarrow> string option" where
  "replaceAll source from to =
    (case replaceAll_loop source from to 0 [] of
       None \<Rightarrow> None
     | Some (lastPos, newString) \<Rightarrow> Some (newString @ drop lastPos source))"

text \<open>The reference: cut the text at each leftmost occurrence, then join with the replacement.\<close>

function pieces :: "string \<Rightarrow> string \<Rightarrow> string list" where
  "pieces pat s =
    (case find_str pat s of
       None \<Rightarrow> [s]
     | Some p \<Rightarrow> (if pat = [] then [s] else take p s # pieces pat (drop (p + length pat) s)))"
  by pat_completeness auto
termination
proof (relation "measure (\<lambda>(pat, s). length s)")
  fix pat s :: string and p
  assume "find_str pat s = Some p" "pat \<noteq> []"
  then show "((pat, drop (p + length pat) s), (pat, s)) \<in> measure (\<lambda>(pat, s). length s)"
    using find_str_len [of pat s p] by (cases pat) auto
qed simp

declare pieces.simps [simp del]

fun join :: "string \<Rightarrow> string list \<Rightarrow> string" where
  "join sep [] = []"
| "join sep [x] = x"
| "join sep (x # y # zs) = x @ sep @ join sep (y # zs)"

lemma pieces_nonempty: "pieces pat s \<noteq> []"
  by (subst pieces.simps) (auto split: option.split)

lemma join_Cons: "xs \<noteq> [] \<Longrightarrow> join sep (x # xs) = x @ sep @ join sep xs"
  by (cases xs) auto

lemma join_pieces_same: "pat \<noteq> [] \<Longrightarrow> join pat (pieces pat s) = s"
proof (induction pat s rule: pieces.induct)
  case (1 pat s)
  show ?case
  proof (cases "find_str pat s")
    case None
    then show ?thesis by (subst pieces.simps) simp
  next
    case (Some p)
    then obtain b where s: "s = take p s @ pat @ b" and p: "p \<le> length s"
      using find_str_SomeD by blast
    have d: "drop (p + length pat) s = b"
      using arg_cong [OF s, of "drop (p + length pat)"] p by simp
    have "join pat (pieces pat s) = take p s @ pat @ join pat (pieces pat b)"
      using Some 1(2) d by (simp add: pieces.simps [of pat s] join_Cons pieces_nonempty)
    also have "\<dots> = s" using 1 Some d s by simp
    finally show ?thesis .
  qed
qed

lemma find_str_leftmost:
  assumes "find_str pat s = Some p" "pat \<noteq> []"
  shows "find_str pat (take p s) = None"
  using assms(1)
proof (induction s arbitrary: p)
  case (Cons x s)
  show ?case
  proof (cases "starts_with pat (x # s)")
    case True
    with Cons.prems assms(2) show ?thesis by auto
  next
    case False
    with Cons.prems obtain q where q: "find_str pat s = Some q" "p = Suc q" by auto
    have "\<not> starts_with pat (x # take q s)"
      using False by (metis append_Cons append_assoc append_take_drop_id starts_with_iff)
    with q Cons.IH show ?thesis by simp
  qed
qed (use assms(2) in auto)

lemma pieces_clean: "pat \<noteq> [] \<Longrightarrow> q \<in> set (pieces pat s) \<Longrightarrow> find_str pat q = None"
proof (induction pat s rule: pieces.induct)
  case (1 pat s)
  show ?case
  proof (cases "find_str pat s")
    case None
    with 1 show ?thesis by (simp add: pieces.simps [of pat s])
  next
    case (Some p)
    with 1 show ?thesis
      using find_str_leftmost [OF Some 1(2)] by (auto simp: pieces.simps [of pat s])
  qed
qed

lemma replaceAll_loop_pieces:
  assumes "from \<noteq> []" "pos \<le> length source"
  shows "\<exists>n acc'. replaceAll_loop source from to pos acc = Some (n, acc') \<and>
    acc' @ drop n source = acc @ join to (pieces from (drop pos source))"
  using assms(2)
proof (induction "length source - pos" arbitrary: pos acc rule: less_induct)
  case less
  show ?case
  proof (cases "find_str from (drop pos source)")
    case None
    then show ?thesis
      using less.prems by (simp add: replaceAll_loop.simps find_str_from_def pieces.simps)
  next
    case (Some p)
    let ?pos' = "pos + p + length from"
    have len: "?pos' \<le> length source"
      using find_str_len [OF Some] less.prems by simp
    then have smaller: "length source - ?pos' < length source - pos"
      using assms(1) less.prems by (cases "from") auto
    define acc1 where "acc1 = acc @ take p (drop pos source) @ to"
    obtain n acc' where r: "replaceAll_loop source from to ?pos' acc1 = Some (n, acc')"
        "acc' @ drop n source = acc1 @ join to (pieces from (drop ?pos' source))"
      using less.hyps [OF smaller len] by blast
    have "replaceAll_loop source from to pos acc = Some (n, acc')"
      using r(1) less.prems Some
      by (subst replaceAll_loop.simps) (simp add: find_str_from_def acc1_def)
    moreover have "join to (pieces from (drop pos source)) =
        take p (drop pos source) @ to @ join to (pieces from (drop ?pos' source))"
      using Some assms(1)
      by (simp add: pieces.simps [of "from" "drop pos source"] join_Cons pieces_nonempty ac_simps)
    ultimately show ?thesis using r(2) by (auto simp: acc1_def)
  qed
qed

lemma replaceAll_by_pieces: "from \<noteq> [] \<Longrightarrow> replaceAll s from to = Some (join to (pieces from s))"
  using replaceAll_loop_pieces [of "from" 0 s to "[]"] by (auto simp: replaceAll_def)

text \<open>An empty pattern is found again at every position, so the loop never ends.\<close>

lemma replaceAll_loop_empty_pattern:
  assumes "replaceAll_loop source from to pos acc = Some r"
  shows "\<not> (from = [] \<and> pos \<le> length source)"
proof (rule replaceAll_loop.raw_induct
    [where P = "\<lambda>source from to pos acc r. \<not> (from = [] \<and> pos \<le> length source)", OF _ assms])
  fix f source "from" to pos acc r
  assume IH: "\<And>source from to pos acc r.
      f source from to pos acc = Some r \<Longrightarrow> \<not> (from = [] \<and> pos \<le> length source)"
    and eq: "(case find_str_from from source pos of None \<Rightarrow> Some (pos, acc)
       | Some q \<Rightarrow> f source from to (q + length from)
           (acc @ take (q - pos) (drop pos source) @ to)) = Some r"
  show "\<not> (from = [] \<and> pos \<le> length source)"
  proof
    assume h: "from = [] \<and> pos \<le> length source"
    then have "find_str_from from source pos = Some pos"
      by (cases "drop pos source") (auto simp: find_str_from_def)
    with eq h have "f source from to pos (acc @ to) = Some r" by simp
    with IH h show False by blast
  qed
qed

lemma replaceAll_empty_pattern: "replaceAll s [] to = None"
proof (cases "replaceAll_loop s [] to 0 []")
  case (Some r)
  with replaceAll_loop_empty_pattern [OF this] show ?thesis by simp
qed (simp add: replaceAll_def)

text \<open>A one-character pattern is replaced character by character.\<close>

lemma find_str_single: "find_str [c] s = find_ch c s"
  by (induction s) auto

lemma join_pieces_single:
  "join to (pieces [c] s) = concat (map (\<lambda>x. if x = c then to else [x]) s)"
proof (induction s rule: length_induct)
  case (1 s)
  show ?case
  proof (cases "find_ch c s")
    case None
    then have "c \<notin> set s" by (simp add: find_ch_None)
    then have "concat (map (\<lambda>x. if x = c then to else [x]) s) = s" by (induction s) auto
    with None show ?thesis by (simp add: pieces.simps [of "[c]" s] find_str_single)
  next
    case (Some p)
    then obtain a b where s: "s = a @ c # b" "c \<notin> set a" "p = length a"
      by (auto simp: find_ch_Some)
    from s(2) have "concat (map (\<lambda>x. if x = c then to else [x]) a) = a" by (induction a) auto
    moreover have "pieces [c] s = a # pieces [c] b"
      using Some s by (subst pieces.simps) (simp add: find_str_single)
    ultimately show ?thesis using 1 s by (simp add: join_Cons pieces_nonempty)
  qed
qed

lemma replaceAll_single:
  "replaceAll s [c] to = Some (concat (map (\<lambda>x. if x = c then to else [x]) s))"
  by (simp add: replaceAll_by_pieces join_pieces_single)

section \<open>The contracts of the two utilities\<close>

text \<open>\<open>trim\<close> removes white space at both ends and nothing else: the text is
  the trimmed text between two runs of white space, and what is left neither starts nor ends
  with white space.\<close>
theorem trim_contract:
  "\<exists>a b. s = a @ trim s @ b \<and> list_all is_space (a @ b) \<and>
    \<not> (trim s \<noteq> [] \<and> (is_space (hd (trim s)) \<or> is_space (last (trim s))))"
proof -
  obtain b where b: "ltrim s = rtrim (ltrim s) @ b" "\<forall>c \<in> set b. is_space c"
    using rtrim_prefix by blast
  have "s = takeWhile is_space s @ ltrim s" by (simp add: ltrim_def)
  then have "s = takeWhile is_space s @ trim s @ b" using b(1) by (simp add: trim_def)
  moreover have "list_all is_space (takeWhile is_space s @ b)"
    using b(2) by (auto simp: list_all_iff dest: set_takeWhileD)
  ultimately show ?thesis using trim_ends [of s] by blast
qed

text \<open>\<open>replaceAll\<close> returns exactly when the pattern is not empty, and then it
  is the text cut at the leftmost occurrences of the pattern and joined by the replacement; the
  pieces are free of the pattern and join to the text itself by the pattern.\<close>
theorem replaceAll_contract:
  "replaceAll s from to = (if from = [] then None else Some (join to (pieces from s))) \<and>
    (from = [] \<or> (join from (pieces from s) = s \<and>
      list_all (\<lambda>q. find_str from q = None) (pieces from s)))"
  using pieces_clean [of "from"]
  by (auto simp: replaceAll_by_pieces replaceAll_empty_pattern join_pieces_same list_all_iff)

end
