(* ===== verification/Std_Numbers.thy ===== *)
theory Std_Numbers
  imports Std_Text
begin

text \<open>
  Number text of the C library: what \<open>atoi\<close> and \<open>sscanf("%x")\<close> read, and what the
  \<open>%i\<close>, \<open>%u\<close>, \<open>%lu\<close> and \<open>%02x\<close> conversions print, with the round trip between them.
\<close>

section \<open>Decimal digits\<close>

fun dec_of_nat :: "nat \<Rightarrow> string" where
  "dec_of_nat n = (if n < 10 then [digit_char n] else dec_of_nat (n div 10) @ [digit_char (n mod 10)])"

declare dec_of_nat.simps [simp del]

definition dec_of_int :: "int \<Rightarrow> string" where
  "dec_of_int v = (if v < 0 then CHR ''-'' # dec_of_nat (nat (- v)) else dec_of_nat (nat v))"

fun dec_val :: "nat \<Rightarrow> string \<Rightarrow> nat" where
  "dec_val acc [] = acc"
| "dec_val acc (c # cs) = (if is_digit c then dec_val (10 * acc + digit_val c) cs else acc)"

lemma dec_of_nat_digits: "c \<in> set (dec_of_nat n) \<Longrightarrow> is_digit c"
proof (induction n rule: dec_of_nat.induct)
  case (1 n)
  then show ?case by (cases "n < 10") (auto simp: dec_of_nat.simps [of n])
qed

lemma dec_of_nat_nonempty [simp]: "dec_of_nat n \<noteq> []"
  by (subst dec_of_nat.simps) simp

lemma dec_of_nat_not_in [simp]: "\<not> is_digit c \<Longrightarrow> c \<notin> set (dec_of_nat n)"
  using dec_of_nat_digits by blast

lemma dec_val_append_digits:
  "(\<And>c. c \<in> set ds \<Longrightarrow> is_digit c) \<Longrightarrow> dec_val acc (ds @ rest) = dec_val (dec_val acc ds) rest"
  by (induction ds arbitrary: acc) auto

lemma dec_val_dec_of_nat: "dec_val 0 (dec_of_nat n) = n"
proof (induction n rule: dec_of_nat.induct)
  case (1 n)
  show ?case
  proof (cases "n < 10")
    case True
    then show ?thesis by (simp add: dec_of_nat.simps [of n])
  next
    case False
    with 1 have "dec_val 0 (dec_of_nat (n div 10)) = n div 10" by simp
    with False show ?thesis
      by (simp add: dec_of_nat.simps [of n] dec_val_append_digits dec_of_nat_digits)
  qed
qed

lemma dec_val_stop: "(rest = [] \<or> \<not> is_digit (hd rest)) \<Longrightarrow> dec_val acc rest = acc"
  by (cases rest) auto

lemma dec_val_print:
  "(rest = [] \<or> \<not> is_digit (hd rest)) \<Longrightarrow> dec_val 0 (dec_of_nat n @ rest) = n"
  by (simp add: dec_val_append_digits dec_of_nat_digits dec_val_dec_of_nat dec_val_stop)

lemma dec_of_nat_inj [simp]: "dec_of_nat m = dec_of_nat n \<longleftrightarrow> m = n"
  by (metis dec_val_dec_of_nat)

lemma dec_of_nat_length_pos: "0 < length (dec_of_nat n)"
  by simp

section \<open>\<open>atoi\<close>\<close>

text \<open>
  \<open>atoi\<close> skips leading white space, reads an optional sign and digits, and returns the
  \<open>int\<close> of the \<open>long\<close> that \<open>strtol\<close> computes: saturated to 64 bits, then cut to 32.
\<close>

definition sat64 :: "int \<Rightarrow> int" where
  "sat64 v = max (- (2 ^ 63)) (min (2 ^ 63 - 1) v)"

definition atoi :: "string \<Rightarrow> int" where
  "atoi s =
    (let t = dropWhile is_space (cstr s)
     in i32 (sat64
         (case t of
            [] \<Rightarrow> 0
          | c # cs \<Rightarrow>
              (if c = CHR ''-'' then - int (dec_val 0 cs)
               else if c = CHR ''+'' then int (dec_val 0 cs)
               else int (dec_val 0 (c # cs))))))"

text \<open>Assigning the result to an \<open>unsigned int\<close>.\<close>

definition uint_of_int :: "int \<Rightarrow> 32 word" where
  "uint_of_int v = word_of_int v"

lemma dec_of_nat_hd: "\<exists>c cs. dec_of_nat n = c # cs \<and> is_digit c"
proof -
  obtain c cs where "dec_of_nat n = c # cs"
    by (cases "dec_of_nat n") auto
  then show ?thesis using dec_of_nat_digits [of c n] by auto
qed

lemma NUL_not_in_dec [simp]: "NUL \<notin> set (dec_of_nat n)"
  by simp

lemma atoi_print:
  assumes n: "n < 2147483648" and rest: "rest = [] \<or> \<not> is_digit (hd rest)"
  shows "atoi (dec_of_nat n @ rest) = int n"
proof -
  obtain c cs where cs: "dec_of_nat n = c # cs" and dc: "is_digit c"
    using dec_of_nat_hd by blast
  define r where "r = cstr rest"
  have r: "r = [] \<or> \<not> is_digit (hd r)"
    using rest by (cases rest) (auto simp: r_def cstr_def)
  have cut: "cstr (dec_of_nat n @ rest) = dec_of_nat n @ r"
    by (simp add: cstr_append r_def)
  have dw: "dropWhile is_space (dec_of_nat n @ r) = c # (cs @ r)"
    using cs dc digit_not_space by simp
  have sign: "c \<noteq> CHR ''-''" "c \<noteq> CHR ''+''"
    using dc by (auto simp: is_digit_def)
  have val: "dec_val 0 (c # (cs @ r)) = n"
    using dec_val_print [OF r, of n] cs by simp
  have "atoi (dec_of_nat n @ rest) = i32 (sat64 (int (dec_val 0 (c # (cs @ r)))))"
    unfolding atoi_def Let_def cut dw using sign by simp
  then show ?thesis
    using n by (simp only: val) (simp add: sat64_def)
qed

lemma atoi_dec_of_nat [simp]: "n < 2147483648 \<Longrightarrow> atoi (dec_of_nat n) = int n"
  using atoi_print [of n "[]"] by simp

lemma atoi_skip_space: "is_space c \<Longrightarrow> c \<noteq> NUL \<Longrightarrow> atoi (c # s) = atoi s"
  by (simp add: atoi_def cstr_def)

lemma atoi_range: "- 2147483648 \<le> atoi s \<and> atoi s < 2147483648"
proof -
  have b: "- (2 ^ 31) \<le> i32 v" "i32 v < 2 ^ 31" for v
    unfolding i32_def
    using sint_ge [of "word_of_int v :: 32 word"] sint_lt [of "word_of_int v :: 32 word"] by simp_all
  show ?thesis unfolding atoi_def Let_def using b by simp
qed

section \<open>Hexadecimal\<close>

definition hex_char :: "nat \<Rightarrow> char" where
  "hex_char d = (if d < 10 then char_of (48 + d) else char_of (87 + d))"

text \<open>\<open>%02x\<close> of an \<open>unsigned char\<close>.\<close>

definition hex2 :: "8 word \<Rightarrow> string" where
  "hex2 b = [hex_char (unat b div 16), hex_char (unat b mod 16)]"

definition hex_digit :: "char \<Rightarrow> nat option" where
  "hex_digit c =
    (let k = code c in
     if 48 \<le> k \<and> k \<le> 57 then Some (k - 48)
     else if 97 \<le> k \<and> k \<le> 102 then Some (k - 87)
     else if 65 \<le> k \<and> k \<le> 70 then Some (k - 55)
     else None)"

fun hex_val :: "nat \<Rightarrow> string \<Rightarrow> nat" where
  "hex_val acc [] = acc"
| "hex_val acc (c # cs) = (case hex_digit c of Some d \<Rightarrow> hex_val (16 * acc + d) cs | None \<Rightarrow> acc)"

text \<open>
  \<open>sscanf(s, "%x", &v)\<close>: skips white space, reads an optional sign, an optional \<open>0x\<close> and hex
  digits; \<^const>\<open>None\<close> when there is no digit to read, and then \<open>v\<close> is not assigned. The
  value is an \<open>unsigned long\<close> (saturated) cut to 32 bits.
\<close>

definition drop_0x :: "string \<Rightarrow> string" where
  "drop_0x s =
    (case s of
       a # b # c # cs \<Rightarrow>
         (if a = CHR ''0'' \<and> (b = CHR ''x'' \<or> b = CHR ''X'') \<and> hex_digit c \<noteq> None
          then c # cs else s)
     | _ \<Rightarrow> s)"

definition hex_unsigned :: "string \<Rightarrow> nat option" where
  "hex_unsigned s =
    (case drop_0x s of
       [] \<Rightarrow> None
     | c # cs \<Rightarrow>
         (if hex_digit c = None then None else Some (min (2 ^ 64 - 1) (hex_val 0 (c # cs)))))"

definition sscanf_x :: "string \<Rightarrow> 32 word option" where
  "sscanf_x s =
    (let t = dropWhile is_space (cstr s) in
     case t of
       [] \<Rightarrow> None
     | c # cs \<Rightarrow>
         (if c = CHR ''-'' then map_option (\<lambda>v. - word_of_nat v) (hex_unsigned cs)
          else if c = CHR ''+'' then map_option word_of_nat (hex_unsigned cs)
          else map_option word_of_nat (hex_unsigned (c # cs))))"

lemma hex_digit_char [simp]: "d < 16 \<Longrightarrow> hex_digit (hex_char d) = Some d"
  by (auto simp: hex_digit_def hex_char_def Let_def)

lemma hex2_val: "hex_val 0 (hex2 b) = unat b"
proof -
  have "unat b < 256" using unsigned_less [where w = b] by simp
  then show ?thesis by (simp add: hex2_def)
qed

lemma hex2_length [simp]: "length (hex2 b) = 2"
  by (simp add: hex2_def)

lemma hex2_inj: "hex2 a = hex2 b \<longleftrightarrow> a = b"
  by (metis hex2_val unsigned_word_eqI)

text \<open>\<open>%x\<close> of an unsigned value, and \<open>sscanf\<close> reading it back.\<close>

fun hex_of_nat :: "nat \<Rightarrow> string" where
  "hex_of_nat n = (if n < 16 then [hex_char n] else hex_of_nat (n div 16) @ [hex_char (n mod 16)])"

declare hex_of_nat.simps [simp del]

lemma hex_of_nat_digits: "c \<in> set (hex_of_nat n) \<Longrightarrow> hex_digit c \<noteq> None"
proof (induction n rule: hex_of_nat.induct)
  case (1 n)
  then show ?case by (cases "n < 16") (auto simp: hex_of_nat.simps [of n])
qed

lemma hex_val_append:
  "(\<And>c. c \<in> set ds \<Longrightarrow> hex_digit c \<noteq> None) \<Longrightarrow> hex_val acc (ds @ rest) = hex_val (hex_val acc ds) rest"
proof (induction ds arbitrary: acc)
  case (Cons c ds)
  then obtain d where "hex_digit c = Some d" by (metis list.set_intros(1) not_None_eq)
  with Cons show ?case by simp
qed simp

lemma hex_val_hex_of_nat: "hex_val 0 (hex_of_nat n) = n"
proof (induction n rule: hex_of_nat.induct)
  case (1 n)
  show ?case
  proof (cases "n < 16")
    case False
    with 1 show ?thesis
      by (simp add: hex_of_nat.simps [of n] hex_val_append hex_of_nat_digits)
  qed (simp add: hex_of_nat.simps [of n])
qed

lemma hex_of_nat_nonempty [simp]: "hex_of_nat n \<noteq> []"
  by (subst hex_of_nat.simps) simp

lemma hex_digit_plain:
  "hex_digit c \<noteq> None \<Longrightarrow> \<not> is_space c \<and> c \<noteq> NUL \<and> c \<noteq> CHR ''-'' \<and> c \<noteq> CHR ''+'' \<and> c \<noteq> CHR ''x'' \<and> c \<noteq> CHR ''X''"
  by (auto simp: hex_digit_def is_space_def Let_def)

lemma sscanf_x_print:
  assumes "n < 2 ^ 64"
  shows "sscanf_x (hex_of_nat n) = Some (word_of_nat n)"
proof -
  obtain c cs where cs: "hex_of_nat n = c # cs" by (cases "hex_of_nat n") auto
  have all: "hex_digit d \<noteq> None" if "d \<in> set (c # cs)" for d
    using hex_of_nat_digits [of d n] that cs by simp
  have "NUL \<notin> set (c # cs)" using all hex_digit_plain by blast
  then have cut: "cstr (c # cs) = c # cs" by (rule cstr_id)
  have c: "\<not> is_space c" "c \<noteq> CHR ''-''" "c \<noteq> CHR ''+''" using hex_digit_plain all by auto
  have "drop_0x (c # cs) = c # cs"
    using all hex_digit_plain by (auto simp: drop_0x_def split: list.split)
  moreover have "hex_val 0 (c # cs) = n" using hex_val_hex_of_nat [of n] unfolding cs .
  ultimately have "hex_unsigned (c # cs) = Some n"
    using all [of c] assms unfolding hex_unsigned_def by simp
  with c show ?thesis by (simp add: sscanf_x_def cs cut Let_def)
qed

lemma sscanf_x_space: "is_space c \<Longrightarrow> c \<noteq> NUL \<Longrightarrow> sscanf_x (c # s) = sscanf_x s"
  by (simp add: sscanf_x_def cstr_def)

end
