(* ===== verification/Contracts.thy ===== *)
theory Contracts
  imports Prelude
begin

text \<open>
  The interfaces several components share, as locales. \<open>registry\<close> is the contract of every
  vector the program searches front to back and appends to (endpoints, MIME types, sessions,
  flags, headers, cookies); \<open>erasable_registry\<close> adds the operation that erases the first
  match. \<open>step_machine\<close> is the contract of a state machine with an invariant. The lemmas are
  proved here once; each component interprets the locale on its own operations.
\<close>

text \<open>\<open>erase(it)\<close> of the first element that satisfies the test, then \<open>return\<close>.\<close>

fun erase_first :: "('a \<Rightarrow> bool) \<Rightarrow> 'a list \<Rightarrow> 'a list" where
  "erase_first P [] = []"
| "erase_first P (x # xs) = (if P x then xs else x # erase_first P xs)"

lemma erase_first_absent: "find P xs = None \<Longrightarrow> erase_first P xs = xs"
  by (induction xs) (auto split: if_splits)

lemma erase_first_append_absent:
  "find P xs = None \<Longrightarrow> erase_first P (xs @ ys) = xs @ erase_first P ys"
  by (induction xs) (auto split: if_splits)

lemma erase_first_split:
  "find P xs = Some x \<Longrightarrow> \<exists>a b. xs = a @ x # b \<and> find P a = None \<and> erase_first P xs = a @ b"
proof (induction xs)
  case (Cons y xs)
  show ?case
  proof (cases "P y")
    case True
    with Cons.prems show ?thesis by (intro exI [of _ "[]"] exI [of _ xs]) auto
  next
    case False
    with Cons obtain a b where "xs = a @ x # b" "find P a = None" "erase_first P xs = a @ b"
      by auto
    with False show ?thesis by (intro exI [of _ "y # a"] exI [of _ b]) auto
  qed
qed simp

lemma erase_first_set: "set (erase_first P xs) \<subseteq> set xs"
  by (induction xs) auto

lemma erase_first_distinct: "distinct xs \<Longrightarrow> distinct (erase_first P xs)"
  by (induction xs) (auto dest: erase_first_set [THEN subsetD])

lemma erase_first_eq_remove1: "erase_first (\<lambda>y. y = x) xs = remove1 x xs"
  by (induction xs) auto

lemma find_append: "find P (xs @ ys) = (case find P xs of Some x \<Rightarrow> Some x | None \<Rightarrow> find P ys)"
  by (induction xs) auto

lemma find_erase_other:
  "(\<And>x. P x \<Longrightarrow> \<not> Q x) \<Longrightarrow> find Q (erase_first P xs) = find Q xs"
  by (induction xs) auto

lemma find_SomeD: "find P xs = Some x \<Longrightarrow> x \<in> set xs \<and> P x"
  by (induction xs) (auto split: if_splits)

section \<open>First-match registries\<close>

locale registry =
  fixes entries :: "'s \<Rightarrow> 'e list"
    and keyed :: "'k \<Rightarrow> 'e \<Rightarrow> bool"
    and look :: "'k \<Rightarrow> 's \<Rightarrow> 'e option"
    and add :: "'e \<Rightarrow> 's \<Rightarrow> 's"
  assumes look_first: "look k s = find (keyed k) (entries s)"
    and entries_add: "entries (add e s) = entries s @ [e]"
begin

lemma look_add:
  "look k (add e s) = (case look k s of Some x \<Rightarrow> Some x | None \<Rightarrow> if keyed k e then Some e else None)"
  by (simp add: look_first entries_add find_append split: option.split)

lemma look_add_keeps: "look k s = Some x \<Longrightarrow> look k (add e s) = Some x"
  by (simp add: look_add)

lemma look_add_new: "look k s = None \<Longrightarrow> keyed k e \<Longrightarrow> look k (add e s) = Some e"
  by (simp add: look_add)

lemma look_add_other: "\<not> keyed k e \<Longrightarrow> look k (add e s) = look k s"
  by (simp add: look_add split: option.split)

lemma look_sound: "look k s = Some x \<Longrightarrow> x \<in> set (entries s) \<and> keyed k x"
  by (simp add: look_first find_SomeD)

lemma look_None_iff: "look k s = None \<longleftrightarrow> (\<forall>x \<in> set (entries s). \<not> keyed k x)"
  by (auto simp: look_first find_None_iff)

lemma entries_add_all: "entries (fold add es s) = entries s @ es"
  by (induction es arbitrary: s) (simp_all add: entries_add)

lemma look_add_all:
  "look k (fold add es s) = (case look k s of Some x \<Rightarrow> Some x | None \<Rightarrow> find (keyed k) es)"
  by (simp add: look_first entries_add_all find_append)

end

locale erasable_registry = registry +
  fixes erase :: "'k \<Rightarrow> 's \<Rightarrow> 's"
  assumes entries_erase: "entries (erase k s) = erase_first (keyed k) (entries s)"
begin

lemma erase_absent: "look k s = None \<Longrightarrow> entries (erase k s) = entries s"
  by (simp add: look_first entries_erase erase_first_absent)

lemma erase_added: "look k s = None \<Longrightarrow> keyed k e \<Longrightarrow> entries (erase k (add e s)) = entries s"
  by (simp add: look_first entries_erase entries_add erase_first_append_absent)

lemma look_erase_other:
  "(\<And>x. keyed k x \<Longrightarrow> \<not> keyed j x) \<Longrightarrow> look j (erase k s) = look j s"
  by (simp add: look_first entries_erase find_erase_other)

lemma erase_one:
  assumes "look k s = Some x"
  shows "length (entries (erase k s)) + 1 = length (entries s)"
proof -
  obtain a b where "entries s = a @ x # b" "erase_first (keyed k) (entries s) = a @ b"
    using erase_first_split assms by (metis look_first)
  then show ?thesis by (simp add: entries_erase)
qed

lemma erase_unique:
  assumes "\<And>x y. x \<in> set (entries s) \<Longrightarrow> y \<in> set (entries s) \<Longrightarrow> keyed k x \<Longrightarrow> keyed k y \<Longrightarrow> x = y"
    and "distinct (entries s)"
  shows "look k (erase k s) = None"
proof (cases "look k s")
  case None
  then show ?thesis by (simp add: look_first entries_erase erase_first_absent)
next
  case (Some x)
  then obtain a b where ab: "entries s = a @ x # b" "entries (erase k s) = a @ b"
    using erase_first_split by (metis look_first entries_erase)
  have kx: "keyed k x" using look_sound [OF Some] by simp
  have x: "x \<notin> set (a @ b)" using assms(2) ab(1) by simp
  have "\<not> keyed k y" if y: "y \<in> set (a @ b)" for y
    using assms(1) [of y x] y kx x ab(1) by (metis Un_iff in_set_conv_decomp set_append insert_iff list.set(2))
  with ab show ?thesis by (simp add: look_None_iff)
qed

end

section \<open>State machines with an invariant\<close>

locale step_machine =
  fixes start :: "'s \<Rightarrow> bool"
    and step :: "'s \<Rightarrow> 's \<Rightarrow> bool"
    and inv :: "'s \<Rightarrow> bool"
  assumes inv_start: "start s \<Longrightarrow> inv s"
    and inv_step: "inv s \<Longrightarrow> step s t \<Longrightarrow> inv t"
begin

lemma inv_reachable: "step\<^sup>*\<^sup>* s t \<Longrightarrow> start s \<Longrightarrow> inv t"
  by (induction rule: rtranclp_induct) (auto intro: inv_start inv_step)

lemma inv_trace:
  assumes "step\<^sup>*\<^sup>* s t" "inv s"
  shows "inv t"
  using assms by (induction rule: rtranclp_induct) (auto intro: inv_step)

end

end
