(* ===== verification/Messages.thy ===== *)
theory Messages
  imports String_Util Std_Numbers Contracts
begin

text \<open>
  The message and record classes of \<open>src/include/solusek\<close> and \<open>CVarVal\<close>: cookies, requests,
  responses, endpoints, MIME types and flags, with the constructors that fill their defaults and
  the two lookups they offer (\<open>MRequest::getCookie\<close>, \<open>CFlagCollection::get\<close>).
\<close>

section \<open>Records\<close>

record CVarVal =
  Var :: string
  Val :: string

record MCookie =
  ckName :: string
  ckValue :: string
  ckPath :: string
  ckNone :: bool

definition MCookie_none :: "bool \<Rightarrow> MCookie" where
  "MCookie_none none = \<lparr>ckName = [], ckValue = [], ckPath = [], ckNone = none\<rparr>"

definition new_MCookie :: "string \<Rightarrow> string \<Rightarrow> MCookie" where
  "new_MCookie name val = \<lparr>ckName = name, ckValue = val, ckPath = [], ckNone = False\<rparr>"

record MRequest =
  rqCookies :: "MCookie list"
  rqBody :: string
  rqHost :: string
  rqSID :: string
  rqQueryString :: string
  rqSSLClientCN :: string

definition new_MRequest :: "string \<Rightarrow> MRequest" where
  "new_MRequest body =
    \<lparr>rqCookies = [], rqBody = body, rqHost = [], rqSID = [], rqQueryString = [], rqSSLClientCN = []\<rparr>"

definition getCookie :: "MRequest \<Rightarrow> string \<Rightarrow> MCookie" where
  "getCookie rq name =
    (case find (\<lambda>c. ckName c = name) (rqCookies rq) of
       Some c \<Rightarrow> c
     | None \<Rightarrow> MCookie_none True)"

record MResponse =
  rsCode :: int
  rsBody :: string
  rsContentType :: string
  rsDate :: string
  rsSID :: string
  rsLocation :: string
  rsCookies :: "MCookie list"

definition new_MResponse :: "int \<Rightarrow> string \<Rightarrow> string \<Rightarrow> MResponse" where
  "new_MResponse code' body sid =
    \<lparr>rsCode = code', rsBody = body, rsContentType = ''application/json'', rsDate = [],
     rsSID = sid, rsLocation = [], rsCookies = []\<rparr>"

definition default_MResponse :: MResponse where
  "default_MResponse = new_MResponse 200 [] []"

definition getCodeDescription :: "MResponse \<Rightarrow> string" where
  "getCodeDescription r =
    (if rsCode r = 200 then ''OK''
     else if rsCode r = 404 then ''Not Found''
     else if rsCode r = 400 then ''Bad Request''
     else ''Unknown'')"

text \<open>
  \<open>MErrorResponse\<close> builds its JSON body by \<open>replaceAll\<close> of the quotation marks; \<^const>\<open>None\<close>
  would be a replacement that does not return.
\<close>

definition new_MErrorResponse :: "int \<Rightarrow> string \<Rightarrow> MResponse option" where
  "new_MErrorResponse code' msg =
    map_option
      (\<lambda>m. default_MResponse
        \<lparr>rsCode := code',
         rsBody := ''{ '' @ [DQUOTE] @ ''code'' @ [DQUOTE] @ '': '' @ [DQUOTE] @ dec_of_int code' @
           [DQUOTE] @ '', '' @ [DQUOTE] @ ''message'' @ [DQUOTE] @ '': '' @ [DQUOTE] @ m @
           [DQUOTE] @ '' }''\<rparr>)
      (replaceAll msg [DQUOTE] [CHR 0x5C, DQUOTE])"

record MMimeType =
  mtExt :: string
  mtType :: string
  mtIsText :: bool

definition new_MMimeType :: "string \<Rightarrow> bool \<Rightarrow> string \<Rightarrow> MMimeType" where
  "new_MMimeType ext isText type =
    \<lparr>mtExt = ext,
     mtType = (if type = [] then (if isText then ''text/'' @ ext else ''application/'' @ ext) else type),
     mtIsText = isText\<rparr>"

text \<open>
  A function pointer is an address: \<open>epCallback\<close> is a number, and the code behind it (the
  application's, not the library's) is an argument of the operations that call it.
\<close>

record MEndpoint =
  epType :: int
  epPath :: string
  epMethod :: string
  epContents :: string
  epExt :: string
  epContentType :: string
  epDate :: string
  epCallback :: nat

definition new_MEndpoint :: "string \<Rightarrow> nat \<Rightarrow> string \<Rightarrow> MEndpoint" where
  "new_MEndpoint path callback method =
    \<lparr>epType = 0, epPath = path, epMethod = method, epContents = [], epExt = [],
     epContentType = ''application/json'', epDate = [], epCallback = callback\<rparr>"

record MStaticEndpoint =
  seHost :: string
  sePath :: string

section \<open>Flags\<close>

datatype EFlag = E_FLAG_NULL | E_FLAG_COUNT

fun EFlag_value :: "EFlag \<Rightarrow> int" where
  "EFlag_value E_FLAG_NULL = 0"
| "EFlag_value E_FLAG_COUNT = 1"

instantiation EFlag :: linorder
begin

definition less_eq_EFlag :: "EFlag \<Rightarrow> EFlag \<Rightarrow> bool" where
  "less_eq_EFlag a b \<longleftrightarrow> EFlag_value a \<le> EFlag_value b"

definition less_EFlag :: "EFlag \<Rightarrow> EFlag \<Rightarrow> bool" where
  "less_EFlag a b \<longleftrightarrow> EFlag_value a < EFlag_value b"

instance
proof
  fix a b c :: EFlag
  show "a < b \<longleftrightarrow> a \<le> b \<and> \<not> b \<le> a" by (auto simp: less_eq_EFlag_def less_EFlag_def)
  show "a \<le> a" by (simp add: less_eq_EFlag_def)
  show "a \<le> b \<Longrightarrow> b \<le> c \<Longrightarrow> a \<le> c" by (simp add: less_eq_EFlag_def)
  show "a \<le> b \<Longrightarrow> b \<le> a \<Longrightarrow> a = b" by (cases a; cases b) (simp_all add: less_eq_EFlag_def)
  show "a \<le> b \<or> b \<le> a" by (auto simp: less_eq_EFlag_def)
qed

end

record MFlag =
  fgFlag :: EFlag
  fgParam :: string

type_synonym CFlagCollection = "MFlag list"

definition flag_get :: "EFlag \<Rightarrow> CFlagCollection \<Rightarrow> MFlag option" where
  "flag_get flagId L = find (\<lambda>f. fgFlag f = flagId) L"

definition flag_add :: "MFlag \<Rightarrow> CFlagCollection \<Rightarrow> CFlagCollection" where
  "flag_add f L = L @ [f]"

text \<open>\<open>size()\<close> returns the vector's \<open>size_t\<close> as an \<open>unsigned int\<close>.\<close>

definition flag_size :: "CFlagCollection \<Rightarrow> nat" where
  "flag_size L = u32 (length L)"

definition flag_clear :: "CFlagCollection \<Rightarrow> CFlagCollection" where
  "flag_clear L = []"

interpretation flags: registry "\<lambda>L. L" "\<lambda>k f. fgFlag f = k" flag_get flag_add
  by unfold_locales (simp_all add: flag_get_def flag_add_def)

section \<open>What the constructors give\<close>

lemma new_MErrorResponse_returns: "\<exists>r. new_MErrorResponse c msg = Some r"
  by (simp add: new_MErrorResponse_def replaceAll_single)

lemma getCookie_none_iff:
  assumes "\<forall>c \<in> set (rqCookies rq). \<not> ckNone c"
  shows "ckNone (getCookie rq name) \<longleftrightarrow> (\<forall>c \<in> set (rqCookies rq). ckName c \<noteq> name)"
proof (cases "find (\<lambda>c. ckName c = name) (rqCookies rq)")
  case None
  have "\<forall>c \<in> set (rqCookies rq). ckName c \<noteq> name" using None by (auto simp: find_None_iff)
  then show ?thesis unfolding getCookie_def None by (simp add: MCookie_none_def)
next
  case (Some c)
  then have "c \<in> set (rqCookies rq) \<and> ckName c = name" by (rule find_SomeD)
  with Some assms show ?thesis by (auto simp: getCookie_def)
qed

end
