(* ===== verification/Net_Socket.thy ===== *)
theory Net_Socket
  imports Messages
begin

text \<open>
  The socket layer: \<open>CNetHandlerSocket\<close> of \<open>src/handlers/CNetHandler.h\<close> and
  \<open>CNetHandler_linux.cpp\<close>. The kernel and OpenSSL are not code of the repository. What they do
  to a connection is an argument of the model, a \<open>channel\<close>: the data that successive
  \<open>recv\<close>/\<open>SSL_read\<close> calls find (\<open>rx\<close>, one segment per call, cut to the length asked for),
  the result once the data is used up (\<open>rx_end\<close>, 0 or -1), and how much each
  \<open>send\<close>/\<open>SSL_write\<close> accepts (\<open>tx_script\<close>; -1 is an error, and past the end of the script
  everything is accepted). Every behaviour those calls document is such an argument, so a
  theorem for all channels holds for every network. \<open>tx\<close> collects the bytes that left.
\<close>

section \<open>The environment's side of a connection\<close>

record channel =
  rx :: "string list"
  rx_end :: int
  tx :: string
  tx_script :: "int list"

fun skip_empty :: "string list \<Rightarrow> string list" where
  "skip_empty [] = []"
| "skip_empty (s # ss) = (if s = [] then skip_empty ss else s # ss)"

definition chan_recv :: "nat \<Rightarrow> channel \<Rightarrow> (int \<times> string) \<times> channel" where
  "chan_recv n c =
    (case skip_empty (rx c) of
       [] \<Rightarrow> ((rx_end c, []), c\<lparr>rx := []\<rparr>)
     | s # ss \<Rightarrow>
         ((int (length (take n s)), take n s),
          c\<lparr>rx := (if length s \<le> n then ss else drop n s # ss)\<rparr>))"

definition chan_send :: "string \<Rightarrow> int \<Rightarrow> channel \<Rightarrow> int \<times> channel" where
  "chan_send buf len c =
    (if len < 0 then (-1, c)
     else let d = take (nat len) buf in
       case tx_script c of
         [] \<Rightarrow> (int (length d), c\<lparr>tx := tx c @ d\<rparr>)
       | k # ks \<Rightarrow>
           (if k < 0 then (-1, c\<lparr>tx_script := ks\<rparr>)
            else (int (length (take (nat k) d)), c\<lparr>tx := tx c @ take (nat k) d, tx_script := ks\<rparr>)))"

text \<open>The bytes still to come, and the condition that the end of the data is no data.\<close>

definition pending :: "channel \<Rightarrow> string" where
  "pending c = concat (rx c)"

definition chan_ok :: "channel \<Rightarrow> bool" where
  "chan_ok c \<longleftrightarrow> rx_end c \<le> 0"

lemma skip_empty_concat: "concat (skip_empty ss) = concat ss"
  by (induction ss) auto

lemma skip_empty_Nil: "skip_empty ss = [] \<longleftrightarrow> concat ss = []"
  by (induction ss) auto

lemma skip_empty_hd: "skip_empty ss = s # ts \<Longrightarrow> s \<noteq> []"
  by (induction ss) (auto split: if_splits)

lemma chan_recv_Nil:
  "pending c = [] \<Longrightarrow> chan_recv n c = ((rx_end c, []), c\<lparr>rx := []\<rparr>)"
  using skip_empty_Nil [of "rx c"] by (simp only: chan_recv_def pending_def) simp

lemma chan_recv_data:
  assumes "pending c \<noteq> []" "0 < n"
  shows "\<exists>d c'. chan_recv n c = ((int (length d), d), c') \<and> d \<noteq> [] \<and> length d \<le> n \<and>
    pending c = d @ pending c' \<and> c' = c\<lparr>rx := rx c'\<rparr>"
proof (cases "skip_empty (rx c)")
  case Nil
  with assms show ?thesis by (simp add: pending_def skip_empty_Nil)
next
  case (Cons s ss)
  then have s: "s \<noteq> []" by (rule skip_empty_hd)
  have p: "pending c = s @ concat ss"
    using Cons skip_empty_concat [of "rx c"] by (simp add: pending_def)
  show ?thesis
    by (rule exI [of _ "take n s"],
        rule exI [of _ "c\<lparr>rx := (if length s \<le> n then ss else drop n s # ss)\<rparr>"])
      (use Cons s p assms in \<open>auto simp: chan_recv_def pending_def\<close>)
qed

section \<open>The socket object\<close>

record IPAddressItem =
  ipAddr :: string
  ipFrom :: string
  ipTo :: string

definition IPAddressItem_single :: "string \<Rightarrow> IPAddressItem" where
  "IPAddressItem_single addr = \<lparr>ipAddr = addr, ipFrom = [], ipTo = []\<rparr>"

definition IPAddressItem_range :: "string \<Rightarrow> string \<Rightarrow> IPAddressItem" where
  "IPAddressItem_range from to = \<lparr>ipAddr = [], ipFrom = from, ipTo = to\<rparr>"

text \<open>
  The fields of \<open>CNetHandlerSocket\<close> that its own code reads, and the two channels under it:
  the descriptor's and the TLS session's. \<open>Closed\<close> counts \<open>close()\<close> calls on the descriptor.
\<close>

record sock =
  SID :: int
  Ready :: bool
  SSLEnabled :: bool
  SSLMutual :: bool
  ThrowExceptions :: bool
  Timeout :: int
  ClientIPAddr :: string
  Blacklist :: "IPAddressItem list"
  Whitelist :: "IPAddressItem list"
  SNIHostName :: string
  raw :: channel
  tls :: channel
  Closed :: nat

text \<open>
  The constructor. \<open>new_fd\<close> is what \<open>socket(2)\<close> returned, used only when no descriptor is
  passed in; the code compares it with \<open>INVALID_SOCKET\<close>, which its header defines as 0.
  \<open>Ready\<close> is assigned on that path only.
\<close>

definition new_sock :: "int \<Rightarrow> bool \<Rightarrow> int \<Rightarrow> bool \<Rightarrow> bool \<Rightarrow> string \<Rightarrow> channel \<Rightarrow> channel \<Rightarrow> sock" where
  "new_sock new_fd ready0 sid ssl sslMutual ipaddr r t =
    \<lparr>SID = (if sid = 0 then new_fd else sid),
     Ready = (if sid = 0 then new_fd \<noteq> 0 else ready0),
     SSLEnabled = ssl, SSLMutual = sslMutual, ThrowExceptions = False, Timeout = 0,
     ClientIPAddr = ipaddr, Blacklist = [], Whitelist = [], SNIHostName = [],
     raw = r, tls = t, Closed = 0\<rparr>"

definition setThrowExceptions :: "bool \<Rightarrow> sock \<Rightarrow> sock" where
  "setThrowExceptions enabled s = s\<lparr>ThrowExceptions := enabled\<rparr>"

definition setTimeout :: "int \<Rightarrow> sock \<Rightarrow> sock" where
  "setTimeout timeout s = s\<lparr>Timeout := timeout\<rparr>"

definition sock_close :: "sock \<Rightarrow> sock" where
  "sock_close s = s\<lparr>Closed := Suc (Closed s)\<rparr>"

text \<open>\<open>readBuffer\<close>: the result code and the bytes put at the front of the caller's buffer.\<close>

definition readBuffer :: "nat \<Rightarrow> (sock, int \<times> string) act" where
  "readBuffer len s =
    (let ((r, d), s') =
       (if SSLEnabled s
        then (let (rd, c) = chan_recv len (tls s) in (rd, s\<lparr>tls := c\<rparr>))
        else (let (rd, c) = chan_recv len (raw s) in (rd, s\<lparr>raw := c\<rparr>)))
     in if ThrowExceptions s \<and> r < 1 then (Inl (ThrowInt r), s') else (Inr (r, d), s'))"

definition writeBuffer :: "string \<Rightarrow> int \<Rightarrow> (sock, bool) act" where
  "writeBuffer buf len s =
    (let (r, s') =
       (if SSLEnabled s
        then (let (r, c) = chan_send buf len (tls s) in (r, s\<lparr>tls := c\<rparr>))
        else (let (r, c) = chan_send buf len (raw s) in (r, s\<lparr>raw := c\<rparr>)))
     in if ThrowExceptions s \<and> r < 1 then (Inl (ThrowInt r), s') else (Inr (0 \<le> r), s'))"

text \<open>The channel in use, and replacing it.\<close>

definition chan :: "sock \<Rightarrow> channel" where
  "chan s = (if SSLEnabled s then tls s else raw s)"

definition set_chan :: "channel \<Rightarrow> sock \<Rightarrow> sock" where
  "set_chan c s = (if SSLEnabled s then s\<lparr>tls := c\<rparr> else s\<lparr>raw := c\<rparr>)"

lemma chan_set_chan [simp]: "chan (set_chan c s) = c"
  by (simp add: chan_def set_chan_def)

lemma set_chan_chan [simp]: "set_chan (chan s) s = s"
  by (simp add: chan_def set_chan_def)

lemma set_chan_set_chan [simp]: "set_chan c (set_chan d s) = set_chan c s"
  by (simp add: set_chan_def)

lemma set_chan_fields [simp]:
  "SSLEnabled (set_chan c s) = SSLEnabled s"
  "ThrowExceptions (set_chan c s) = ThrowExceptions s"
  "Closed (set_chan c s) = Closed s"
  by (simp_all add: set_chan_def)

lemma readBuffer_chan:
  "readBuffer n s =
    (let ((r, d), c) = chan_recv n (chan s) in
     if ThrowExceptions s \<and> r < 1 then (Inl (ThrowInt r), set_chan c s)
     else (Inr (r, d), set_chan c s))"
  by (simp add: readBuffer_def chan_def set_chan_def split: prod.split)

lemma writeBuffer_chan:
  "writeBuffer buf len s =
    (let (r, c) = chan_send buf len (chan s) in
     if ThrowExceptions s \<and> r < 1 then (Inl (ThrowInt r), set_chan c s)
     else (Inr (0 \<le> r), set_chan c s))"
  by (simp add: writeBuffer_def chan_def set_chan_def split: prod.split)

section \<open>Address filters\<close>

text \<open>
  \<open>np\<close> is an \<open>unsigned int\<close>, so the comparison with \<open>npos\<close> never succeeds; \<open>from.substr\<close>
  and \<open>to.substr\<close> are evaluated before the bounds are compared, in the order of the code.
\<close>

definition isAddrInRange :: "string \<Rightarrow> string \<Rightarrow> string \<Rightarrow> bool res" where
  "isAddrInRange addr from to =
    (let np = u32 (as_size (find_last_ch (CHR ''.'') from)) in
     if np = npos then Inr False
     else let prefix = take np from in
     if length to < np then Inr False
     else let addrPrefix = take np addr in
     if prefix \<noteq> addrPrefix then Inr False
     else
       bind_res (substr_from from (u32 (np + 1))) (\<lambda>f.
       bind_res (substr_from to (u32 (np + 1))) (\<lambda>t.
       bind_res (substr_from addr (u32 (np + 1))) (\<lambda>a.
         let fromi = i16 (atoi f); toi = i16 (atoi t); isi = i16 (atoi a)
         in Inr (isi \<le> toi \<and> fromi \<le> isi)))))"

fun in_list :: "string \<Rightarrow> IPAddressItem list \<Rightarrow> bool res" where
  "in_list addr [] = Inr False"
| "in_list addr (it # its) =
    (if ipAddr it = addr then Inr True
     else bind_res (isAddrInRange addr (ipFrom it) (ipTo it))
       (\<lambda>b. if b then Inr True else in_list addr its))"

definition isBlacklisted :: "sock \<Rightarrow> string \<Rightarrow> bool res" where
  "isBlacklisted s addr = in_list addr (Blacklist s)"

definition isWhitelisted :: "sock \<Rightarrow> string \<Rightarrow> bool res" where
  "isWhitelisted s addr = in_list addr (Whitelist s)"

definition addBlacklist :: "IPAddressItem \<Rightarrow> sock \<Rightarrow> sock" where
  "addBlacklist it s = s\<lparr>Blacklist := Blacklist s @ [it]\<rparr>"

definition addWhitelist :: "IPAddressItem \<Rightarrow> sock \<Rightarrow> sock" where
  "addWhitelist it s = s\<lparr>Whitelist := Whitelist s @ [it]\<rparr>"

text \<open>\<open>Blacklist.empty()\<close> asks whether the vector is empty; it does not clear it.\<close>

definition clearBlacklist :: "sock \<Rightarrow> sock" where
  "clearBlacklist s = (let _ = (Blacklist s = []) in s)"

definition clearWhitelist :: "sock \<Rightarrow> sock" where
  "clearWhitelist s = (let _ = (Whitelist s = []) in s)"

text \<open>
  \<open>accept()\<close>: \<open>sids\<close> are the results of the successive \<open>::accept\<close> calls (the loop repeats while
  the result is -1), \<open>ipaddr\<close> the peer's printed address, \<open>r\<close> and \<open>t\<close> the new connection's
  channels. A filtered peer is closed and \<open>accept\<close> returns the null pointer. \<open>ready0\<close> is the
  \<open>Ready\<close> member the constructor leaves unassigned on this path, \<open>new_fd\<close> as for \<open>new_sock\<close>.
\<close>

definition sock_accept ::
  "int list \<Rightarrow> string \<Rightarrow> channel \<Rightarrow> channel \<Rightarrow> int \<Rightarrow> bool \<Rightarrow> sock \<Rightarrow> sock option res" where
  "sock_accept sids ipaddr r t new_fd ready0 s =
    (case dropWhile (\<lambda>i. i = -1) sids of
       [] \<Rightarrow> Inl Diverges
     | sid # _ \<Rightarrow>
         bind_res (isWhitelisted s ipaddr) (\<lambda>w.
         bind_res (if w then Inr False else isBlacklisted s ipaddr) (\<lambda>b.
           if \<not> w \<and> b then Inr None
           else Inr (Some
             (let c = new_sock new_fd ready0 sid (SSLEnabled s) (SSLMutual s) ipaddr r t
              in if SSLEnabled s then c\<lparr>SNIHostName := SNIHostName s\<rparr> else c)))))"

section \<open>What a read and a write do\<close>

lemma read1_data:
  assumes "ThrowExceptions s" "pending (chan s) = b # bs"
  shows "\<exists>c. readBuffer 1 s = (Inr (1, [b]), set_chan c s) \<and> pending c = bs \<and>
    c = (chan s)\<lparr>rx := rx c\<rparr>"
proof -
  obtain d c where r: "chan_recv 1 (chan s) = ((int (length d), d), c)" "d \<noteq> []" "length d \<le> 1"
      "b # bs = d @ pending c" "c = (chan s)\<lparr>rx := rx c\<rparr>"
    using chan_recv_data [of "chan s" 1] assms(2) by auto
  then have "d = [b]" by (cases d) auto
  with r show ?thesis by (intro exI [of _ c]) (auto simp: readBuffer_chan)
qed

lemma read_data:
  assumes "ThrowExceptions s" "pending (chan s) \<noteq> []" "0 < n"
  shows "\<exists>d c. readBuffer n s = (Inr (int (length d), d), set_chan c s) \<and> d \<noteq> [] \<and> length d \<le> n \<and>
    pending (chan s) = d @ pending c \<and> c = (chan s)\<lparr>rx := rx c\<rparr>"
proof -
  obtain d c where r: "chan_recv n (chan s) = ((int (length d), d), c)" "d \<noteq> []" "length d \<le> n"
      "pending (chan s) = d @ pending c" "c = (chan s)\<lparr>rx := rx c\<rparr>"
    using chan_recv_data [OF assms(2,3)] by blast
  then have "\<not> int (length d) < 1" by (cases d) auto
  with r show ?thesis by (intro exI [of _ d] exI [of _ c]) (auto simp: readBuffer_chan)
qed

lemma read_end:
  assumes "ThrowExceptions s" "chan_ok (chan s)" "pending (chan s) = []"
  shows "readBuffer n s = (Inl (ThrowInt (rx_end (chan s))), set_chan ((chan s)\<lparr>rx := []\<rparr>) s)"
  using assms by (simp add: readBuffer_chan chan_recv_Nil chan_ok_def)

text \<open>A connection that accepts whatever is sent.\<close>

definition chan_free :: "channel \<Rightarrow> bool" where
  "chan_free c \<longleftrightarrow> tx_script c = []"

lemma write_free:
  assumes "ThrowExceptions s" "chan_free (chan s)" "length buf < 2147483648"
  shows "writeBuffer buf (i32 (int (length buf))) s =
    (if buf = [] then (Inl (ThrowInt 0), s)
     else (Inr True, set_chan ((chan s)\<lparr>tx := tx (chan s) @ buf\<rparr>) s))"
proof (cases "buf = []")
  case True
  with assms show ?thesis by (simp add: writeBuffer_chan chan_send_def chan_free_def)
next
  case False
  then have "\<not> int (length buf) < 1" by (cases buf) auto
  with False assms show ?thesis by (simp add: writeBuffer_chan chan_send_def chan_free_def)
qed

section \<open>Address ranges\<close>

lemma addr_cut:
  assumes "length p < 4294967295"
  shows "u32 (as_size (find_last_ch (CHR ''.'') (p @ CHR ''.'' # dec_of_nat a))) = length p"
    and "u32 (length p + 1) = length p + 1"
  using assms by (simp_all add: str_simps)

lemma i16_atoi_dec: "n < 32768 \<Longrightarrow> i16 (atoi (dec_of_nat n)) = int n"
  by simp

lemma isAddrInRange_octets:
  assumes "length p < 4294967295" "length q = length p" "a < 32768" "b < 32768" "c < 32768"
  shows "isAddrInRange (p @ CHR ''.'' # dec_of_nat c) (p @ CHR ''.'' # dec_of_nat a)
      (q @ CHR ''.'' # dec_of_nat b) = Inr (a \<le> c \<and> c \<le> b)"
  unfolding isAddrInRange_def Let_def addr_cut(1) [OF assms(1)] addr_cut(2) [OF assms(1)]
  using assms by (auto simp: substr_from_def npos_value)

lemma isAddrInRange_other_prefix:
  assumes "length p < 4294967295" "length p \<le> length to" "take (length p) addr \<noteq> p"
  shows "isAddrInRange addr (p @ CHR ''.'' # dec_of_nat a) to = Inr False"
  unfolding isAddrInRange_def Let_def addr_cut(1) [OF assms(1)] addr_cut(2) [OF assms(1)]
  using assms by auto

lemma isAddrInRange_single:
  "length addr < 4294967295 \<Longrightarrow> isAddrInRange addr [] [] = Inr False"
  by (simp add: isAddrInRange_def)

lemma in_list_total:
  "(\<And>it. it \<in> set its \<Longrightarrow> \<exists>b. isAddrInRange addr (ipFrom it) (ipTo it) = Inr b) \<Longrightarrow>
   in_list addr its =
     Inr (\<exists>it \<in> set its. ipAddr it = addr \<or> isAddrInRange addr (ipFrom it) (ipTo it) = Inr True)"
proof (induction its)
  case (Cons it its)
  obtain b where "isAddrInRange addr (ipFrom it) (ipTo it) = Inr b" using Cons.prems [of it] by auto
  with Cons show ?case by auto
qed simp

section \<open>What the filters decide\<close>

text \<open>For dotted addresses with the same prefix, \<open>isAddrInRange\<close> compares the last
  octets as numbers, both bounds included. The prefix of the upper bound is not looked at beyond
  its length: any \<open>q\<close> as long as \<open>p\<close> gives the same answer.\<close>
theorem isAddrInRange_last_octet:
  assumes "length p < 4294967295" "length q = length p"
    and "a < 32768" "b < 32768" "c < 32768"
  shows "isAddrInRange (p @ CHR ''.'' # dec_of_nat c) (p @ CHR ''.'' # dec_of_nat a)
      (q @ CHR ''.'' # dec_of_nat b) = Inr (a \<le> c \<and> c \<le> b)"
  using isAddrInRange_octets [OF assms] .

lemma isAddrInRange_last_octet_witness:
  "isAddrInRange (''10.0.0'' @ CHR ''.'' # dec_of_nat 7) (''10.0.0'' @ CHR ''.'' # dec_of_nat 1)
      (''192.16'' @ CHR ''.'' # dec_of_nat 9) = Inr True"
  using isAddrInRange_last_octet [of "''10.0.0''" "''192.16''" 1 9 7] by simp

text \<open>The two lists as sets of addresses, for lists whose ranges can be evaluated.\<close>

definition filters_total :: "string \<Rightarrow> sock \<Rightarrow> bool" where
  "filters_total addr s \<longleftrightarrow>
    list_all (\<lambda>it. \<not> isl (isAddrInRange addr (ipFrom it) (ipTo it))) (Whitelist s @ Blacklist s)"

definition listed :: "string \<Rightarrow> IPAddressItem list \<Rightarrow> bool" where
  "listed addr its \<longleftrightarrow>
    (\<exists>it \<in> set its. ipAddr it = addr \<or> isAddrInRange addr (ipFrom it) (ipTo it) = Inr True)"

lemma filters_total_lists:
  assumes "filters_total addr s"
  shows "isWhitelisted s addr = Inr (listed addr (Whitelist s))"
    and "isBlacklisted s addr = Inr (listed addr (Blacklist s))"
proof -
  have "\<exists>b. isAddrInRange addr (ipFrom it) (ipTo it) = Inr b"
    if "it \<in> set (Whitelist s @ Blacklist s)" for it
  proof -
    have "\<not> isl (isAddrInRange addr (ipFrom it) (ipTo it))"
      using assms that by (simp add: filters_total_def list_all_iff)
    then show ?thesis by (cases "isAddrInRange addr (ipFrom it) (ipTo it)") simp_all
  qed
  then show "isWhitelisted s addr = Inr (listed addr (Whitelist s))"
    and "isBlacklisted s addr = Inr (listed addr (Blacklist s))"
    unfolding isWhitelisted_def isBlacklisted_def listed_def by (auto intro!: in_list_total)
qed

text \<open>\<open>accept()\<close> gives a connection exactly to the peers that are on the
  whitelist or not on the blacklist; the connection has the peer's address, the listener's TLS
  setting and empty filters, and does not throw until \<open>CNode\<close> asks for it. A filtered peer
  yields the null pointer.\<close>
theorem accept_filters:
  assumes "filters_total ipaddr s" "dropWhile (\<lambda>i. i = -1) sids = sid # rest"
  shows "\<exists>r. sock_accept sids ipaddr r0 t0 new_fd ready0 s = Inr r \<and>
    ((r = None) = (\<not> listed ipaddr (Whitelist s) \<and> listed ipaddr (Blacklist s))) \<and>
    pred_option (\<lambda>c. ClientIPAddr c = ipaddr \<and> SSLEnabled c = SSLEnabled s \<and>
      \<not> ThrowExceptions c \<and> Blacklist c = [] \<and> Whitelist c = [] \<and> raw c = r0 \<and> tls c = t0) r"
  using assms by (simp add: sock_accept_def filters_total_lists new_sock_def Let_def)

definition idle_channel :: channel where
  "idle_channel = \<lparr>rx = [], rx_end = 0, tx = [], tx_script = []\<rparr>"

definition plain_sock :: "channel \<Rightarrow> sock" where
  "plain_sock c = new_sock 3 True 3 False False [] c idle_channel"

lemma accept_filters_witness:
  "\<exists>r. sock_accept [-1, 5] ''10.0.0.9'' idle_channel idle_channel 3 True
      (addBlacklist (IPAddressItem_single ''10.0.0.9'') (plain_sock idle_channel)) = Inr r \<and> r = None"
proof -
  let ?s = "addBlacklist (IPAddressItem_single ''10.0.0.9'') (plain_sock idle_channel)"
  have lists: "Whitelist ?s = []" "Blacklist ?s = [IPAddressItem_single ''10.0.0.9'']"
    by (simp_all add: addBlacklist_def plain_sock_def new_sock_def)
  have total: "filters_total ''10.0.0.9'' ?s"
    unfolding filters_total_def lists by (simp add: IPAddressItem_single_def isAddrInRange_single)
  have "listed ''10.0.0.9'' (Blacklist ?s)" "\<not> listed ''10.0.0.9'' (Whitelist ?s)"
    unfolding lists by (simp_all add: listed_def IPAddressItem_single_def)
  then show ?thesis
    using accept_filters [OF total, of "[-1, 5]" 5 "[]" idle_channel idle_channel 3 True] by simp
qed

end
