(* ===== verification/Http_Node_Facts.thy ===== *)
theory Http_Node_Facts
  imports Http_Node
begin

text \<open>
  What the connection's loops do. The header loop is shown to compute \<open>scan_header\<close>, a
  function of the bytes alone, so it does not depend on how the network cuts them into
  segments; the body loop is characterised for the data a well-behaved client sends; the
  cookie loop inverts the joining of \<open>name=value\<close> pairs; and a response is written as the
  concatenation of its pieces up to the first empty one.
\<close>

section \<open>Headers\<close>

lemma tolower_c_eq: "map tolower_c s = strtolower s"
  by (simp add: strtolower_def tolower_c_def less_eq_char_def)

interpretation headers: registry ndHeaders
  "\<lambda>name h. strtolower (Var h) = strtolower name" "\<lambda>name nd. getHeader nd name"
  "\<lambda>h nd. nd\<lparr>ndHeaders := ndHeaders nd @ [h]\<rparr>"
  by unfold_locales (simp_all add: getHeader_def tolower_c_eq strtolower_idem)

text \<open>The bytes of a header block: its lines' headers, and what follows the blank line.\<close>

fun scan_header :: "string \<Rightarrow> nat \<Rightarrow> string \<Rightarrow> CVarVal list \<times> string option" where
  "scan_header acc ex [] = ([], None)"
| "scan_header acc ex (b # bs) =
    (if b = CR \<or> b = NUL then scan_header acc ex bs
     else if b = LF then
       (if ex + 1 = 2 then ([header_of_line acc], Some bs)
        else let (hs, r) = scan_header [] (ex + 1) bs in (header_of_line acc # hs, r))
     else scan_header (acc @ [b]) 0 bs)"

text \<open>A node whose socket has read up to \<open>rest\<close>.\<close>

definition at_input :: "CNode \<Rightarrow> CVarVal list \<Rightarrow> string \<Rightarrow> CNode \<Rightarrow> bool" where
  "at_input nd hs rest nd' \<longleftrightarrow>
    (\<exists>c. pending c = rest \<and> c = (chan (ndSocket nd))\<lparr>rx := rx c\<rparr> \<and>
      nd' = nd\<lparr>ndHeaders := ndHeaders nd @ hs, ndSocket := set_chan c (ndSocket nd)\<rparr>)"

lemma at_input_step:
  assumes c: "c = (chan (ndSocket nd))\<lparr>rx := rx c\<rparr>"
    and r: "at_input (nd\<lparr>ndSocket := set_chan c (ndSocket nd), ndHeaders := ndHeaders nd @ hs\<rparr>) hs' rest nd'"
  shows "at_input nd (hs @ hs') rest nd'"
proof -
  from r obtain c' where c': "pending c' = rest" "c' = c\<lparr>rx := rx c'\<rparr>"
      "nd' = nd\<lparr>ndHeaders := ndHeaders nd @ hs @ hs', ndSocket := set_chan c' (ndSocket nd)\<rparr>"
    by (auto simp: at_input_def)
  have "c' = (chan (ndSocket nd))\<lparr>rx := rx c'\<rparr>"
    by (subst c'(2), subst c) simp
  with c' show ?thesis by (auto simp: at_input_def)
qed

lemma readHeader_loop_scan:
  assumes "ThrowExceptions (ndSocket nd)" "chan_ok (chan (ndSocket nd))"
    and "pending (chan (ndSocket nd)) = bs"
  shows "\<exists>nd'. readHeader_loop b0 acc ex nd =
      Some ((case snd (scan_header acc ex bs) of
               Some _ \<Rightarrow> Inr () | None \<Rightarrow> Inl (ThrowInt (rx_end (chan (ndSocket nd))))), nd') \<and>
    at_input nd (fst (scan_header acc ex bs))
      (case snd (scan_header acc ex bs) of Some rest \<Rightarrow> rest | None \<Rightarrow> []) nd'"
  using assms
proof (induction bs arbitrary: nd b0 acc ex)
  case Nil
  have "readHeader_loop b0 acc ex nd =
      Some (Inl (ThrowInt (rx_end (chan (ndSocket nd)))),
        nd\<lparr>ndSocket := set_chan ((chan (ndSocket nd))\<lparr>rx := []\<rparr>) (ndSocket nd)\<rparr>)"
    using Nil by (subst readHeader_loop.simps) (simp add: read_end)
  moreover have "at_input nd [] []
      (nd\<lparr>ndSocket := set_chan ((chan (ndSocket nd))\<lparr>rx := []\<rparr>) (ndSocket nd)\<rparr>)"
    unfolding at_input_def
    by (intro exI [of _ "(chan (ndSocket nd))\<lparr>rx := []\<rparr>"]) (simp add: pending_def)
  ultimately show ?case by simp
next
  case (Cons b bs)
  obtain c where c: "readBuffer 1 (ndSocket nd) = (Inr (1, [b]), set_chan c (ndSocket nd))"
      "pending c = bs" "c = (chan (ndSocket nd))\<lparr>rx := rx c\<rparr>"
    using read1_data [OF Cons.prems(1,3)] by blast
  note c1 = c(1) [unfolded One_nat_def]
  define nd1 where "nd1 hs = nd\<lparr>ndSocket := set_chan c (ndSocket nd), ndHeaders := ndHeaders nd @ hs\<rparr>"
    for hs
  have nd1_Nil: "nd\<lparr>ndSocket := set_chan c (ndSocket nd)\<rparr> = nd1 []" by (simp add: nd1_def)
  have ends: "rx_end c = rx_end (chan (ndSocket nd))" by (subst c(3)) simp
  have IH: "\<exists>nd'. readHeader_loop b' acc' ex' (nd1 hs) =
      Some ((case snd (scan_header acc' ex' bs) of
               Some _ \<Rightarrow> Inr () | None \<Rightarrow> Inl (ThrowInt (rx_end (chan (ndSocket nd))))), nd') \<and>
    at_input nd (hs @ fst (scan_header acc' ex' bs))
      (case snd (scan_header acc' ex' bs) of Some rest \<Rightarrow> rest | None \<Rightarrow> []) nd'"
    for b' acc' ex' hs
  proof -
    have "ThrowExceptions (ndSocket (nd1 hs))" "chan_ok (chan (ndSocket (nd1 hs)))"
      "pending (chan (ndSocket (nd1 hs))) = bs"
      using Cons.prems c ends by (simp_all add: nd1_def chan_ok_def)
    note step = Cons.IH [OF this, of b' acc' ex']
    have "rx_end (chan (ndSocket (nd1 hs))) = rx_end (chan (ndSocket nd))"
      by (simp add: nd1_def ends)
    moreover have "at_input (nd1 hs) hs' rest n \<Longrightarrow> at_input nd (hs @ hs') rest n" for hs' rest n
      using at_input_step [OF c(3)] by (simp add: nd1_def)
    ultimately show ?thesis using step by (simp only:) blast
  qed
  consider (skip) "b = CR \<or> b = NUL" | (line) "b = LF" | (char) "b \<noteq> CR" "b \<noteq> NUL" "b \<noteq> LF" by blast
  then show ?case
  proof cases
    case skip
    with IH [of b acc ex "[]"] show ?thesis
      by (subst readHeader_loop.simps) (simp add: c1 nd1_Nil Let_def)
  next
    case line
    show ?thesis
    proof (cases "ex + 1 = 2")
      case True
      have "at_input nd [header_of_line acc] bs (nd1 [header_of_line acc])"
        using c by (auto simp: at_input_def nd1_def intro!: exI [of _ c])
      with line True show ?thesis
        by (subst readHeader_loop.simps) (simp add: c1 nd1_def)
    next
      case False
      obtain hs r where hr: "scan_header [] (ex + 1) bs = (hs, r)" by fastforce
      have "readHeader_loop b0 acc ex nd = readHeader_loop b [] (ex + 1) (nd1 [header_of_line acc])"
        using line False by (subst readHeader_loop.simps) (simp add: c1 nd1_def)
      with IH [of b "[]" "ex + 1" "[header_of_line acc]"] line False hr show ?thesis by simp
    qed
  next
    case char
    with IH [of b "acc @ [b]" 0 "[]"] show ?thesis
      by (subst readHeader_loop.simps) (simp add: c1 nd1_Nil Let_def)
  qed
qed

section \<open>Header blocks\<close>

text \<open>A line as a peer sends it: no line break and no NUL inside.\<close>

definition clean_line :: "string \<Rightarrow> bool" where
  "clean_line l \<longleftrightarrow> CR \<notin> set l \<and> LF \<notin> set l \<and> NUL \<notin> set l"

lemma clean_line_append [simp]: "clean_line (a @ b) \<longleftrightarrow> clean_line a \<and> clean_line b"
  by (auto simp: clean_line_def)

lemma clean_line_Cons [simp]:
  "clean_line (c # l) \<longleftrightarrow> c \<noteq> CR \<and> c \<noteq> LF \<and> c \<noteq> NUL \<and> clean_line l"
  by (auto simp: clean_line_def)

lemma clean_line_Nil [simp]: "clean_line []"
  by (simp add: clean_line_def)

lemma scan_header_chars:
  "clean_line l \<Longrightarrow> scan_header acc ex (l @ bs) = scan_header (acc @ l) (if l = [] then ex else 0) bs"
proof (induction l arbitrary: acc ex)
  case (Cons c l)
  then show ?case using Cons.IH [of "acc @ [c]" 0] by (cases l) auto
qed simp

lemma scan_header_line:
  assumes "clean_line l" "l \<noteq> []"
  shows "scan_header [] ex (l @ CRLF @ bs) =
    (header_of_line l # fst (scan_header [] 1 bs), snd (scan_header [] 1 bs))"
  using assms by (simp add: scan_header_chars split: prod.split)

lemma scan_header_block:
  assumes "\<forall>l \<in> set ls. clean_line l \<and> l \<noteq> []" "ls \<noteq> [] \<or> ex = 1"
  shows "scan_header [] ex (concat (map (\<lambda>l. l @ CRLF) ls) @ CRLF @ rest) =
    (map header_of_line ls @ [header_of_line []], Some rest)"
  using assms
proof (induction ls arbitrary: ex)
  case (Cons l ls)
  then show ?case by (simp add: scan_header_chars)
qed simp

text \<open>The header block of a request whose request line has no colon.\<close>

definition request_line :: "string \<Rightarrow> string \<Rightarrow> string \<Rightarrow> string" where
  "request_line m target version = m @ SP # target @ SP # version"

lemma header_of_request_line:
  "CHR '':'' \<notin> set l \<Longrightarrow> header_of_line l = \<lparr>Var = l, Val = []\<rparr>"
  using find_ch_None [of "CHR '':''" l] by (simp add: header_of_line_def)

lemma header_of_field:
  "CHR '':'' \<notin> set name \<Longrightarrow>
   header_of_line (name @ CHR '':'' # val) = \<lparr>Var = strtolower name, Val = trim val\<rparr>"
  by (simp add: header_of_line_def str_simps tolower_c_eq)

lemma parse_request_line_plain:
  assumes "ndHeaders nd = \<lparr>Var = request_line m target v, Val = w\<rparr> # hs"
    and "SP \<notin> set m" "SP \<notin> set target"
  shows "parse_request_line nd =
    (Inr (),
     nd\<lparr>ndMethod := m, ndProtocolVersion := v,
       ndPath := (case find_ch (CHR ''?'') target of Some q \<Rightarrow> take q target | None \<Rightarrow> target),
       ndQueryString :=
         (case find_ch (CHR ''?'') target of Some q \<Rightarrow> drop (q + 1) target | None \<Rightarrow> ndQueryString nd)\<rparr>)"
  using assms
  by (simp add: parse_request_line_def request_line_def str_simps split: option.split)

text \<open>
  \<open>readHeader\<close> on a socket that holds a block of lines: it returns, and leaves the bytes after
  the blank line on the socket.
\<close>

lemma readHeader_block:
  assumes sock: "ThrowExceptions (ndSocket nd)" "chan_ok (chan (ndSocket nd))"
    and bytes: "pending (chan (ndSocket nd)) = concat (map (\<lambda>l. l @ CRLF) ls) @ CRLF @ rest"
    and lines: "\<forall>l \<in> set ls. clean_line l \<and> l \<noteq> []" "ls \<noteq> []"
  shows "\<exists>nd1. readHeader b0 nd = Some (parse_request_line nd1) \<and>
    at_input nd (map header_of_line ls @ [header_of_line []]) rest nd1"
  using readHeader_loop_scan [OF sock bytes, of b0 "[]" 0] scan_header_block [of ls 0 rest] lines
  by (auto simp: readHeader_def)

section \<open>Bodies\<close>

lemma chunk_pos: "0 < SOLUSEK_DEFAULT_CHUNK_SIZE"
  by (simp add: SOLUSEK_DEFAULT_CHUNK_SIZE_def)

text \<open>The state after a successful read of a chunk.\<close>

lemma readBody_loop_step:
  assumes "ThrowExceptions (ndSocket nd)" "n < len" "pending (chan (ndSocket nd)) \<noteq> []"
  shows "\<exists>d c. readBody_loop len n nd =
      readBody_loop len (n + word_of_nat (length d))
        (nd\<lparr>ndSocket := set_chan c (ndSocket nd), ndBody := ndBody nd @ cstr d\<rparr>) \<and>
    d \<noteq> [] \<and> length d \<le> SOLUSEK_DEFAULT_CHUNK_SIZE \<and>
    pending (chan (ndSocket nd)) = d @ pending c \<and> c = (chan (ndSocket nd))\<lparr>rx := rx c\<rparr>"
proof -
  obtain d c where r:
      "readBuffer SOLUSEK_DEFAULT_CHUNK_SIZE (ndSocket nd) = (Inr (int (length d), d), set_chan c (ndSocket nd))"
      "d \<noteq> []" "length d \<le> SOLUSEK_DEFAULT_CHUNK_SIZE"
      "pending (chan (ndSocket nd)) = d @ pending c" "c = (chan (ndSocket nd))\<lparr>rx := rx c\<rparr>"
    using read_data [OF assms(1,3) chunk_pos] by blast
  have "readBody_loop len n nd =
      readBody_loop len (n + word_of_nat (length d))
        (nd\<lparr>ndSocket := set_chan c (ndSocket nd), ndBody := ndBody nd @ cstr d\<rparr>)"
    using assms(2) r(1) by (subst readBody_loop.simps) simp
  with r show ?thesis by blast
qed

lemma readBody_loop_end:
  assumes "ThrowExceptions (ndSocket nd)" "chan_ok (chan (ndSocket nd))" "n < len"
    and "pending (chan (ndSocket nd)) = []"
  shows "readBody_loop len n nd =
    Some (Inl (ThrowInt (rx_end (chan (ndSocket nd)))),
      nd\<lparr>ndSocket := set_chan ((chan (ndSocket nd))\<lparr>rx := []\<rparr>) (ndSocket nd)\<rparr>)"
  using assms by (subst readBody_loop.simps) (simp add: read_end)

lemma rx_only_trans: "c = a\<lparr>rx := x\<rparr> \<Longrightarrow> d = c\<lparr>rx := y\<rparr> \<Longrightarrow> d = a\<lparr>rx := y\<rparr>" for a c d :: channel
  by simp

lemma readBody_loop_exact:
  assumes "ThrowExceptions (ndSocket nd)" "pending (chan (ndSocket nd)) = data"
    and "NUL \<notin> set data" "unat n + length data = unat len"
  shows "\<exists>c. readBody_loop len n nd =
      Some (Inr (), nd\<lparr>ndSocket := set_chan c (ndSocket nd), ndBody := ndBody nd @ data\<rparr>) \<and>
    pending c = [] \<and> c = (chan (ndSocket nd))\<lparr>rx := rx c\<rparr>"
  using assms
proof (induction data arbitrary: nd n rule: length_induct)
  case (1 data)
  show ?case
  proof (cases "data = []")
    case True
    with 1 have "\<not> n < len" by (simp add: word_less_nat_alt)
    with True 1 show ?thesis
      by (intro exI [of _ "chan (ndSocket nd)"]) (subst readBody_loop.simps, simp)
  next
    case False
    with 1 have lt: "n < len" by (cases data) (auto simp: word_less_nat_alt)
    obtain d c where d: "readBody_loop len n nd =
        readBody_loop len (n + word_of_nat (length d))
          (nd\<lparr>ndSocket := set_chan c (ndSocket nd), ndBody := ndBody nd @ cstr d\<rparr>)"
        "d \<noteq> []" "data = d @ pending c" "c = (chan (ndSocket nd))\<lparr>rx := rx c\<rparr>"
      using readBody_loop_step [OF "1.prems"(1) lt] "1.prems"(2) False by blast
    let ?nd = "nd\<lparr>ndSocket := set_chan c (ndSocket nd), ndBody := ndBody nd @ cstr d\<rparr>"
    have small: "unat n + length d < 2 ^ 32"
      using "1.prems"(4) d(3) unsigned_less [where w = len and 'a = nat] by simp
    then have "unat (n + word_of_nat (length d)) = unat n + length d"
      by (simp add: unat_word_ariths unat_of_nat)
    then have n': "unat (n + word_of_nat (length d)) + length (pending c) = unat len"
      using "1.prems"(4) d(3) by simp
    have shorter: "length (pending c) < length data" using d(2,3) by (cases d) auto
    obtain c' where c': "readBody_loop len (n + word_of_nat (length d)) ?nd =
        Some (Inr (), ?nd\<lparr>ndSocket := set_chan c' (ndSocket ?nd), ndBody := ndBody ?nd @ pending c\<rparr>)"
        "pending c' = []" "c' = (chan (ndSocket ?nd))\<lparr>rx := rx c'\<rparr>"
      using "1.IH" [rule_format, OF shorter, of ?nd "n + word_of_nat (length d)"] "1.prems"(1,3) n' d(3)
      by auto
    have "c' = (chan (ndSocket nd))\<lparr>rx := rx c'\<rparr>"
      by (rule rx_only_trans [OF d(4)], rule trans [OF c'(3)]) simp
    with c' d "1.prems"(3) show ?thesis by (intro exI [of _ c']) simp
  qed
qed

text \<open>On any network the loop ends: every read takes a byte away or throws.\<close>

lemma readBody_loop_returns:
  assumes "ThrowExceptions (ndSocket nd)" "chan_ok (chan (ndSocket nd))"
  shows "\<exists>r nd'. readBody_loop len n nd = Some (r, nd')"
  using assms
proof (induction "length (pending (chan (ndSocket nd)))" arbitrary: nd n rule: less_induct)
  case less
  consider (over) "\<not> n < len" | (empty) "n < len" "pending (chan (ndSocket nd)) = []"
    | (data) "n < len" "pending (chan (ndSocket nd)) \<noteq> []" by blast
  then show ?case
  proof cases
    case over
    then show ?thesis by (subst readBody_loop.simps) simp
  next
    case empty
    with less.prems show ?thesis by (simp add: readBody_loop_end)
  next
    case data
    obtain d c where d: "readBody_loop len n nd =
        readBody_loop len (n + word_of_nat (length d))
          (nd\<lparr>ndSocket := set_chan c (ndSocket nd), ndBody := ndBody nd @ cstr d\<rparr>)"
        "d \<noteq> []" "pending (chan (ndSocket nd)) = d @ pending c" "c = (chan (ndSocket nd))\<lparr>rx := rx c\<rparr>"
      using readBody_loop_step [OF less.prems(1) data] by blast
    have "rx_end c = rx_end (chan (ndSocket nd))" by (subst d(4)) simp
    then have "chan_ok c" using less.prems(2) by (simp add: chan_ok_def)
    moreover have "length (pending c) < length (pending (chan (ndSocket nd)))"
      using d(2,3) by (cases d) auto
    ultimately show ?thesis
      using less.hyps [of "nd\<lparr>ndSocket := set_chan c (ndSocket nd), ndBody := ndBody nd @ cstr d\<rparr>"]
        d(1) less.prems(1) by simp
  qed
qed

lemma readBody_loop_short:
  assumes "ThrowExceptions (ndSocket nd)" "chan_ok (chan (ndSocket nd))"
    and "unat n + length (pending (chan (ndSocket nd))) < unat len"
  shows "\<exists>nd'. readBody_loop len n nd = Some (Inl (ThrowInt (rx_end (chan (ndSocket nd)))), nd')"
  using assms
proof (induction "length (pending (chan (ndSocket nd)))" arbitrary: nd n rule: less_induct)
  case less
  have lt: "n < len" using less.prems(3) by (simp add: word_less_nat_alt)
  show ?case
  proof (cases "pending (chan (ndSocket nd)) = []")
    case True
    with less.prems lt show ?thesis by (simp add: readBody_loop_end)
  next
    case False
    obtain d c where d: "readBody_loop len n nd =
        readBody_loop len (n + word_of_nat (length d))
          (nd\<lparr>ndSocket := set_chan c (ndSocket nd), ndBody := ndBody nd @ cstr d\<rparr>)"
        "d \<noteq> []" "pending (chan (ndSocket nd)) = d @ pending c" "c = (chan (ndSocket nd))\<lparr>rx := rx c\<rparr>"
      using readBody_loop_step [OF less.prems(1) lt False] by blast
    have e: "rx_end c = rx_end (chan (ndSocket nd))" by (subst d(4)) simp
    have "unat n + length d < 2 ^ 32"
      using less.prems(3) d(3) unsigned_less [where w = len and 'a = nat] by simp
    then have "unat (n + word_of_nat (length d)) = unat n + length d"
      by (simp add: unat_word_ariths unat_of_nat)
    moreover have "length (pending c) < length (pending (chan (ndSocket nd)))"
      using d(2,3) by (cases d) auto
    ultimately show ?thesis
      using less.hyps [of "nd\<lparr>ndSocket := set_chan c (ndSocket nd), ndBody := ndBody nd @ cstr d\<rparr>"
          "n + word_of_nat (length d)"] d(1,3) e less.prems by (simp add: chan_ok_def)
  qed
qed

section \<open>Cookies\<close>

lemma add_cookie_pair:
  assumes "CHR ''='' \<notin> set n" "length n < 4294967295"
  shows "add_cookie (n @ CHR ''='' # v) rq =
    rq\<lparr>rqSID := (if n = ''SolusekSID'' then v else rqSID rq),
       rqCookies := rqCookies rq @ [new_MCookie n v]\<rparr>"
  using assms by (simp add: add_cookie_def str_simps Let_def npos_value)

lemma add_cookie_no_equals:
  assumes "CHR ''='' \<notin> set ck" "length ck < 4294967295"
  shows "add_cookie ck rq =
    rq\<lparr>rqSID := (if ck = ''SolusekSID'' then ck else rqSID rq),
       rqCookies := rqCookies rq @ [new_MCookie ck ck]\<rparr>"
proof -
  have "find_ch (CHR ''='') ck = None" using assms(1) by (simp add: find_ch_None)
  with assms(2) show ?thesis by (simp add: add_cookie_def Let_def)
qed

lemma cookie_loop_Nil [simp]: "cookie_loop [] rq = rq"
  by (simp add: cookie_loop.simps)

lemma cookie_loop_last:
  assumes "CHR '';'' \<notin> set ck" "ck \<noteq> []" "length ck < 4294967295"
  shows "cookie_loop ck rq = add_cookie (trim ck) rq"
proof -
  have "find_ch (CHR '';'') ck = None" using assms(1) by (simp add: find_ch_None)
  with assms(2,3) show ?thesis by (subst cookie_loop.simps) (simp add: Let_def)
qed

lemma cookie_loop_more:
  assumes "CHR '';'' \<notin> set ck" "length ck < 4294967295"
  shows "cookie_loop (ck @ CHR '';'' # rest) rq = cookie_loop rest (add_cookie (trim ck) rq)"
  using assms by (subst cookie_loop.simps) (simp add: str_simps npos_value)

text \<open>A pair that survives the wire: no separator inside, no white space at its ends.\<close>

definition cookie_pair :: "string \<times> string \<Rightarrow> string" where
  "cookie_pair nv = fst nv @ CHR ''='' # snd nv"

definition pair_ok :: "string \<times> string \<Rightarrow> bool" where
  "pair_ok nv \<longleftrightarrow>
    CHR ''='' \<notin> set (fst nv) \<and> CHR '';'' \<notin> set (cookie_pair nv) \<and>
    trim (cookie_pair nv) = cookie_pair nv \<and> length (cookie_pair nv) < 4294967294"

definition cookie_line :: "(string \<times> string) list \<Rightarrow> string" where
  "cookie_line nvs = join ''; '' (map cookie_pair nvs)"

definition with_cookies :: "(string \<times> string) list \<Rightarrow> MRequest \<Rightarrow> MRequest" where
  "with_cookies nvs rq = fold (\<lambda>nv. add_cookie (cookie_pair nv)) nvs rq"

lemma cookie_pair_nonempty [simp]: "cookie_pair nv \<noteq> []"
  by (simp add: cookie_pair_def)

lemma cookie_loop_space:
  assumes "nvs \<noteq> []" "\<forall>nv \<in> set nvs. pair_ok nv"
  shows "cookie_loop (sp @ cookie_line nvs) rq = with_cookies nvs rq \<or> sp \<notin> {[], [SP]}"
  using assms
proof (induction nvs arbitrary: sp rq)
  case (Cons nv nvs)
  have ok: "CHR '';'' \<notin> set (cookie_pair nv)" "trim (cookie_pair nv) = cookie_pair nv"
      "length (cookie_pair nv) < 4294967294"
    using Cons.prems(2) by (auto simp: pair_ok_def)
  show ?case
  proof (cases "sp \<in> {[], [SP]}")
    case True
    then have sp: "CHR '';'' \<notin> set (sp @ cookie_pair nv)" "length (sp @ cookie_pair nv) < 4294967295"
        "trim (sp @ cookie_pair nv) = cookie_pair nv"
      using ok by (auto simp: trim_space is_space_def)
    show ?thesis
    proof (cases nvs)
      case Nil
      with cookie_loop_last [OF sp(1) _ sp(2)] sp(3) show ?thesis
        by (simp add: cookie_line_def with_cookies_def)
    next
      case (Cons nv' nvs')
      then have "cookie_line (nv # nvs) = cookie_pair nv @ CHR '';'' # SP # cookie_line nvs"
        by (simp add: cookie_line_def)
      moreover have "cookie_loop ([SP] @ cookie_line nvs) r = with_cookies nvs r" for r
        using Cons.IH [of "[SP]" r] Cons.prems(2) \<open>nvs = nv' # nvs'\<close> by auto
      ultimately show ?thesis
        using cookie_loop_more [OF sp(1,2)] sp(3) by (simp add: with_cookies_def)
    qed
  qed simp
qed simp

lemma with_cookies_list:
  "\<forall>nv \<in> set nvs. pair_ok nv \<Longrightarrow>
   rqCookies (with_cookies nvs rq) = rqCookies rq @ map (\<lambda>nv. new_MCookie (fst nv) (snd nv)) nvs"
proof (induction nvs arbitrary: rq)
  case (Cons nv nvs)
  have "add_cookie (cookie_pair nv) rq =
      rq\<lparr>rqSID := (if fst nv = ''SolusekSID'' then snd nv else rqSID rq),
         rqCookies := rqCookies rq @ [new_MCookie (fst nv) (snd nv)]\<rparr>"
    unfolding cookie_pair_def using Cons.prems
    by (intro add_cookie_pair) (auto simp: pair_ok_def cookie_pair_def)
  with Cons show ?case by (simp add: with_cookies_def)
qed (simp add: with_cookies_def)

section \<open>Responses\<close>

text \<open>A node on a connection that accepts everything, as seen by the writer.\<close>

definition writer_ok :: "CNode \<Rightarrow> bool" where
  "writer_ok nd \<longleftrightarrow> ThrowExceptions (ndSocket nd) \<and> chan_free (chan (ndSocket nd))"

definition sent :: "string \<Rightarrow> CNode \<Rightarrow> CNode" where
  "sent s nd = nd\<lparr>ndSocket := set_chan ((chan (ndSocket nd))\<lparr>tx := tx (chan (ndSocket nd)) @ s\<rparr>) (ndSocket nd)\<rparr>"

lemma sent_Nil [simp]: "sent [] nd = nd"
  by (simp add: sent_def)

lemma sent_sent [simp]: "sent b (sent a nd) = sent (a @ b) nd"
  by (simp add: sent_def)

lemma writer_ok_sent [simp]: "writer_ok (sent s nd) = writer_ok nd"
  by (simp add: writer_ok_def sent_def chan_free_def)

lemma writeString_free:
  assumes "writer_ok nd" "length s < 2147483648"
  shows "writeString s nd = (if s = [] then (Inl (ThrowInt 0), nd) else (Inr (), sent s nd))"
  using assms write_free [of "ndSocket nd" s] by (simp add: writer_ok_def writeString_def sent_def)

text \<open>
  The pieces go out one by one; the first empty piece makes \<open>send\<close> return 0, which the socket
  layer turns into a \<open>throw\<close>.
\<close>

lemma run_writes:
  assumes "writer_ok nd" "\<forall>s \<in> set ss. length s < 2147483648"
  shows "run_acts (map writeString ss) nd =
    ((if [] \<in> set ss then Inl (ThrowInt 0) else Inr ()),
     sent (concat (takeWhile (\<lambda>s. s \<noteq> []) ss)) nd)"
  using assms
proof (induction ss arbitrary: nd)
  case (Cons s ss)
  then show ?case by (simp add: writeString_free)
qed simp

text \<open>What a response looks like on the wire when every piece is sent.\<close>

definition render :: "string \<Rightarrow> MResponse \<Rightarrow> string" where
  "render asctime_now r = concat (response_writes asctime_now r)"

definition pieces_small :: "string \<Rightarrow> MResponse \<Rightarrow> bool" where
  "pieces_small asctime_now r \<longleftrightarrow> (\<forall>s \<in> set (response_writes asctime_now r). length s < 2147483648)"

lemma getCodeDescription_nonempty [simp]: "getCodeDescription r \<noteq> []"
  by (simp add: getCodeDescription_def)

lemma dec_of_int_nonempty [simp]: "dec_of_int v \<noteq> []"
  by (simp add: dec_of_int_def)

lemma no_empty_piece:
  "[] \<notin> set (response_writes asctime_now r) \<longleftrightarrow>
    response_date asctime_now r \<noteq> [] \<and> rsContentType r \<noteq> [] \<and> rsBody r \<noteq> [] \<and>
    (\<forall>c \<in> set (rsCookies r). ckName c \<noteq> [] \<and> ckValue c \<noteq> [])"
  by (auto simp: response_writes_def Let_def sid_writes_def cookie_writes_def
      dest: sym [of "[]"])

section \<open>The contracts of the connection\<close>

text \<open>A node whose socket holds \<open>data\<close>, cut into segments in any way.\<close>

definition node_reading :: "string \<Rightarrow> CNode \<Rightarrow> bool" where
  "node_reading data nd \<longleftrightarrow>
    ThrowExceptions (ndSocket nd) \<and> chan_ok (chan (ndSocket nd)) \<and> pending (chan (ndSocket nd)) = data"

lemma at_input_reading:
  assumes "at_input nd hs rest nd'" "node_reading data nd"
  shows "node_reading rest nd'" "ndHeaders nd' = ndHeaders nd @ hs"
    "rx_end (chan (ndSocket nd')) = rx_end (chan (ndSocket nd))"
    "\<exists>x. chan (ndSocket nd') = (chan (ndSocket nd))\<lparr>rx := x\<rparr>"
proof -
  from assms(1) obtain c where c: "pending c = rest" "c = (chan (ndSocket nd))\<lparr>rx := rx c\<rparr>"
      "nd' = nd\<lparr>ndHeaders := ndHeaders nd @ hs, ndSocket := set_chan c (ndSocket nd)\<rparr>"
    by (auto simp: at_input_def)
  have e: "rx_end c = rx_end (chan (ndSocket nd))" by (subst c(2)) simp
  then show "rx_end (chan (ndSocket nd')) = rx_end (chan (ndSocket nd))" by (simp add: c(3))
  show "node_reading rest nd'"
    using assms(2) e c(1) by (simp add: node_reading_def chan_ok_def c(3))
  show "ndHeaders nd' = ndHeaders nd @ hs" by (simp add: c(3))
  have "chan (ndSocket nd') = c" by (simp add: c(3))
  with c(2) show "\<exists>x. chan (ndSocket nd') = (chan (ndSocket nd))\<lparr>rx := x\<rparr>" by metis
qed

text \<open>C36 (equivalence). The header loop computes a function of the bytes alone: however the
  network cuts them into segments, it appends the headers of \<open>scan_header\<close>, leaves what follows
  the blank line unread, and throws the socket's error exactly when there is no blank line.\<close>
theorem readHeader_loop_ignores_segments:
  assumes "node_reading data nd"
  shows "\<exists>nd'. readHeader_loop b0 [] 0 nd =
      Some (if snd (scan_header [] 0 data) = None
            then Inl (ThrowInt (rx_end (chan (ndSocket nd)))) else Inr (), nd') \<and>
    ndHeaders nd' = ndHeaders nd @ fst (scan_header [] 0 data) \<and>
    pending (chan (ndSocket nd')) = (case snd (scan_header [] 0 data) of Some rest \<Rightarrow> rest | None \<Rightarrow> [])"
proof -
  from assms have sock: "ThrowExceptions (ndSocket nd)" "chan_ok (chan (ndSocket nd))"
      "pending (chan (ndSocket nd)) = data"
    by (simp_all add: node_reading_def)
  obtain nd' where nd': "readHeader_loop b0 [] 0 nd =
      Some ((case snd (scan_header [] 0 data) of
               Some _ \<Rightarrow> Inr () | None \<Rightarrow> Inl (ThrowInt (rx_end (chan (ndSocket nd))))), nd')"
      "at_input nd (fst (scan_header [] 0 data))
        (case snd (scan_header [] 0 data) of Some rest \<Rightarrow> rest | None \<Rightarrow> []) nd'"
    using readHeader_loop_scan [OF sock, of b0 "[]" 0] by blast
  with at_input_reading [OF nd'(2) assms] show ?thesis
    by (intro exI [of _ nd']) (auto simp: node_reading_def split: option.split)
qed

definition sample_node :: "string list \<Rightarrow> CNode" where
  "sample_node segs = new_CNode 7 (plain_sock (idle_channel\<lparr>rx := segs\<rparr>))"

lemma sample_node_reading [simp]: "node_reading (concat segs) (sample_node segs)"
  by (simp add: node_reading_def sample_node_def new_CNode_def plain_sock_def new_sock_def
      setTimeout_def setThrowExceptions_def chan_def chan_ok_def idle_channel_def pending_def)

lemma readHeader_loop_ignores_segments_witness:
  "\<exists>nd'. readHeader_loop NUL [] 0 (sample_node [''G /'', '' V'' @ CRLF @ [CR], [LF]]) = Some (Inr (), nd') \<and>
    pending (chan (ndSocket nd')) = []"
proof -
  let ?segs = "[''G /'', '' V'' @ CRLF @ [CR], [LF]]"
  have "node_reading (concat ?segs) (sample_node ?segs)" by (rule sample_node_reading)
  moreover have "snd (scan_header [] 0 (concat ?segs)) = Some []" by simp
  ultimately show ?thesis
    using readHeader_loop_ignores_segments [of "concat ?segs" "sample_node ?segs" NUL] by auto
qed

text \<open>Header fields as they travel, and as the node stores them.\<close>

definition field_line :: "string \<times> string \<Rightarrow> string" where
  "field_line f = fst f @ CHR '':'' # snd f"

definition field_ok :: "string \<times> string \<Rightarrow> bool" where
  "field_ok f \<longleftrightarrow> CHR '':'' \<notin> set (fst f) \<and> clean_line (fst f) \<and> clean_line (snd f)"

definition stored_field :: "string \<times> string \<Rightarrow> CVarVal" where
  "stored_field f = \<lparr>Var = strtolower (fst f), Val = trim (snd f)\<rparr>"

definition request_ok :: "string \<Rightarrow> string \<Rightarrow> string \<Rightarrow> bool" where
  "request_ok m target v \<longleftrightarrow> SP \<notin> set m \<and> SP \<notin> set target \<and>
    CHR '':'' \<notin> set (request_line m target v) \<and> clean_line (request_line m target v)"

definition request_block :: "string \<Rightarrow> string \<Rightarrow> string \<Rightarrow> (string \<times> string) list \<Rightarrow> string" where
  "request_block m target v fs =
    concat (map (\<lambda>l. l @ CRLF) (request_line m target v # map field_line fs)) @ CRLF"

definition path_of :: "string \<Rightarrow> string" where
  "path_of target = (case find_ch (CHR ''?'') target of Some q \<Rightarrow> take q target | None \<Rightarrow> target)"

definition query_of :: "string \<Rightarrow> string" where
  "query_of target = (case find_ch (CHR ''?'') target of Some q \<Rightarrow> drop (q + 1) target | None \<Rightarrow> [])"

lemma stored_fields:
  "list_all field_ok fs \<Longrightarrow> map (\<lambda>f. header_of_line (field_line f)) fs = map stored_field fs"
  by (auto simp: list_all_iff field_ok_def field_line_def stored_field_def header_of_field)

lemma readHeader_request_facts:
  assumes "node_reading (request_block m target v fs @ rest) nd"
    and "request_ok m target v" "list_all field_ok fs" "ndHeaders nd = []" "ndQueryString nd = []"
  shows "\<exists>nd'. readHeader b0 nd = Some (Inr (), nd') \<and> node_reading rest nd' \<and>
    ndMethod nd' = m \<and> ndPath nd' = path_of target \<and> ndQueryString nd' = query_of target \<and>
    ndProtocolVersion nd' = v \<and> (\<exists>x. chan (ndSocket nd') = (chan (ndSocket nd))\<lparr>rx := x\<rparr>) \<and>
    ndHeaders nd' = \<lparr>Var = request_line m target v, Val = []\<rparr> # map stored_field fs @ [\<lparr>Var = [], Val = []\<rparr>]"
proof -
  let ?ls = "request_line m target v # map field_line fs"
  have lines: "\<forall>l \<in> set ?ls. clean_line l \<and> l \<noteq> []" "?ls \<noteq> []"
    using assms(2,3) by (auto simp: request_ok_def list_all_iff field_ok_def field_line_def request_line_def)
  obtain nd1 where nd1: "readHeader b0 nd = Some (parse_request_line nd1)"
      "at_input nd (map header_of_line ?ls @ [header_of_line []]) rest nd1"
    using readHeader_block [OF _ _ _ lines, of nd rest b0] assms(1)
    unfolding node_reading_def request_block_def append_assoc by blast
  note facts = at_input_reading [OF nd1(2) assms(1)]
  have h1: "header_of_line (request_line m target v) = \<lparr>Var = request_line m target v, Val = []\<rparr>"
    using assms(2) by (simp add: request_ok_def header_of_request_line)
  have hs: "ndHeaders nd1 = \<lparr>Var = request_line m target v, Val = []\<rparr> # map stored_field fs @ [\<lparr>Var = [], Val = []\<rparr>]"
    using facts(2) assms(4) h1 stored_fields [OF assms(3)] by (simp add: header_of_line_def comp_def)
  have "ndQueryString nd1 = []" using nd1(2) assms(5) by (auto simp: at_input_def)
  with parse_request_line_plain [OF hs] assms(2) nd1(1) facts hs show ?thesis
    by (auto simp: request_ok_def path_of_def query_of_def node_reading_def split: option.splits)
qed

text \<open>C15 (roundtrip). A request block - request line, header fields, blank line - is parsed back
  into its method, path, query string, version and fields (names in lower case, values
  trimmed), and the bytes after the blank line are left for \<open>readBody\<close>.\<close>
theorem readHeader_parses_request:
  assumes "node_reading (request_block m target v fs @ rest) nd"
    and "request_ok m target v" "list_all field_ok fs" "ndHeaders nd = []" "ndQueryString nd = []"
  shows "\<exists>nd'. readHeader b0 nd = Some (Inr (), nd') \<and> pending (chan (ndSocket nd')) = rest \<and>
    (ndMethod nd', ndPath nd', ndQueryString nd', ndProtocolVersion nd') =
      (m, path_of target, query_of target, v) \<and>
    ndHeaders nd' = \<lparr>Var = request_line m target v, Val = []\<rparr> # map stored_field fs @ [\<lparr>Var = [], Val = []\<rparr>]"
  using readHeader_request_facts [OF assms, of b0] by (auto simp: node_reading_def)

lemma sample_node_empty [simp]:
  "ndHeaders (sample_node segs) = []" "ndQueryString (sample_node segs) = []"
  by (simp_all add: sample_node_def new_CNode_def)

lemma readHeader_parses_request_witness:
  "\<exists>nd'. readHeader NUL (sample_node [request_block ''GET'' ''/a?x=1'' ''HTTP/1.1'' [(''Host'', '' h'')] @ ''B'']) =
      Some (Inr (), nd') \<and> ndPath nd' = ''/a'' \<and> ndQueryString nd' = ''x=1'' \<and>
    pending (chan (ndSocket nd')) = ''B''"
proof -
  let ?b = "request_block ''GET'' ''/a?x=1'' ''HTTP/1.1'' [(''Host'', '' h'')] @ ''B''"
  have "node_reading ?b (sample_node [?b])" using sample_node_reading [of "[?b]"] by simp
  moreover have "request_ok ''GET'' ''/a?x=1'' ''HTTP/1.1''" by (simp add: request_ok_def request_line_def)
  moreover have "list_all field_ok [(''Host'', '' h'')]" by (simp add: field_ok_def)
  ultimately show ?thesis
    using readHeader_parses_request [of "''GET''" "''/a?x=1''" "''HTTP/1.1''" "[(''Host'', '' h'')]" "''B''"
        "sample_node [?b]" NUL] by (auto simp: path_of_def query_of_def)
qed

text \<open>With an announced length, \<open>readBody\<close> takes exactly the body when the peer
  sends that many bytes (none of them NUL), in whatever segments, and throws the socket's error
  when the peer sends fewer.\<close>
theorem readBody_length:
  assumes "node_reading data nd" "getHeader nd ''content-length'' = Some h"
    and "atoi (Val h) = int n" "length data \<le> n" "NUL \<notin> set data"
  shows "\<exists>r nd'. readBody nd = Some (r, nd') \<and>
    r = (if length data = n then Inr () else Inl (ThrowInt (rx_end (chan (ndSocket nd))))) \<and>
    (length data \<noteq> n \<or> (ndBody nd' = data \<and> pending (chan (ndSocket nd')) = []))"
proof -
  let ?nd = "nd\<lparr>ndBody := []\<rparr>"
  have n: "n < 2147483648" using assms(3) atoi_range [of "Val h"] by simp
  have un: "unat (uint_of_int (int n)) = n"
    using n by (simp add: uint_of_int_def unat_of_nat)
  have "getHeader ?nd ''content-length'' = Some h" using assms(2) by (simp add: getHeader_def)
  then have rb: "readBody nd = readBody_loop (uint_of_int (int n)) 0 ?nd"
    using assms(3) by (simp add: readBody_def)
  have sock: "ThrowExceptions (ndSocket ?nd)" "chan_ok (chan (ndSocket ?nd))"
      "pending (chan (ndSocket ?nd)) = data"
    using assms(1) by (simp_all add: node_reading_def)
  show ?thesis
  proof (cases "length data = n")
    case True
    then have "unat (0 :: 32 word) + length data = unat (uint_of_int (int n))" using un by simp
    from readBody_loop_exact [OF sock(1,3) assms(5) this] True rb show ?thesis by auto
  next
    case False
    then have "unat (0 :: 32 word) + length (pending (chan (ndSocket ?nd))) < unat (uint_of_int (int n))"
      using un assms(4) sock(3) by simp
    from readBody_loop_short [OF sock(1,2) this] False rb show ?thesis by auto
  qed
qed

lemma readBody_length_witness:
  "\<exists>nd'. readBody ((sample_node [''ab'', ''c''])\<lparr>ndHeaders := [\<lparr>Var = ''content-length'', Val = dec_of_nat 3\<rparr>]\<rparr>) =
      Some (Inr (), nd') \<and> ndBody nd' = ''abc''"
proof -
  let ?nd = "(sample_node [''ab'', ''c''])\<lparr>ndHeaders := [\<lparr>Var = ''content-length'', Val = dec_of_nat 3\<rparr>]\<rparr>"
  have "node_reading ''abc'' ?nd"
    using sample_node_reading [of "[''ab'', ''c'']"] by (simp add: node_reading_def)
  moreover have "getHeader ?nd ''content-length'' = Some \<lparr>Var = ''content-length'', Val = dec_of_nat 3\<rparr>"
    by (simp add: getHeader_def strtolower_def tolower_c_def less_eq_char_def)
  ultimately show ?thesis
    using readBody_length [of "''abc''" ?nd "\<lparr>Var = ''content-length'', Val = dec_of_nat 3\<rparr>" 3] by auto
qed



text \<open>C33 (roundtrip). A \<open>Cookie\<close> header made by joining \<open>name=value\<close> pairs with \<open>"; "\<close> gives the
  request exactly these cookies, in order.\<close>
theorem cookie_header_roundtrip:
  assumes "list_all pair_ok nvs"
  shows "rqCookies (cookie_loop (cookie_line nvs) rq) =
    rqCookies rq @ map (\<lambda>nv. new_MCookie (fst nv) (snd nv)) nvs"
proof (cases nvs)
  case Nil
  then show ?thesis by (simp add: cookie_line_def)
next
  case (Cons nv nvs')
  have ok: "\<forall>nv \<in> set nvs. pair_ok nv" using assms by (simp add: list_all_iff)
  have "cookie_loop (cookie_line nvs) rq = with_cookies nvs rq"
    using cookie_loop_space [of nvs "[]" rq] ok Cons by simp
  with with_cookies_list [OF ok] show ?thesis by simp
qed

lemma cookie_header_roundtrip_witness:
  "rqCookies (cookie_loop ''a=1; SolusekSID=x=y'' (new_MRequest [])) =
    [new_MCookie ''a'' ''1'', new_MCookie ''SolusekSID'' ''x=y'']"
proof -
  have "list_all pair_ok [(''a'', ''1''), (''SolusekSID'', ''x=y'')]"
    by (simp add: pair_ok_def cookie_pair_def trim_id is_space_def)
  from cookie_header_roundtrip [OF this] show ?thesis
    by (simp add: cookie_line_def cookie_pair_def new_MRequest_def)
qed

text \<open>A cookie without \<open>=\<close>, which the test against \<open>npos\<close> is there to skip, is
  stored with its own text as both name and value: the position is kept in 32 bits and is
  never equal to the 64-bit \<open>npos\<close>.\<close>
theorem cookie_without_value_is_kept:
  assumes "CHR ''='' \<notin> set ck" "CHR '';'' \<notin> set ck" "ck \<noteq> []" "trim ck = ck" "length ck < 4294967295"
  shows "rqCookies (cookie_loop ck rq) = rqCookies rq @ [new_MCookie ck ck]"
  using assms cookie_loop_last [OF assms(2,3,5)] add_cookie_no_equals [OF assms(1,5)] by simp

lemma cookie_without_value_is_kept_witness:
  "rqCookies (cookie_loop ''flag'' (new_MRequest [])) = [new_MCookie ''flag'' ''flag'']"
  using cookie_without_value_is_kept [of "''flag''" "new_MRequest []"]
  by (simp add: trim_id is_space_def new_MRequest_def)

text \<open>C25 (error). On a connection that accepts everything, a response goes out in the order of
  \<open>writeResponse\<close> and completely, provided none of its pieces is empty; at the first empty piece
  (an empty body, content type, cookie name or value) \<open>writeString\<close> throws 0 and nothing after
  it is sent.\<close>
theorem writeResponse_output:
  assumes "writer_ok nd" "pieces_small dt r"
  shows "writeResponse dt r nd =
    ((if response_date dt r \<noteq> [] \<and> rsContentType r \<noteq> [] \<and> rsBody r \<noteq> [] \<and>
         list_all (\<lambda>c. ckName c \<noteq> [] \<and> ckValue c \<noteq> []) (rsCookies r)
      then Inr () else Inl (ThrowInt 0)),
     sent (concat (takeWhile (\<lambda>s. s \<noteq> []) (response_writes dt r))) nd)"
  using run_writes [OF assms(1), of "response_writes dt r"] assms(2) no_empty_piece [of dt r]
  by (auto simp: writeResponse_def pieces_small_def list_all_iff)

lemma writer_ok_sample [simp]: "writer_ok (sample_node segs)"
  by (simp add: writer_ok_def sample_node_def new_CNode_def plain_sock_def new_sock_def setTimeout_def
      setThrowExceptions_def chan_def chan_free_def idle_channel_def)

lemma writeResponse_output_witness:
  "fst (writeResponse (''now'' @ [LF]) (new_MResponse 200 ''{}'' []) (sample_node [])) = Inr () \<and>
   fst (writeResponse (''now'' @ [LF]) (new_MResponse 200 [] []) (sample_node [])) = Inl (ThrowInt 0)"
proof -
  have small: "pieces_small (''now'' @ [LF]) (new_MResponse 200 b [])" if "length b < 100" for b
    using that
    by (simp add: pieces_small_def response_writes_def new_MResponse_def response_date_def sid_writes_def
        getCodeDescription_def dec_of_int_def dec_of_nat.simps Let_def)
  show ?thesis
    using writeResponse_output [OF writer_ok_sample small, of "''{}''" "[]"]
      writeResponse_output [OF writer_ok_sample small, of "[]" "[]"]
    by (simp add: new_MResponse_def response_date_def)
qed

end
