(* ===== verification/Sessions.thy ===== *)
theory Sessions
  imports Messages
begin

text \<open>
  \<open>CSession\<close> (\<open>src/server/CSession.h\<close>, \<open>CSession.cpp\<close>): a session keeps pointers to
  heap-allocated \<open>CVarVal\<close> objects, and \<open>setStringValue\<close> and the destructor differ in what they
  do to a pointer that is stored twice. So the memory is explicit: \<open>live\<close> maps the address of
  each allocated \<open>CVarVal\<close> to its contents, and \<open>delete\<close> of an address that is not live is a
  fault. The identifier is printed from the clock and the file-static counter \<open>Incremental\<close>.
\<close>

section \<open>Memory\<close>

record memory =
  live :: "nat \<Rightarrow> CVarVal option"
  fresh :: nat

definition mem_ok :: "memory \<Rightarrow> bool" where
  "mem_ok m \<longleftrightarrow> (\<forall>p. live m p \<noteq> None \<longrightarrow> p < fresh m)"

definition new_CVarVal :: "CVarVal \<Rightarrow> memory \<Rightarrow> nat \<times> memory" where
  "new_CVarVal v m = (fresh m, m\<lparr>live := (live m)(fresh m := Some v), fresh := Suc (fresh m)\<rparr>)"

definition delete_CVarVal :: "nat \<Rightarrow> (memory, unit) act" where
  "delete_CVarVal p m =
    (case live m p of
       None \<Rightarrow> (Inl DoubleFree, m)
     | Some _ \<Rightarrow> (Inr (), m\<lparr>live := (live m)(p := None)\<rparr>))"

section \<open>The session\<close>

record CSession =
  sesID :: string
  Items :: "nat list"

text \<open>\<open>Incremental\<close> is an \<open>unsigned long\<close>; \<open>now\<close> is \<open>time(0)\<close>.\<close>

definition new_CSession :: "nat \<Rightarrow> nat \<Rightarrow> CSession \<times> nat" where
  "new_CSession now incremental =
    (let i = (if 4294967295 \<le> incremental then 0 else incremental)
     in (\<lparr>sesID = dec_of_nat now @ dec_of_nat i, Items = []\<rparr>, (i + 1) mod 2 ^ 64))"

fun find_item :: "string \<Rightarrow> nat list \<Rightarrow> memory \<Rightarrow> nat option res" where
  "find_item name [] m = Inr None"
| "find_item name (p # ps) m =
    (case live m p of
       None \<Rightarrow> Inl UseAfterFree
     | Some vv \<Rightarrow> (if Var vv = name then Inr (Some p) else find_item name ps m))"

definition ses_get :: "CSession \<Rightarrow> string \<Rightarrow> memory \<Rightarrow> nat option res" where
  "ses_get s name m = find_item name (Items s) m"

definition getStringValue :: "CSession \<Rightarrow> string \<Rightarrow> memory \<Rightarrow> string res" where
  "getStringValue s name m =
    bind_res (ses_get s name m) (\<lambda>r.
      case r of
        None \<Rightarrow> Inr []
      | Some p \<Rightarrow> (case live m p of None \<Rightarrow> Inl UseAfterFree | Some vv \<Rightarrow> Inr (Val vv)))"

text \<open>\<open>Items.push_back(vv)\<close> runs whether or not \<open>vv\<close> was found in \<open>Items\<close>.\<close>

definition setStringValue :: "string \<Rightarrow> string \<Rightarrow> CSession \<Rightarrow> memory \<Rightarrow> (CSession \<times> memory) res" where
  "setStringValue name value s m =
    bind_res (ses_get s name m) (\<lambda>r.
      let (vv, m1) = (case r of Some p \<Rightarrow> (p, m) | None \<Rightarrow> new_CVarVal \<lparr>Var = [], Val = []\<rparr> m)
      in Inr (s\<lparr>Items := Items s @ [vv]\<rparr>,
              m1\<lparr>live := (live m1)(vv := Some \<lparr>Var = name, Val = value\<rparr>)\<rparr>))"

text \<open>The destructor deletes every entry of \<open>Items\<close>.\<close>

definition delete_CSession :: "CSession \<Rightarrow> (memory, unit) act" where
  "delete_CSession s = run_acts (map delete_CVarVal (Items s))"

section \<open>What a session holds\<close>

definition item_name :: "memory \<Rightarrow> nat \<Rightarrow> string" where
  "item_name m p = Var (the (live m p))"

text \<open>
  The well-formedness that every operation keeps: all entries are allocated, and two entries
  with the same name are the same object.
\<close>

definition ses_wf :: "CSession \<Rightarrow> memory \<Rightarrow> bool" where
  "ses_wf s m \<longleftrightarrow> mem_ok m \<and> (\<forall>p \<in> set (Items s). live m p \<noteq> None) \<and> inj_on (item_name m) (set (Items s))"

lemma ses_wf_live: "ses_wf s m \<Longrightarrow> p \<in> set (Items s) \<Longrightarrow> \<exists>v. live m p = Some v"
  by (auto simp: ses_wf_def)

lemma ses_wf_inj:
  "ses_wf s m \<Longrightarrow> p \<in> set (Items s) \<Longrightarrow> q \<in> set (Items s) \<Longrightarrow> item_name m p = item_name m q \<Longrightarrow> p = q"
  by (auto simp: ses_wf_def inj_on_def)

lemma ses_wf_fresh: "ses_wf s m \<Longrightarrow> fresh m \<notin> set (Items s)"
  by (force simp: ses_wf_def mem_ok_def)

text \<open>The entry a name refers to, and the abstract view: a partial map from names to values.\<close>

definition ses_find :: "CSession \<Rightarrow> memory \<Rightarrow> string \<Rightarrow> nat option" where
  "ses_find s m name = find (\<lambda>p. item_name m p = name) (Items s)"

definition ses_abs :: "CSession \<Rightarrow> memory \<Rightarrow> string \<Rightarrow> string option" where
  "ses_abs s m name = map_option (\<lambda>p. Val (the (live m p))) (ses_find s m name)"

lemma ses_find_None: "ses_find s m name = None \<longleftrightarrow> (\<forall>p \<in> set (Items s). item_name m p \<noteq> name)"
  by (auto simp: ses_find_def find_None_iff)

lemma ses_find_SomeD: "ses_find s m name = Some p \<Longrightarrow> p \<in> set (Items s) \<and> item_name m p = name"
  unfolding ses_find_def by (rule find_SomeD)

lemma ses_find_Some:
  assumes wf: "ses_wf s m"
  shows "ses_find s m name = Some p \<longleftrightarrow> p \<in> set (Items s) \<and> item_name m p = name"
proof
  assume p: "p \<in> set (Items s) \<and> item_name m p = name"
  then have "ses_find s m name \<noteq> None" using ses_find_None by blast
  then obtain q where q: "ses_find s m name = Some q" by blast
  then have "q = p" using ses_find_SomeD [OF q] p ses_wf_inj [OF wf] by metis
  with q show "ses_find s m name = Some p" by simp
qed (rule ses_find_SomeD)

lemma find_item_find:
  "\<forall>p \<in> set ps. live m p \<noteq> None \<Longrightarrow>
   find_item name ps m = Inr (find (\<lambda>p. item_name m p = name) ps)"
  by (induction ps) (auto simp: item_name_def)

lemma ses_get_find: "ses_wf s m \<Longrightarrow> ses_get s name m = Inr (ses_find s m name)"
  by (simp add: ses_get_def ses_find_def find_item_find ses_wf_def)

lemma getStringValue_abs:
  assumes "ses_wf s m"
  shows "getStringValue s name m = Inr (case ses_abs s m name of None \<Rightarrow> [] | Some v \<Rightarrow> v)"
proof (cases "ses_find s m name")
  case None
  then show ?thesis by (simp add: getStringValue_def ses_get_find [OF assms] ses_abs_def)
next
  case (Some p)
  then obtain v where "live m p = Some v" using ses_find_Some [OF assms] ses_wf_live [OF assms] by blast
  with Some show ?thesis by (simp add: getStringValue_def ses_get_find [OF assms] ses_abs_def)
qed

text \<open>What \<open>setStringValue\<close> does: it never faults, and says which object it wrote.\<close>

definition write_item :: "nat \<Rightarrow> string \<Rightarrow> string \<Rightarrow> memory \<Rightarrow> memory" where
  "write_item p name v m =
    m\<lparr>live := (live m)(p := Some \<lparr>Var = name, Val = v\<rparr>), fresh := max (fresh m) (Suc p)\<rparr>"

lemma setStringValue_writes:
  assumes "ses_wf s m"
  obtains p where "setStringValue name v s m = Inr (s\<lparr>Items := Items s @ [p]\<rparr>, write_item p name v m)"
    and "ses_find s m name = Some p \<or> (ses_find s m name = None \<and> p = fresh m)"
proof (cases "ses_find s m name")
  case None
  then have "setStringValue name v s m = Inr (s\<lparr>Items := Items s @ [fresh m]\<rparr>, write_item (fresh m) name v m)"
    by (simp add: setStringValue_def ses_get_find [OF assms] new_CVarVal_def write_item_def max_def)
  with None that show ?thesis by blast
next
  case (Some p)
  then have "p < fresh m"
    using assms ses_find_Some [OF assms] by (auto simp: ses_wf_def mem_ok_def)
  then have "setStringValue name v s m = Inr (s\<lparr>Items := Items s @ [p]\<rparr>, write_item p name v m)"
    using Some by (simp add: setStringValue_def ses_get_find [OF assms] write_item_def max_def)
  with Some that show ?thesis by blast
qed

lemma item_name_write:
  "item_name (write_item p name v m) q = (if q = p then name else item_name m q)"
  by (simp add: item_name_def write_item_def)

lemma write_keeps_names:
  assumes "ses_wf s m" "ses_find s m name = Some p \<or> (ses_find s m name = None \<and> p = fresh m)"
    and "q \<in> set (Items s)"
  shows "item_name (write_item p name v m) q = item_name m q"
  using assms ses_find_Some [OF assms(1), of name p] ses_wf_fresh [OF assms(1)]
  by (auto simp: item_name_write)

lemma write_item_inj:
  assumes wf: "ses_wf s m"
    and p: "ses_find s m name = Some p \<or> (ses_find s m name = None \<and> p = fresh m)"
  shows "inj_on (item_name (write_item p name v m)) (set (Items s @ [p]))"
proof (rule inj_onI)
  fix q r assume q: "q \<in> set (Items s @ [p])" and r: "r \<in> set (Items s @ [p])"
    and eq: "item_name (write_item p name v m) q = item_name (write_item p name v m) r"
  have only: "q' = p" if "q' \<in> set (Items s)" "item_name m q' = name" for q'
    using p ses_find_Some [OF wf, of name p] ses_find_None [of s m name] ses_wf_inj [OF wf] that by metis
  show "q = r"
    using q r eq only ses_wf_inj [OF wf] by (auto simp: item_name_write split: if_splits)
qed

lemma setStringValue_wf:
  assumes wf: "ses_wf s m" and set: "setStringValue name v s m = Inr (s', m')"
  shows "ses_wf s' m'"
proof -
  obtain p where p: "setStringValue name v s m = Inr (s\<lparr>Items := Items s @ [p]\<rparr>, write_item p name v m)"
      "ses_find s m name = Some p \<or> (ses_find s m name = None \<and> p = fresh m)"
    by (rule setStringValue_writes [OF wf])
  have s': "Items s' = Items s @ [p]" "m' = write_item p name v m" using set p(1) by auto
  have "mem_ok m'" using wf s'(2) by (auto simp: ses_wf_def mem_ok_def write_item_def less_max_iff_disj)
  moreover have "\<forall>q \<in> set (Items s'). live m' q \<noteq> None"
    using wf s' by (auto simp: ses_wf_def write_item_def)
  ultimately show ?thesis
    using write_item_inj [OF wf p(2)] s' by (simp add: ses_wf_def)
qed

lemma setStringValue_abs:
  assumes wf: "ses_wf s m" and set: "setStringValue name v s m = Inr (s', m')"
  shows "ses_abs s' m' = (ses_abs s m)(name \<mapsto> v)"
proof
  fix k
  obtain p where p: "setStringValue name v s m = Inr (s\<lparr>Items := Items s @ [p]\<rparr>, write_item p name v m)"
      "ses_find s m name = Some p \<or> (ses_find s m name = None \<and> p = fresh m)"
    by (rule setStringValue_writes [OF wf])
  have s': "Items s' = Items s @ [p]" "m' = write_item p name v m" using set p(1) by auto
  note wf' = setStringValue_wf [OF wf set]
  note find' = ses_find_Some [OF wf']
  show "ses_abs s' m' k = ((ses_abs s m)(name \<mapsto> v)) k"
  proof (cases "k = name")
    case True
    then have "ses_find s' m' k = Some p" using find' s' by (simp add: item_name_write)
    with True s'(2) show ?thesis by (simp add: ses_abs_def write_item_def)
  next
    case False
    have "ses_find s' m' k = ses_find s m k"
    proof (cases "ses_find s m k")
      case None
      then have "\<forall>q \<in> set (Items s'). item_name m' q \<noteq> k"
        using False s' by (auto simp: ses_find_None item_name_write)
      then have "ses_find s' m' k = None" by (simp only: ses_find_None)
      with None show ?thesis by simp
    next
      case (Some q)
      then have "q \<in> set (Items s)" "item_name m q = k" using ses_find_Some [OF wf] by auto
      then have "ses_find s' m' k = Some q"
        using find' s' write_keeps_names [OF wf p(2)] by simp
      with Some show ?thesis by simp
    qed
    moreover have "live m' q = live m q" if "ses_find s m k = Some q" for q
    proof -
      have "q \<noteq> p"
        using that p(2) ses_find_Some [OF wf] ses_wf_fresh [OF wf] False by metis
      then show ?thesis using s'(2) by (simp add: write_item_def)
    qed
    ultimately show ?thesis
      using False by (cases "ses_find s m k") (auto simp: ses_abs_def)
  qed
qed

section \<open>Destroying a session\<close>

lemma delete_live:
  "live m p = Some v \<Longrightarrow> delete_CVarVal p m = (Inr (), m\<lparr>live := (live m)(p := None)\<rparr>)"
  by (simp add: delete_CVarVal_def)

lemma delete_dead: "live m p = None \<Longrightarrow> delete_CVarVal p m = (Inl DoubleFree, m)"
  by (simp add: delete_CVarVal_def)

lemma delete_run:
  assumes "\<forall>p \<in> set ps. live m p \<noteq> None" "distinct ps"
  shows "run_acts (map delete_CVarVal ps) m =
    (Inr (), m\<lparr>live := (\<lambda>q. if q \<in> set ps then None else live m q)\<rparr>)"
  using assms
proof (induction ps arbitrary: m)
  case (Cons p ps)
  then obtain v where v: "live m p = Some v" by auto
  let ?m = "m\<lparr>live := (live m)(p := None)\<rparr>"
  have "\<forall>q \<in> set ps. live ?m q \<noteq> None" using Cons.prems by auto
  from Cons.IH [OF this] Cons.prems(2)
  have "run_acts (map delete_CVarVal ps) ?m =
      (Inr (), ?m\<lparr>live := (\<lambda>q. if q \<in> set ps then None else live ?m q)\<rparr>)" by simp
  moreover have "(\<lambda>q. if q \<in> set ps then None else live ?m q) =
      (\<lambda>q. if q \<in> set (p # ps) then None else live m q)" by auto
  ultimately show ?case using v by (simp add: delete_live)
qed simp

lemma delete_items:
  assumes "\<forall>p \<in> set ps. live m p \<noteq> None"
  shows "fst (run_acts (map delete_CVarVal ps) m) = (if distinct ps then Inr () else Inl DoubleFree)"
  using assms
proof (induction ps rule: rev_induct)
  case (snoc p ps)
  show ?case
  proof (cases "distinct ps")
    case True
    have "run_acts (map delete_CVarVal ps) m =
        (Inr (), m\<lparr>live := (\<lambda>q. if q \<in> set ps then None else live m q)\<rparr>)"
      using delete_run [OF _ True] snoc.prems by simp
    then show ?thesis
      using True snoc.prems by (auto simp: run_acts_append delete_live delete_dead)
  next
    case False
    obtain r m1 where r: "run_acts (map delete_CVarVal ps) m = (r, m1)" by fastforce
    with False snoc have "r = Inl DoubleFree" by simp
    with r False show ?thesis by (simp add: run_acts_append)
  qed
qed simp

lemma delete_CSession_outcome:
  "ses_wf s m \<Longrightarrow>
   fst (delete_CSession s m) = (if distinct (Items s) then Inr () else Inl DoubleFree)"
  by (simp add: delete_CSession_def delete_items ses_wf_def)

text \<open>A sequence of \<open>setStringValue\<close> calls.\<close>

fun set_all :: "(string \<times> string) list \<Rightarrow> CSession \<Rightarrow> memory \<Rightarrow> (CSession \<times> memory) res" where
  "set_all [] s m = Inr (s, m)"
| "set_all ((n, v) # nvs) s m =
    bind_res (setStringValue n v s m) (\<lambda>(s', m'). set_all nvs s' m')"

text \<open>The names in \<open>Items\<close>, in order: one entry per call.\<close>

definition item_names :: "CSession \<Rightarrow> memory \<Rightarrow> string list" where
  "item_names s m = map (item_name m) (Items s)"

lemma setStringValue_names:
  assumes wf: "ses_wf s m" and set: "setStringValue name v s m = Inr (s', m')"
  shows "item_names s' m' = item_names s m @ [name]"
proof -
  obtain p where p: "setStringValue name v s m = Inr (s\<lparr>Items := Items s @ [p]\<rparr>, write_item p name v m)"
      "ses_find s m name = Some p \<or> (ses_find s m name = None \<and> p = fresh m)"
    by (rule setStringValue_writes [OF wf])
  then show ?thesis
    using set write_keeps_names [OF wf p(2)] by (auto simp: item_names_def item_name_write)
qed

lemma set_all_facts:
  "ses_wf s m \<Longrightarrow> \<exists>s' m'. set_all nvs s m = Inr (s', m') \<and> ses_wf s' m' \<and>
    item_names s' m' = item_names s m @ map fst nvs \<and>
    ses_abs s' m' = ses_abs s m ++ map_of (rev nvs)"
proof (induction nvs arbitrary: s m)
  case (Cons nv nvs)
  obtain n v where nv: "nv = (n, v)" by fastforce
  obtain s1 m1 where set: "setStringValue n v s m = Inr (s1, m1)"
    using setStringValue_writes [OF Cons.prems] by metis
  obtain s' m' where r: "set_all nvs s1 m1 = Inr (s', m')" "ses_wf s' m'"
      "item_names s' m' = item_names s1 m1 @ map fst nvs" "ses_abs s' m' = ses_abs s1 m1 ++ map_of (rev nvs)"
    using Cons.IH [OF setStringValue_wf [OF Cons.prems set]] by blast
  have "ses_abs s m ++ map_of (rev (nv # nvs)) = (ses_abs s m)(n \<mapsto> v) ++ map_of (rev nvs)"
    by (simp add: nv map_add_def fun_eq_iff split: option.split)
  with r set nv show ?case
    using setStringValue_names [OF Cons.prems set] setStringValue_abs [OF Cons.prems set] by simp
qed simp

lemma wf_distinct_names: "ses_wf s m \<Longrightarrow> distinct (Items s) \<longleftrightarrow> distinct (item_names s m)"
  by (simp add: item_names_def distinct_map ses_wf_def)

section \<open>Identifiers\<close>

text \<open>Two prints of the same length pair up digit by digit.\<close>

lemma session_id_inj:
  assumes "length (dec_of_nat t) = length (dec_of_nat u)"
    and "dec_of_nat t @ dec_of_nat i = dec_of_nat u @ dec_of_nat j"
  shows "t = u \<and> i = j"
  using assms by (simp add: append_eq_append_conv)

section \<open>The contract of a session\<close>

text \<open>C28 (refinement). A session refines a partial map from names to strings: any sequence of
  \<open>setStringValue\<close> calls on a well-formed session succeeds, keeps it well-formed and updates the
  map in order, and \<open>getStringValue\<close> then reads the map, with the empty string for a name that
  was never set.\<close>
theorem session_refines_map:
  assumes "ses_wf s m"
  shows "\<exists>s' m'. set_all nvs s m = Inr (s', m') \<and> ses_wf s' m' \<and>
    getStringValue s' name m' =
      Inr (case (ses_abs s m ++ map_of (rev nvs)) name of None \<Rightarrow> [] | Some v \<Rightarrow> v)"
  using set_all_facts [OF assms, of nvs] getStringValue_abs by metis

definition no_memory :: memory where
  "no_memory = \<lparr>live = (\<lambda>_. None), fresh = 0\<rparr>"

definition empty_session :: CSession where
  "empty_session = \<lparr>sesID = [], Items = []\<rparr>"

lemma empty_session_wf [simp]: "ses_wf empty_session no_memory"
  by (simp add: ses_wf_def mem_ok_def no_memory_def empty_session_def)

lemma empty_session_abs [simp]: "ses_abs empty_session no_memory = Map.empty"
  by (simp add: ses_abs_def ses_find_def empty_session_def fun_eq_iff)

lemma session_refines_map_witness:
  "\<exists>s' m'. set_all [(''u'', ''1''), (''u'', ''2'')] empty_session no_memory = Inr (s', m') \<and>
    getStringValue s' ''u'' m' = Inr ''2''"
  using session_refines_map [OF empty_session_wf, of "[(''u'', ''1''), (''u'', ''2'')]" "''u''"]
  by auto

text \<open>\<open>setStringValue\<close> pushes the item it found a second time, so destroying the
  session frees each object once exactly when no name was set twice (or already held); otherwise
  the destructor frees an object that is already free.\<close>
theorem session_destructor_outcome:
  assumes "ses_wf s m" "set_all nvs s m = Inr (s', m')"
  shows "fst (delete_CSession s' m') =
    (if distinct (item_names s m @ map fst nvs) then Inr () else Inl DoubleFree)"
  using set_all_facts [OF assms(1), of nvs] assms(2) wf_distinct_names delete_CSession_outcome
  by fastforce

lemma session_destructor_outcome_witness:
  "\<exists>s' m'. set_all [(''u'', ''1''), (''u'', ''2'')] empty_session no_memory = Inr (s', m') \<and>
    fst (delete_CSession s' m') = Inl DoubleFree"
proof -
  obtain s' m' where r: "set_all [(''u'', ''1''), (''u'', ''2'')] empty_session no_memory = Inr (s', m')"
    using set_all_facts [OF empty_session_wf] by blast
  show ?thesis using session_destructor_outcome [OF empty_session_wf r] r by auto
qed

end
