(* ===== verification/File_Util.thy ===== *)
theory File_Util
  imports Std_Text
begin

text \<open>
  \<open>src/util/file_util.cpp\<close> and \<open>getFileModTime\<close> of \<open>CServer.cpp\<close>. The file system is an argument,
  the state \<open>os\<close>: the contents of each file that can be opened, the text \<open>ctime\<close> gives for its
  modification time, and the number of \<open>FILE\<close> handles the process holds. \<open>readBinaryFile\<close> is the
  loop of the code with its 32-bit position; a file too long for it makes the loop endless.
\<close>

record os =
  files :: "string \<Rightarrow> string option"
  mtimes :: "string \<Rightarrow> string"
  handles :: nat

definition readTextFile :: "string \<Rightarrow> os \<Rightarrow> string \<times> os" where
  "readTextFile fname fs =
    (case files fs fname of
       None \<Rightarrow> ([], fs)
     | Some content \<Rightarrow>
         (let opened = fs\<lparr>handles := handles fs + 1\<rparr>;
              len = length content;
              r = (if 0 < len then take len content else [])
          in (r, opened\<lparr>handles := handles opened - 1\<rparr>)))"

text \<open>
  The loop of \<open>readBinaryFile\<close>. \<open>content\<close> is what the file position still has before it,
  \<open>buf\<close> the 512-byte array, which keeps old bytes where \<open>fread\<close> delivers fewer; \<open>n\<close> and
  \<open>rd\<close> are \<open>unsigned int\<close>, \<open>len\<close> is a \<open>size_t\<close>.
\<close>

partial_function (option) readBinary_loop ::
  "string \<Rightarrow> nat \<Rightarrow> 32 word \<Rightarrow> nat \<Rightarrow> string \<Rightarrow> string \<Rightarrow> string option" where
  "readBinary_loop content len n rd buf r =
    (if unat n < len then
       (let rd1 = (if len < unat (n + 512) then u32 (len - unat n) else rd);
            d = take rd1 content;
            buf1 = d @ drop (length d) buf
        in readBinary_loop (drop rd1 content) len (n + 512) rd1 buf1 (r @ take rd1 buf1))
     else Some r)"

text \<open>The function opens the file and never closes it.\<close>

definition readBinaryFile :: "string \<Rightarrow> string \<Rightarrow> os \<Rightarrow> string res \<times> os" where
  "readBinaryFile buf0 fname fs =
    (case files fs fname of
       None \<Rightarrow> (Inr [], fs)
     | Some content \<Rightarrow>
         (returned (readBinary_loop content (length content) 0 512 buf0 []),
          fs\<lparr>handles := handles fs + 1\<rparr>))"

definition getFileModTime :: "string \<Rightarrow> os \<Rightarrow> string" where
  "getFileModTime path fs = mtimes fs path"

section \<open>What they read\<close>

lemma readTextFile_content:
  "readTextFile fname fs = ((case files fs fname of None \<Rightarrow> [] | Some c \<Rightarrow> c), fs)"
  by (simp add: readTextFile_def split: option.split)

lemma readBinary_loop_chunk:
  assumes "unat n < len" "unat (n + 512) \<le> len" "512 \<le> length content"
  shows "readBinary_loop content len n 512 buf r =
    readBinary_loop (drop 512 content) len (n + 512) 512 (take 512 content @ drop 512 buf)
      (r @ take 512 content)"
proof -
  have "length (take 512 content) = 512" using assms(3) by simp
  then show ?thesis
    using assms(1,2) by (subst readBinary_loop.simps) (simp only: Let_def not_less if_True if_False, simp)
qed

lemma readBinary_loop_rest:
  assumes "unat n = length done'" "512 dvd unat n" "length rest + unat n \<le> 4294966784"
    and "rest \<noteq> [] \<longrightarrow> rd = 512" "length buf = 512"
  shows "readBinary_loop rest (length done' + length rest) n rd buf done' = Some (done' @ rest)"
  using assms
proof (induction "length rest" arbitrary: rest n rd buf done' rule: less_induct)
  case less
  show ?case
  proof (cases "rest = []")
    case True
    with less.prems show ?thesis by (subst readBinary_loop.simps) simp
  next
    case False
    then have lt: "unat n < length done' + length rest" using less.prems(1) by simp
    have step: "unat (n + 512) = unat n + 512"
      using less.prems(3) False by (cases rest) (auto simp: unat_word_ariths)
    show ?thesis
    proof (cases "length rest < 512")
      case True
      let ?done = "done' @ rest"
      have stop: "readBinary_loop [] (length done' + length rest) (n + 512) k b ?done = Some ?done" for k b
        using step less.prems(1) True by (subst readBinary_loop.simps) simp
      have "u32 (length rest) = length rest" using True by simp
      then show ?thesis
        using lt step less.prems(1,4) False True stop
        by (subst readBinary_loop.simps) (simp add: Let_def)
    next
      case ge: False
      let ?done = "done' @ take 512 rest"
      have len: "length ?done + length (drop 512 rest) = length done' + length rest" by simp
      have unfolded: "readBinary_loop rest (length done' + length rest) n rd buf done' =
          readBinary_loop (drop 512 rest) (length ?done + length (drop 512 rest)) (n + 512) 512
            (take 512 rest @ drop 512 buf) ?done"
        unfolding len using readBinary_loop_chunk [OF lt, of rest buf done'] step less.prems(1,4) False ge
        by simp
      have "readBinary_loop (drop 512 rest) (length ?done + length (drop 512 rest)) (n + 512) 512
          (take 512 rest @ drop 512 buf) ?done = Some (?done @ drop 512 rest)"
        by (rule less.hyps) (use step less.prems ge False in \<open>auto simp: min_def\<close>)
      with unfolded show ?thesis by simp
    qed
  qed
qed

lemma readBinary_loop_all:
  "length content \<le> 4294966784 \<Longrightarrow> length buf0 = 512 \<Longrightarrow>
   readBinary_loop content (length content) 0 512 buf0 [] = Some content"
  using readBinary_loop_rest [of 0 "[]" content 512 buf0] by simp

text \<open>Past that length the position wraps to 0 before it reaches the end.\<close>

lemma add512_dvd: "512 dvd unat (n :: 32 word) \<Longrightarrow> 512 dvd unat (n + 512)"
  by (simp add: unat_word_ariths dvd_mod_iff dvd_mod)

lemma dvd512_bound:
  assumes "512 dvd unat (n :: 32 word)"
  shows "unat n \<le> 4294966784"
proof -
  obtain k where k: "unat n = 512 * k" using assms by (auto elim: dvdE)
  have "unat n < 4294967296" using unsigned_less [where w = n and 'a = nat] by simp
  with k show ?thesis by simp
qed

lemma readBinary_loop_too_long:
  assumes "readBinary_loop content len n rd buf r = Some res"
  shows "\<not> (4294966784 < len \<and> 512 dvd unat n)"
proof (rule readBinary_loop.raw_induct
    [where P = "\<lambda>content len n rd buf r res. \<not> (4294966784 < len \<and> 512 dvd unat n)", OF _ assms])
  fix f content len rd buf r res and n :: "32 word"
  assume IH: "\<And>content len n rd buf r res.
      f content len n rd buf r = Some res \<Longrightarrow> \<not> (4294966784 < len \<and> 512 dvd unat n)"
    and eq: "(if unat n < len then
       (let rd1 = (if len < unat (n + 512) then u32 (len - unat n) else rd);
            d = take rd1 content;
            buf1 = d @ drop (length d) buf
        in f (drop rd1 content) len (n + 512) rd1 buf1 (r @ take rd1 buf1))
     else Some r) = Some res"
  show "\<not> (4294966784 < len \<and> 512 dvd unat n)"
  proof
    assume h: "4294966784 < len \<and> 512 dvd unat n"
    then have "unat n < len" using dvd512_bound [of n] by simp
    with eq IH have "\<not> (4294966784 < len \<and> 512 dvd unat (n + 512))"
      by (auto simp: Let_def)
    with h add512_dvd show False by blast
  qed
qed

lemma readBinary_loop_diverges:
  "4294966784 < len \<Longrightarrow> readBinary_loop content len 0 rd buf r = None"
  using readBinary_loop_too_long [of content len 0 rd buf r]
  by (cases "readBinary_loop content len 0 rd buf r") auto

text \<open>\<open>readBinaryFile\<close> returns the whole file up to 4294966784 bytes and never
  comes back from a longer one, because its 32-bit position wraps; either way the \<open>FILE\<close> handle
  it opened is still open. \<open>readTextFile\<close> of the same file returns its contents and closes it.\<close>
theorem readBinaryFile_outcome:
  assumes "files fs fname = Some content" "length buf0 = 512"
  shows "readBinaryFile buf0 fname fs =
      (if length content \<le> 4294966784 then Inr content else Inl Diverges,
       fs\<lparr>handles := handles fs + 1\<rparr>) \<and>
    readTextFile fname fs = (content, fs)"
  using assms
  by (simp add: readBinaryFile_def readTextFile_content readBinary_loop_all readBinary_loop_diverges)

lemma readBinaryFile_outcome_witness:
  "readBinaryFile (replicate 512 (CHR ''x'')) ''a''
      \<lparr>files = [''a'' \<mapsto> ''hi''], mtimes = (\<lambda>_. []), handles = 0\<rparr> =
    (Inr ''hi'', \<lparr>files = [''a'' \<mapsto> ''hi''], mtimes = (\<lambda>_. []), handles = 1\<rparr>)"
  using readBinaryFile_outcome [of "\<lparr>files = [''a'' \<mapsto> ''hi''], mtimes = (\<lambda>_. []), handles = 0\<rparr>"
      "''a''" "''hi''" "replicate 512 (CHR ''x'')"] by simp

end
