(* ===== verification/Server_Core.thy ===== *)
theory Server_Core
  imports Http_Node_Facts Sessions File_Util
begin

text \<open>
  \<open>CServer\<close> (\<open>src/server/CServer.h\<close>, \<open>CServer.cpp\<close>) apart from its threads: the object with
  its constructor and setters, the registries of endpoints, MIME types and sessions, and the
  lookup of static files. \<open>getStaticEndpoint\<close> and \<open>getStaticIndex\<close> call each other, as in the
  code; they read the file system, which is the state \<^typ>\<open>os\<close> of their action. Strings passed as
  \<open>const char*\<close> are C strings, so they hold no NUL.
\<close>

section \<open>The object\<close>

text \<open>
  \<open>Sessions\<close> is a vector of pointers; the objects are in \<open>srvHeap\<close>, so that a session erased from
  the vector and never deleted is visible. \<open>srvIncremental\<close> is the counter of \<open>CSession.cpp\<close>.
\<close>

record server =
  srvSecure :: bool
  srvListenPort :: int
  srvCertFileName :: string
  srvCertPassword :: string
  srvKeyFileName :: string
  srvEndpoints :: "MEndpoint list"
  srvStaticEndpoints :: "MStaticEndpoint list"
  srvStaticIndexes :: "string list"
  srvSessions :: "nat list"
  srvMimeTypes :: "MMimeType list"
  srvStopSignal :: bool
  srvThreadLimit :: "32 word"
  srvThreadCount :: "32 word"
  srvHeap :: "nat \<Rightarrow> CSession option"
  srvNext :: nat
  srvMemory :: memory
  srvIncremental :: nat

definition getMimeType :: "string \<Rightarrow> server \<Rightarrow> MMimeType option" where
  "getMimeType ext srv = find (\<lambda>t. mtExt t = ext) (srvMimeTypes srv)"

definition addMimeType :: "MMimeType \<Rightarrow> server \<Rightarrow> server" where
  "addMimeType t srv = srv\<lparr>srvMimeTypes := srvMimeTypes srv @ [t]\<rparr>"

definition removeMimeType :: "string \<Rightarrow> server \<Rightarrow> server" where
  "removeMimeType ext srv = srv\<lparr>srvMimeTypes := erase_first (\<lambda>t. mtExt t = ext) (srvMimeTypes srv)\<rparr>"

definition default_mime_types :: "MMimeType list" where
  "default_mime_types =
    [new_MMimeType ''html'' True [], new_MMimeType ''htm'' True [], new_MMimeType ''txt'' True [],
     new_MMimeType ''js'' True ''text/javascript'', new_MMimeType ''css'' True [],
     new_MMimeType ''png'' False ''image/png'', new_MMimeType ''jpg'' False ''image/jpeg'',
     new_MMimeType ''jpeg'' False ''image/jpeg'', new_MMimeType ''gif'' False ''image/gif'',
     new_MMimeType ''bmp'' False ''image/bmp'', new_MMimeType ''svg'' False ''image/svg'']"

definition addDefaultMimeTypes :: "server \<Rightarrow> server" where
  "addDefaultMimeTypes srv = fold addMimeType default_mime_types srv"

definition SOLUSEK_DEFAULT_THREAD_LIMIT :: "32 word" where
  "SOLUSEK_DEFAULT_THREAD_LIMIT = 25"

text \<open>The constructor; \<open>m\<close> and \<open>incremental\<close> are the process's state when it runs.\<close>

definition new_CServer :: "memory \<Rightarrow> nat \<Rightarrow> server" where
  "new_CServer m incremental = addDefaultMimeTypes
    \<lparr>srvSecure = False, srvListenPort = 80, srvCertFileName = [], srvCertPassword = [],
     srvKeyFileName = [], srvEndpoints = [], srvStaticEndpoints = [], srvStaticIndexes = [],
     srvSessions = [], srvMimeTypes = [], srvStopSignal = False,
     srvThreadLimit = SOLUSEK_DEFAULT_THREAD_LIMIT, srvThreadCount = 0, srvHeap = (\<lambda>_. None),
     srvNext = 0, srvMemory = m, srvIncremental = incremental\<rparr>"

definition setSecure :: "bool \<Rightarrow> server \<Rightarrow> server" where
  "setSecure on srv = srv\<lparr>srvSecure := on\<rparr>"

definition setListenPort :: "int \<Rightarrow> server \<Rightarrow> server" where
  "setListenPort port srv = srv\<lparr>srvListenPort := port\<rparr>"

definition setThreadLimit :: "32 word \<Rightarrow> server \<Rightarrow> server" where
  "setThreadLimit limit srv = srv\<lparr>srvThreadLimit := limit\<rparr>"

definition setCertificate :: "string \<Rightarrow> string \<Rightarrow> string \<Rightarrow> server \<Rightarrow> server" where
  "setCertificate pemFileName keyFileName password srv =
    srv\<lparr>srvCertFileName := pemFileName, srvCertPassword := password, srvKeyFileName := keyFileName\<rparr>"

section \<open>Endpoints\<close>

definition registerEndpoint :: "MEndpoint \<Rightarrow> server \<Rightarrow> server" where
  "registerEndpoint ep srv = srv\<lparr>srvEndpoints := srvEndpoints srv @ [ep]\<rparr>"

definition getEndpoint :: "string \<Rightarrow> string \<Rightarrow> server \<Rightarrow> MEndpoint option" where
  "getEndpoint path method srv =
    find (\<lambda>ep. epPath ep = path \<and> epMethod ep = method) (srvEndpoints srv)"

definition registerStaticIndex :: "string \<Rightarrow> server \<Rightarrow> server" where
  "registerStaticIndex name srv = srv\<lparr>srvStaticIndexes := srvStaticIndexes srv @ [name]\<rparr>"

definition addStaticDirectory :: "string \<Rightarrow> string option \<Rightarrow> server \<Rightarrow> server" where
  "addStaticDirectory path host srv =
    srv\<lparr>srvStaticEndpoints := srvStaticEndpoints srv @
      [\<lparr>seHost = (case host of Some h \<Rightarrow> strtolower h | None \<Rightarrow> []), sePath = path\<rparr>]\<rparr>"

interpretation mime: erasable_registry srvMimeTypes "\<lambda>k t. mtExt t = k" getMimeType addMimeType removeMimeType
  by unfold_locales (simp_all add: getMimeType_def addMimeType_def removeMimeType_def)

interpretation endpoints: registry srvEndpoints
  "\<lambda>(p, m) ep. epPath ep = p \<and> epMethod ep = m" "\<lambda>(p, m). getEndpoint p m" registerEndpoint
  by unfold_locales (auto simp: getEndpoint_def registerEndpoint_def)

section \<open>Sessions\<close>

definition startSession :: "nat \<Rightarrow> server \<Rightarrow> nat \<times> server" where
  "startSession now srv =
    (let (ses, i) = new_CSession now (srvIncremental srv); p = srvNext srv
     in (p, srv\<lparr>srvSessions := srvSessions srv @ [p], srvHeap := (srvHeap srv)(p := Some ses),
               srvNext := Suc p, srvIncremental := i\<rparr>))"

text \<open>Looking at the object behind each pointer, front to back; a dangling pointer is a fault.\<close>

fun find_session :: "(nat \<Rightarrow> CSession option) \<Rightarrow> string \<Rightarrow> nat list \<Rightarrow> nat option res" where
  "find_session h sid [] = Inr None"
| "find_session h sid (p # ps) =
    (case h p of
       None \<Rightarrow> Inl UseAfterFree
     | Some ses \<Rightarrow> (if sesID ses = sid then Inr (Some p) else find_session h sid ps))"

definition getSession :: "string \<Rightarrow> server \<Rightarrow> nat option res" where
  "getSession sid srv = find_session (srvHeap srv) sid (srvSessions srv)"

text \<open>\<open>destroySession\<close> erases the pointer; it does not delete the session.\<close>

definition destroySession :: "string \<Rightarrow> server \<Rightarrow> server res" where
  "destroySession sid srv =
    bind_res (getSession sid srv) (\<lambda>r.
      case r of
        None \<Rightarrow> Inr srv
      | Some p \<Rightarrow> Inr (srv\<lparr>srvSessions := erase_first (\<lambda>q. q = p) (srvSessions srv)\<rparr>))"

text \<open>The two calls an application makes through the pointer it was given.\<close>

definition session_get :: "nat \<Rightarrow> string \<Rightarrow> server \<Rightarrow> string res" where
  "session_get p name srv =
    (case srvHeap srv p of
       None \<Rightarrow> Inl UseAfterFree
     | Some ses \<Rightarrow> getStringValue ses name (srvMemory srv))"

definition session_set :: "nat \<Rightarrow> string \<Rightarrow> string \<Rightarrow> server \<Rightarrow> server res" where
  "session_set p name val srv =
    (case srvHeap srv p of
       None \<Rightarrow> Inl UseAfterFree
     | Some ses \<Rightarrow>
         bind_res (setStringValue name val ses (srvMemory srv)) (\<lambda>(ses', m).
           Inr (srv\<lparr>srvHeap := (srvHeap srv)(p := Some ses'), srvMemory := m\<rparr>)))"

section \<open>Static files\<close>

text \<open>The loop over the static directories: the first that takes every host or the end of this one.\<close>

definition host_matches :: "string \<Rightarrow> MStaticEndpoint \<Rightarrow> bool" where
  "host_matches shost ep \<longleftrightarrow>
    length (seHost ep) = 0 \<or>
    (length (seHost ep) \<le> length shost \<and> drop (length shost - length (seHost ep)) shost = seHost ep)"

definition static_path :: "string \<Rightarrow> server \<Rightarrow> string" where
  "static_path shost srv =
    (case find (host_matches shost) (srvStaticEndpoints srv) of Some ep \<Rightarrow> sePath ep | None \<Rightarrow> [])"

text \<open>
  The end of \<open>getStaticEndpoint\<close>: opening the file and filling the endpoint. \<open>&data[0]\<close> of an
  empty vector is undefined. \<open>Callback\<close> is not assigned and not read; 0 stands for it. \<open>buf0\<close> is
  the uninitialised buffer of \<open>readBinaryFile\<close>.
\<close>

definition static_MEndpoint :: "string \<Rightarrow> string \<Rightarrow> string \<Rightarrow> string \<Rightarrow> string \<Rightarrow> string \<Rightarrow> MEndpoint" where
  "static_MEndpoint date dpath method ext contents ctype =
    \<lparr>epType = 1, epPath = dpath, epMethod = method, epContents = contents, epExt = ext,
     epContentType = ctype, epDate = date, epCallback = 0\<rparr>"

definition load_static :: "string \<Rightarrow> MMimeType option \<Rightarrow> string \<Rightarrow> string \<Rightarrow> string \<Rightarrow> (os, MEndpoint option) act" where
  "load_static buf0 mime ext dpath method fs =
    (if files fs dpath = None then (Inr None, fs)
     else case mime of
       Some t \<Rightarrow>
         (if mtIsText t then
            (let (c, fs') = readTextFile dpath fs
             in (Inr (Some (static_MEndpoint (getFileModTime dpath fs) dpath method ext c (mtType t))), fs'))
          else
            (case readBinaryFile buf0 dpath fs of
               (Inl e, fs') \<Rightarrow> (Inl e, fs')
             | (Inr [], fs') \<Rightarrow> (Inl WildAccess, fs')
             | (Inr c, fs') \<Rightarrow>
                 (Inr (Some (static_MEndpoint (getFileModTime dpath fs) dpath method ext c (mtType t))), fs')))
     | None \<Rightarrow>
         (case readBinaryFile buf0 dpath fs of
            (Inl e, fs') \<Rightarrow> (Inl e, fs')
          | (Inr [], fs') \<Rightarrow> (Inl WildAccess, fs')
          | (Inr c, fs') \<Rightarrow>
              (Inr (Some (static_MEndpoint (getFileModTime dpath fs) dpath method ext c
                 ''application/force-download'')), fs')))"

text \<open>
  The middle: the query is cut off, then the extension is taken from the file name. All three
  positions are \<open>unsigned int\<close>s compared with \<open>npos\<close>.
\<close>

definition getStaticFile :: "server \<Rightarrow> string \<Rightarrow> string \<Rightarrow> string \<Rightarrow> string option \<Rightarrow> (os, MEndpoint option) act" where
  "getStaticFile srv buf0 path method host fs =
    (let shost = (case host of Some h \<Rightarrow> strtolower h | None \<Rightarrow> []);
         staticPath = static_path shost srv in
     if length staticPath = 0 then (Inr None, fs)
     else
       let np = u32 (as_size (find_ch (CHR ''?'') path));
           fpath = (if np \<noteq> npos then take np path else path);
           dpath = staticPath @ ''/'' @ fpath;
           np2 = u32 (as_size (find_last_ch (CHR ''/'') fpath)) in
       if np2 = npos then (Inr None, fs)
       else
         let fname = drop (u32 (np2 + 1)) fpath;
             np3 = u32 (as_size (find_last_ch (CHR ''.'') fname)) in
         if np3 \<noteq> npos then
           (let ext = strtolower (drop (u32 (np3 + 1)) fname)
            in load_static buf0 (getMimeType ext srv) ext dpath method fs)
         else (Inr None, fs))"

text \<open>
  The two entry points. \<open>s[s.size() - 1]\<close> of an empty string is out of bounds: an empty path, or
  an empty index name.
\<close>

function getStaticEndpoint ::
    "server \<Rightarrow> string \<Rightarrow> string \<Rightarrow> string \<Rightarrow> string option \<Rightarrow> (os, MEndpoint option) act"
  and getStaticIndex ::
    "server \<Rightarrow> string \<Rightarrow> string \<Rightarrow> string \<Rightarrow> string option \<Rightarrow> string list \<Rightarrow> (os, MEndpoint option) act"
where
  "getStaticEndpoint srv buf0 path method host fs =
    (if find_str ''..'' path \<noteq> None then (Inr None, fs)
     else if path = [] then (Inl WildAccess, fs)
     else if last path = CHR ''/'' then getStaticIndex srv buf0 path method host (srvStaticIndexes srv) fs
     else getStaticFile srv buf0 path method host fs)"
| "getStaticIndex srv buf0 dpath method host [] fs = (Inr None, fs)"
| "getStaticIndex srv buf0 dpath method host (it # its) fs =
    (if it = [] then (Inl WildAccess, fs)
     else if last it = CHR ''/'' then getStaticIndex srv buf0 dpath method host its fs
     else case getStaticEndpoint srv buf0 (dpath @ it) method host fs of
       (Inl e, fs') \<Rightarrow> (Inl e, fs')
     | (Inr (Some ep), fs') \<Rightarrow> (Inr (Some ep), fs')
     | (Inr None, fs') \<Rightarrow> getStaticIndex srv buf0 dpath method host its fs')"
  by pat_completeness auto
termination
  by (relation "measure (\<lambda>x. case x of
      Inl (srv, b, p, m, h, fs) \<Rightarrow>
        (if p \<noteq> [] \<and> last p = CHR ''/'' then length (srvStaticIndexes srv) + 2 else 0)
    | Inr (srv, b, d, m, h, its, fs) \<Rightarrow> length its + 1)") auto

declare getStaticEndpoint.simps [simp del] getStaticIndex.simps [simp del]

end
