(* ===== verification/Accept_Loop.thy ===== *)
theory Accept_Loop
  imports Server_Core Contracts
begin

text \<open>
  The threads of the server: \<open>CServer::run\<close>, \<open>thread_runNode\<close>, \<open>runNode\<close>, \<open>removeNode\<close>, \<open>stop\<close>
  (\<open>src/server/CServer.cpp\<close>) and \<open>CNode::dispose\<close> (\<open>CNode.cpp\<close>). The main thread and each worker
  have a program point; a step is one of them moving to its next point, or the signal handler calling
  \<open>stop\<close>, in any order. The points separate the accesses to what the threads share: \<open>StopSignal\<close>,
  \<open>ThreadCount\<close>, \<open>Nodes\<close>, the socket handed over and the package's \<open>ID\<close>. Increments and vector
  operations are taken as indivisible. What a worker does between registering its node and removing
  it is \<open>node_run\<close> of \<open>Http_Handler\<close>, which always ends (\<open>node_run_completes\<close>).
\<close>

text \<open>
  The main thread: at the loop test, waiting for the thread limit, in \<open>accept\<close>, after
  \<open>ThreadCount++\<close> with the socket (\<^const>\<open>False\<close> for a null pointer, which \<open>accept\<close> returns for a
  filtered peer), before \<open>pkg->ID = threadId\<close>, closing the main socket, waiting for the nodes, and
  returned.
\<close>

datatype main_pc = Top | Throttled | Accepting | Counted bool | Naming nat | Closing | Draining | Returned

text \<open>
  A worker: spinning on \<open>pkg->ID == 0\<close>, about to construct its node, with its node in \<open>Nodes\<close>, after
  \<open>removeNode\<close>, and after \<open>ThreadCount--\<close>. The flag is whether its socket is a valid pointer.
\<close>

datatype worker_pc = Spinning bool | Named bool | Running | Removed | Gone

record accept_sys =
  asStopSignal :: bool
  asThreadLimit :: "32 word"
  asThreadCount :: "32 word"
  asNodes :: "nat list"
  asMain :: main_pc
  asWorkers :: "worker_pc list"
  asFailed :: nat
  asCrashed :: bool

definition run_start :: "32 word \<Rightarrow> accept_sys" where
  "run_start limit = \<lparr>asStopSignal = False, asThreadLimit = limit, asThreadCount = 0, asNodes = [],
    asMain = Top, asWorkers = [], asFailed = 0, asCrashed = False\<rparr>"

text \<open>Which thread moves; \<open>Accepts\<close> and \<open>Spawns\<close> carry what the system call returned.\<close>

datatype accept_event =
    Tests
  | Accepts bool
  | Spawns bool
  | Names
  | Drains
  | Wakes nat
  | Enters nat
  | Leaves nat
  | Ends nat
  | Stops

definition worker_at :: "accept_sys \<Rightarrow> nat \<Rightarrow> worker_pc option" where
  "worker_at s w = (if w < length (asWorkers s) then Some (asWorkers s ! w) else None)"

definition set_worker :: "nat \<Rightarrow> worker_pc \<Rightarrow> accept_sys \<Rightarrow> accept_sys" where
  "set_worker w pc s = s\<lparr>asWorkers := (asWorkers s)[w := pc]\<rparr>"

text \<open>One move of \<open>run\<close>: the loop tests, \<open>accept\<close>, \<open>pthread_create\<close>, the assignment of the
  identifier, and the wait for the nodes.\<close>

definition main_test :: "accept_sys \<Rightarrow> accept_sys option" where
  "main_test s = (case asMain s of
      Top \<Rightarrow> Some (s\<lparr>asMain := (if asStopSignal s then Closing else Throttled)\<rparr>)
    | Throttled \<Rightarrow> Some (if asThreadCount s > asThreadLimit s then s else s\<lparr>asMain := Accepting\<rparr>)
    | Closing \<Rightarrow> Some (s\<lparr>asMain := Draining\<rparr>)
    | _ \<Rightarrow> None)"

definition main_accept :: "bool \<Rightarrow> accept_sys \<Rightarrow> accept_sys option" where
  "main_accept valid s = (if asMain s = Accepting
    then Some (s\<lparr>asThreadCount := asThreadCount s + 1, asMain := Counted valid\<rparr>) else None)"

definition main_spawn :: "bool \<Rightarrow> accept_sys \<Rightarrow> accept_sys option" where
  "main_spawn created s = (case asMain s of
      Counted valid \<Rightarrow>
        if asStopSignal s then Some (if valid then s\<lparr>asMain := Closing\<rparr> else s\<lparr>asCrashed := True\<rparr>)
        else if created then Some (s\<lparr>asWorkers := asWorkers s @ [Spinning valid], asMain := Naming (length (asWorkers s))\<rparr>)
        else Some (s\<lparr>asFailed := Suc (asFailed s), asMain := Top\<rparr>)
    | _ \<Rightarrow> None)"

definition main_name :: "accept_sys \<Rightarrow> accept_sys option" where
  "main_name s = (case asMain s of
      Naming w \<Rightarrow> (case worker_at s w of
          Some (Spinning valid) \<Rightarrow> Some ((set_worker w (Named valid) s)\<lparr>asMain := Top\<rparr>)
        | _ \<Rightarrow> None)
    | _ \<Rightarrow> None)"

definition main_drain :: "accept_sys \<Rightarrow> accept_sys option" where
  "main_drain s = (if asMain s = Draining
    then Some (if length (asNodes s) > 0 then s else s\<lparr>asMain := Returned\<rparr>) else None)"

text \<open>\<open>thread_runNode\<close> and \<open>runNode\<close>; the constructor of the node uses the socket.\<close>

definition worker_enter :: "nat \<Rightarrow> accept_sys \<Rightarrow> accept_sys option" where
  "worker_enter w s = (case worker_at s w of
      Some (Named valid) \<Rightarrow>
        Some (if valid then (set_worker w Running s)\<lparr>asNodes := asNodes s @ [w]\<rparr> else s\<lparr>asCrashed := True\<rparr>)
    | _ \<Rightarrow> None)"

definition removeNode :: "nat \<Rightarrow> accept_sys \<Rightarrow> accept_sys" where
  "removeNode w s = s\<lparr>asNodes := erase_first (\<lambda>v. v = w) (asNodes s)\<rparr>"

definition node_dispose :: "nat \<Rightarrow> accept_sys \<Rightarrow> accept_sys option" where
  "node_dispose w s = (if worker_at s w = Some Running then Some (set_worker w Removed (removeNode w s)) else None)"

definition worker_end :: "nat \<Rightarrow> accept_sys \<Rightarrow> accept_sys option" where
  "worker_end w s = (if worker_at s w = Some Removed
    then Some ((set_worker w Gone s)\<lparr>asThreadCount := asThreadCount s - 1\<rparr>) else None)"

definition server_stop :: "accept_sys \<Rightarrow> accept_sys option" where
  "server_stop s = Some (s\<lparr>asStopSignal := True\<rparr>)"

text \<open>A spinning worker whose \<open>ID\<close> is still zero stays where it is.\<close>

fun accept_event_act :: "accept_event \<Rightarrow> accept_sys \<Rightarrow> accept_sys option" where
  "accept_event_act Tests s = main_test s"
| "accept_event_act (Accepts valid) s = main_accept valid s"
| "accept_event_act (Spawns created) s = main_spawn created s"
| "accept_event_act Names s = main_name s"
| "accept_event_act Drains s = main_drain s"
| "accept_event_act (Wakes w) s = (case worker_at s w of Some (Spinning _) \<Rightarrow> Some s | _ \<Rightarrow> None)"
| "accept_event_act (Enters w) s = worker_enter w s"
| "accept_event_act (Leaves w) s = node_dispose w s"
| "accept_event_act (Ends w) s = worker_end w s"
| "accept_event_act Stops s = server_stop s"

definition accept_act :: "accept_event \<Rightarrow> accept_sys \<Rightarrow> accept_sys option" where
  "accept_act e s = (if asCrashed s then None else accept_event_act e s)"

inductive accept_step :: "accept_sys \<Rightarrow> accept_sys \<Rightarrow> bool" where
  acts: "accept_act e s = Some t \<Longrightarrow> accept_step s t"

inductive_simps accept_step_iff: "accept_step s t"

fun accept_run :: "accept_event list \<Rightarrow> accept_sys \<Rightarrow> accept_sys option" where
  "accept_run [] s = Some s"
| "accept_run (e # es) s = (case accept_act e s of None \<Rightarrow> None | Some t \<Rightarrow> accept_run es t)"

lemma accept_run_steps: "accept_run es s = Some t \<Longrightarrow> accept_step\<^sup>*\<^sup>* s t"
proof (induction es arbitrary: s)
  case (Cons e es)
  then obtain u where "accept_act e s = Some u" "accept_run es u = Some t" by (auto split: option.splits)
  then show ?case using Cons.IH by (meson accept_step.acts converse_rtranclp_into_rtranclp)
qed simp

section \<open>The invariant\<close>

text \<open>
  \<open>ThreadCount\<close> counts the workers that have not ended, the sockets accepted and not yet handed
  over, and the failed thread creations, which nothing subtracts again; it exceeds the limit by at
  most one. \<open>Nodes\<close> lists exactly the running workers.
\<close>

fun pending :: "main_pc \<Rightarrow> nat" where
  "pending (Counted _) = 1"
| "pending _ = 0"

definition live :: "accept_sys \<Rightarrow> nat" where
  "live s = length (filter (\<lambda>pc. pc \<noteq> Gone) (asWorkers s))"

text \<open>The socket closed after a stop was counted too.\<close>

definition accept_inv :: "accept_sys \<Rightarrow> bool" where
  "accept_inv s \<longleftrightarrow> asThreadLimit s \<noteq> - 1 \<and>
    unat (asThreadCount s) \<ge> live s + asFailed s + pending (asMain s) \<and>
    (asMain s \<notin> {Closing, Draining, Returned} \<longrightarrow>
       unat (asThreadCount s) = live s + asFailed s + pending (asMain s)) \<and>
    unat (asThreadCount s) \<le> unat (asThreadLimit s) + 1 \<and>
    (asMain s = Accepting \<longrightarrow> asThreadCount s \<le> asThreadLimit s) \<and>
    distinct (asNodes s) \<and> (\<forall>w. w \<in> set (asNodes s) \<longleftrightarrow> worker_at s w = Some Running)"

lemma filter_update:
  "i < length xs \<Longrightarrow> length (filter P (xs[i := y])) + (if P (xs ! i) then 1 else 0)
     = length (filter P xs) + (if P y then 1 else 0)"
proof (induction xs arbitrary: i)
  case (Cons x xs)
  then show ?case by (cases i) auto
qed simp

lemma live_set: "w < length (asWorkers s) \<Longrightarrow>
  live (set_worker w pc s) + (if asWorkers s ! w \<noteq> Gone then 1 else 0) = live s + (if pc \<noteq> Gone then 1 else 0)"
  using filter_update [of w "asWorkers s" "\<lambda>pc. pc \<noteq> Gone" pc] by (simp add: live_def set_worker_def)

lemma worker_at_lt: "worker_at s w = Some pc \<Longrightarrow> w < length (asWorkers s) \<and> asWorkers s ! w = pc"
  by (simp add: worker_at_def split: if_splits)

lemma worker_at_set:
  "w < length (asWorkers s) \<Longrightarrow> worker_at (set_worker w pc s) v = (if v = w then Some pc else worker_at s v)"
  by (simp add: worker_at_def set_worker_def)

lemma set_worker_fields [simp]:
  "asStopSignal (set_worker w pc s) = asStopSignal s" "asThreadLimit (set_worker w pc s) = asThreadLimit s"
  "asThreadCount (set_worker w pc s) = asThreadCount s" "asNodes (set_worker w pc s) = asNodes s"
  "asMain (set_worker w pc s) = asMain s" "asFailed (set_worker w pc s) = asFailed s"
  "asCrashed (set_worker w pc s) = asCrashed s"
  by (simp_all add: set_worker_def)

text \<open>Updates that leave the workers alone.\<close>

lemma worker_live_frame [simp]:
  "live (s\<lparr>asMain := m\<rparr>) = live s" "live (s\<lparr>asThreadCount := c\<rparr>) = live s" "live (s\<lparr>asNodes := ns\<rparr>) = live s"
  "live (s\<lparr>asStopSignal := b\<rparr>) = live s" "live (s\<lparr>asCrashed := b\<rparr>) = live s" "live (s\<lparr>asFailed := n\<rparr>) = live s"
  "worker_at (s\<lparr>asMain := m\<rparr>) = worker_at s" "worker_at (s\<lparr>asThreadCount := c\<rparr>) = worker_at s"
  "worker_at (s\<lparr>asNodes := ns\<rparr>) = worker_at s" "worker_at (s\<lparr>asStopSignal := b\<rparr>) = worker_at s"
  "worker_at (s\<lparr>asCrashed := b\<rparr>) = worker_at s" "worker_at (s\<lparr>asFailed := n\<rparr>) = worker_at s"
  by (simp_all add: live_def worker_at_def fun_eq_iff)


lemma word_inc:
  assumes "(c :: 32 word) \<le> l" "l \<noteq> - 1"
  shows "unat (c + 1) = unat c + 1"
proof -
  have "c \<noteq> - 1" using assms word_order.extremum_uniqueI by blast
  then have "1 + c \<noteq> 0" by (metis add_eq_0_iff)
  from unatSuc [OF this] show ?thesis by (simp add: add.commute)
qed

lemma word_dec: "0 < unat (c :: 32 word) \<Longrightarrow> unat (c - 1) + 1 = unat c"
  by (metis Suc_eq_plus1 Suc_pred' unat_0 unat_minus_one less_numeral_extra(3))

lemma accept_inv_start: "limit \<noteq> - 1 \<Longrightarrow> accept_inv (run_start limit)"
  by (simp add: accept_inv_def run_start_def live_def worker_at_def)

lemma main_test_inv: "accept_inv s \<Longrightarrow> main_test s = Some t \<Longrightarrow> accept_inv t"
  by (auto simp: accept_inv_def main_test_def split: main_pc.splits if_splits)

lemma main_accept_inv: "accept_inv s \<Longrightarrow> main_accept valid s = Some t \<Longrightarrow> accept_inv t"
  by (auto simp: accept_inv_def main_accept_def word_inc word_le_nat_alt split: if_splits)

lemma worker_at_spawn:
  "worker_at (s\<lparr>asWorkers := asWorkers s @ [pc]\<rparr>) w
    = (if w = length (asWorkers s) then Some pc else worker_at s w)"
  by (auto simp: worker_at_def nth_append)

lemma main_spawn_inv:
  assumes inv: "accept_inv s" and sp: "main_spawn created s = Some t"
  shows "accept_inv t"
proof -
  obtain valid where m: "asMain s = Counted valid" using sp by (auto simp: main_spawn_def split: main_pc.splits)
  have l: "live (s\<lparr>asWorkers := asWorkers s @ [Spinning valid]\<rparr>) = live s + 1"
    by (simp add: live_def)
  have "worker_at s (length (asWorkers s)) = None" by (simp add: worker_at_def)
  then have n: "length (asWorkers s) \<notin> set (asNodes s)" using inv by (simp add: accept_inv_def)
  consider "asStopSignal s" | "\<not> asStopSignal s" "created" | "\<not> asStopSignal s" "\<not> created" by blast
  then show ?thesis
  proof cases
    case 1
    then have "t = (if valid then s\<lparr>asMain := Closing\<rparr> else s\<lparr>asCrashed := True\<rparr>)"
      using sp m by (simp add: main_spawn_def)
    then show ?thesis using inv m by (simp add: accept_inv_def)
  next
    case 2
    then have "t = s\<lparr>asWorkers := asWorkers s @ [Spinning valid], asMain := Naming (length (asWorkers s))\<rparr>"
      using sp m by (simp add: main_spawn_def)
    then show ?thesis using inv m n by (simp add: accept_inv_def l worker_at_spawn)
  next
    case 3
    then have "t = s\<lparr>asFailed := Suc (asFailed s), asMain := Top\<rparr>"
      using sp m by (simp add: main_spawn_def)
    then show ?thesis using inv m by (simp add: accept_inv_def)
  qed
qed

text \<open>A worker that moves without starting or ending to run its node.\<close>

lemma set_worker_inv:
  assumes "accept_inv s" "worker_at s w = Some pc" "pc \<noteq> Running" "pc' \<noteq> Running" "pc \<noteq> Gone" "pc' \<noteq> Gone"
  shows "accept_inv (set_worker w pc' s)"
  using assms live_set [of w s pc'] worker_at_lt [OF assms(2)]
  by (auto simp: accept_inv_def worker_at_set)

lemma main_name_inv:
  assumes inv: "accept_inv s" and nm: "main_name s = Some t"
  shows "accept_inv t"
proof -
  obtain w valid where w: "asMain s = Naming w" "worker_at s w = Some (Spinning valid)"
    and t: "t = (set_worker w (Named valid) s)\<lparr>asMain := Top\<rparr>"
    using nm by (auto simp: main_name_def split: main_pc.splits option.splits worker_pc.splits)
  have "accept_inv (set_worker w (Named valid) s)" by (rule set_worker_inv [OF inv w(2)]) simp_all
  then show ?thesis using t w by (simp add: accept_inv_def)
qed

lemma main_drain_inv: "accept_inv s \<Longrightarrow> main_drain s = Some t \<Longrightarrow> accept_inv t"
  by (auto simp: accept_inv_def main_drain_def split: if_splits)

lemma worker_enter_inv:
  assumes inv: "accept_inv s" and en: "worker_enter w s = Some t"
  shows "accept_inv t"
proof -
  obtain valid where w: "worker_at s w = Some (Named valid)"
    and t: "t = (if valid then (set_worker w Running s)\<lparr>asNodes := asNodes s @ [w]\<rparr> else s\<lparr>asCrashed := True\<rparr>)"
    using en by (auto simp: worker_enter_def split: option.splits worker_pc.splits)
  have "w \<notin> set (asNodes s)" using inv w by (simp add: accept_inv_def)
  then show ?thesis
    using inv t w live_set [of w s Running] worker_at_lt [OF w]
    by (cases valid) (auto simp: accept_inv_def worker_at_set)
qed

lemma node_dispose_inv:
  assumes inv: "accept_inv s" and d: "node_dispose w s = Some t"
  shows "accept_inv t"
proof -
  have w: "worker_at s w = Some Running" and t: "t = set_worker w Removed (removeNode w s)"
    using d by (auto simp: node_dispose_def split: if_splits)
  have r: "asNodes (removeNode w s) = remove1 w (asNodes s)"
    by (simp add: removeNode_def erase_first_eq_remove1)
  have f: "live (removeNode w s) = live s" "worker_at (removeNode w s) = worker_at s"
    "asMain (removeNode w s) = asMain s" "asThreadCount (removeNode w s) = asThreadCount s"
    "asThreadLimit (removeNode w s) = asThreadLimit s" "asFailed (removeNode w s) = asFailed s"
    "asWorkers (removeNode w s) = asWorkers s"
    by (simp_all add: removeNode_def)
  show ?thesis
    using inv w r f live_set [of w "removeNode w s" Removed] worker_at_lt [OF w]
    unfolding t by (auto simp: accept_inv_def worker_at_set)
qed

lemma worker_end_inv:
  assumes inv: "accept_inv s" and e: "worker_end w s = Some t"
  shows "accept_inv t"
proof -
  have w: "worker_at s w = Some Removed"
    and t: "t = (set_worker w Gone s)\<lparr>asThreadCount := asThreadCount s - 1\<rparr>"
    using e by (auto simp: worker_end_def split: if_splits)
  have l: "live (set_worker w Gone s) + 1 = live s"
    using live_set [of w s Gone] worker_at_lt [OF w] by simp
  have c: "unat (asThreadCount s - 1) + 1 = unat (asThreadCount s)"
    using inv l by (intro word_dec) (auto simp: accept_inv_def)
  then have "asThreadCount s - 1 \<le> asThreadLimit s \<or> asThreadCount s \<le> asThreadLimit s \<longrightarrow>
    asThreadCount s - 1 \<le> asThreadLimit s" by (auto simp: word_le_nat_alt)
  then show ?thesis
    using inv l c worker_at_lt [OF w] unfolding t by (auto simp: accept_inv_def worker_at_set w)
qed

lemmas event_inv = main_test_inv main_accept_inv main_spawn_inv main_name_inv main_drain_inv worker_enter_inv
  node_dispose_inv worker_end_inv

lemma accept_act_inv:
  assumes inv: "accept_inv s" and a: "accept_act e s = Some t"
  shows "accept_inv t"
proof -
  have a': "accept_event_act e s = Some t" using a by (simp add: accept_act_def split: if_splits)
  show ?thesis
  proof (cases e)
    case Stops
    then show ?thesis using inv a' by (auto simp: server_stop_def accept_inv_def)
  next
    case (Wakes w)
    then show ?thesis using inv a' by (auto split: option.splits worker_pc.splits)
  qed (use inv a' in simp, blast intro: event_inv)+
qed

definition run_starts :: "accept_sys \<Rightarrow> bool" where
  "run_starts s \<longleftrightarrow> (\<exists>limit. limit \<noteq> - 1 \<and> s = run_start limit)"

lemma run_starts_25: "run_starts (run_start 25)"
proof -
  have "(25 :: 32 word) \<noteq> - 1" by simp
  then show ?thesis unfolding run_starts_def by blast
qed

interpretation accept_machine: step_machine run_starts accept_step accept_inv
  by unfold_locales (auto simp: run_starts_def accept_inv_start accept_step_iff dest: accept_act_inv)


section \<open>Properties\<close>



text \<open>C17 (safety). \<open>run\<close> returns only when no node is registered, so no request is being served at
  that moment. But a worker that has been created and has not registered its node yet is not waited
  for: \<open>run\<close> can return first, and the worker then adds its node to the vector of a server its owner
  may have deleted.\<close>

theorem run_returns_without_nodes:
  assumes "run_starts s0" and "accept_step\<^sup>*\<^sup>* s0 s" and "main_drain s = Some t" and "asMain t = Returned"
  shows "(\<forall>w. worker_at t w \<noteq> Some Running) \<and> asNodes t = []
    \<and> (\<exists>u v. accept_step\<^sup>*\<^sup>* (run_start 25) u \<and> asMain u = Returned \<and> accept_step u v \<and> asNodes v = [0])"
proof -
  have "accept_inv s" using accept_machine.inv_reachable [OF assms(2,1)] .
  then have inv: "accept_inv t" using main_drain_inv assms(3) by blast
  have "asNodes t = []" using assms(3,4) by (auto simp: main_drain_def split: if_splits)
  moreover have "\<forall>w. worker_at t w \<noteq> Some Running" using inv calculation by (simp add: accept_inv_def)
  moreover let ?es = "[Tests, Tests, Accepts True, Spawns True, Names, Stops, Tests, Tests, Drains]"
  have w: "case accept_run ?es (run_start 25) of None \<Rightarrow> False
    | Some u \<Rightarrow> asMain u = Returned \<and> (case accept_act (Enters 0) u of None \<Rightarrow> False | Some v \<Rightarrow> asNodes v = [0])"
    by code_simp
  then obtain u where u: "accept_run ?es (run_start 25) = Some u" by (auto split: option.splits)
  from w [unfolded u option.case] obtain v where "asMain u = Returned" "accept_act (Enters 0) u = Some v" "asNodes v = [0]"
    by (auto split: option.splits)
  with accept_run_steps [OF u] accept_step.acts have
    "\<exists>u v. accept_step\<^sup>*\<^sup>* (run_start 25) u \<and> asMain u = Returned \<and> accept_step u v \<and> asNodes v = [0]"
    by blast
  ultimately show ?thesis by blast
qed

lemma run_returns_without_nodes_witness:
  "\<exists>s t. accept_step\<^sup>*\<^sup>* (run_start 25) s \<and> main_drain s = Some t \<and> (\<forall>w. worker_at t w \<noteq> Some Running)"
proof -
  let ?es = "[Tests, Tests, Accepts True, Spawns True, Names, Enters 0, Stops, Tests, Tests, Leaves 0, Ends 0]"
  have w: "case accept_run ?es (run_start 25) of None \<Rightarrow> False
    | Some s \<Rightarrow> (case main_drain s of None \<Rightarrow> False | Some t \<Rightarrow> asMain t = Returned)" by code_simp
  then obtain s where s: "accept_run ?es (run_start 25) = Some s" by (auto split: option.splits)
  from w [unfolded s option.case] obtain t where t: "main_drain s = Some t" "asMain t = Returned"
    by (auto split: option.splits)
  from run_returns_without_nodes [OF run_starts_25 accept_run_steps [OF s] t] accept_run_steps [OF s] t show ?thesis by blast
qed

text \<open>
  A thread creation that fails is counted for ever: once it has failed more often than the limit,
  the server accepts no connection again.
\<close>

lemma failed_monotone: "accept_act e s = Some t \<Longrightarrow> asFailed s \<le> asFailed t \<and> asThreadLimit t = asThreadLimit s"
  by (cases e) (auto simp: accept_act_def main_test_def main_accept_def main_spawn_def main_name_def main_drain_def
      worker_enter_def node_dispose_def worker_end_def removeNode_def server_stop_def
      split: if_splits main_pc.splits option.splits worker_pc.splits)

lemma failed_creations_block_accept:
  assumes "accept_inv s" "asFailed s > unat (asThreadLimit s)" "accept_step\<^sup>*\<^sup>* s t"
  shows "asMain t \<noteq> Accepting"
proof -
  have "asFailed s \<le> asFailed t \<and> asThreadLimit t = asThreadLimit s"
    using assms(3)
  proof (induction rule: rtranclp_induct)
    case (step u v)
    then show ?case using failed_monotone by (auto simp: accept_step_iff) (metis le_trans)
  qed simp
  moreover have "accept_inv t" using accept_machine.inv_trace [OF assms(3,1)] .
  ultimately show ?thesis using assms(2) by (auto simp: accept_inv_def word_le_nat_alt)
qed

text \<open>A filtered peer, for which \<open>accept\<close> returns a null pointer, makes the worker's constructor
  dereference it.\<close>

lemma null_socket_crashes:
  assumes "asMain s = Counted False" "\<not> asStopSignal s" "\<not> asCrashed s"
  shows "\<exists>t. accept_run [Spawns True, Names, Enters (length (asWorkers s))] s = Some t \<and> asCrashed t"
  using assms by (simp add: accept_act_def main_spawn_def main_name_def worker_enter_def worker_at_def set_worker_def nth_append)

end
