(* ===== verification/Stop_Progress.thy ===== *)
theory Stop_Progress
  imports Accept_Loop
begin

text \<open>
  What \<open>CServer::stop\<close> brings about (\<open>src/server/CServer.cpp\<close>), on the steps of \<open>Accept_Loop\<close>: once the
  signal is set, every move of any thread brings \<open>run\<close> nearer to its return, and there is always one
  to make. The only step the server cannot make by itself is the one out of \<open>accept\<close>.
\<close>

section \<open>A worker spins only while it is being named\<close>

definition naming_inv :: "accept_sys \<Rightarrow> bool" where
  "naming_inv s \<longleftrightarrow> (\<forall>w. (\<exists>v. worker_at s w = Some (Spinning v)) \<longleftrightarrow> asMain s = Naming w)"

lemma naming_inv_start: "naming_inv (run_start limit)"
  by (simp add: naming_inv_def run_start_def worker_at_def)

lemma naming_inv_frame:
  assumes "naming_inv s" "worker_at t = worker_at s" "\<And>w. asMain s \<noteq> Naming w" "\<And>w. asMain t \<noteq> Naming w"
  shows "naming_inv t"
  using assms by (simp add: naming_inv_def)

lemma naming_inv_worker:
  assumes "naming_inv s" "w < length (asWorkers s)" "\<And>v. asWorkers s ! w \<noteq> Spinning v" "\<And>v. pc \<noteq> Spinning v"
    and "worker_at t = worker_at (set_worker w pc s)" "asMain t = asMain s"
  shows "naming_inv t"
proof -
  have "asMain s \<noteq> Naming w"
    using assms(1-3) unfolding naming_inv_def by (metis option.inject worker_at_def)
  then show ?thesis
    using assms(1,2,4) unfolding naming_inv_def assms(5,6) by (auto simp: worker_at_set)
qed

lemma accept_act_naming_inv:
  assumes inv: "naming_inv s" and a: "accept_act e s = Some t"
  shows "naming_inv t"
proof -
  have a': "accept_event_act e s = Some t" using a by (simp add: accept_act_def split: if_splits)
  show ?thesis
  proof (cases e)
    case Tests
    with inv a' show ?thesis by (auto simp: main_test_def naming_inv_def split: main_pc.splits if_splits)
  next
    case (Accepts v)
    with inv a' show ?thesis by (auto simp: main_accept_def naming_inv_def split: if_splits)
  next
    case (Spawns c)
    then obtain v where m: "asMain s = Counted v" using a' by (auto simp: main_spawn_def split: main_pc.splits)
    have len: "worker_at s (length (asWorkers s)) = None" by (simp add: worker_at_def)
    from Spawns m inv a' len show ?thesis
      by (auto simp: main_spawn_def naming_inv_def worker_at_spawn split: if_splits)
  next
    case Names
    then obtain w v where w: "asMain s = Naming w" "worker_at s w = Some (Spinning v)"
      "t = (set_worker w (Named v) s)\<lparr>asMain := Top\<rparr>"
      using a' by (auto simp: main_name_def split: main_pc.splits option.splits worker_pc.splits)
    with inv worker_at_lt [OF w(2)] show ?thesis by (auto simp: naming_inv_def worker_at_set)
  next
    case Drains
    with inv a' show ?thesis by (auto simp: main_drain_def naming_inv_def split: if_splits)
  next
    case (Wakes w)
    with inv a' show ?thesis by (auto split: option.splits worker_pc.splits)
  next
    case (Enters w)
    then obtain v where w: "worker_at s w = Some (Named v)"
      "t = (if v then (set_worker w Running s)\<lparr>asNodes := asNodes s @ [w]\<rparr> else s\<lparr>asCrashed := True\<rparr>)"
      using a' by (auto simp: worker_enter_def split: option.splits worker_pc.splits)
    show ?thesis
    proof (cases v)
      case True
      with w worker_at_lt [OF w(1)] show ?thesis by (intro naming_inv_worker [OF inv, of w Running]) simp_all
    qed (use w inv in \<open>simp add: naming_inv_def\<close>)
  next
    case (Leaves w)
    then have w: "worker_at s w = Some Running" "t = set_worker w Removed (removeNode w s)"
      using a' by (auto simp: node_dispose_def split: if_splits)
    with worker_at_lt [OF w(1)] show ?thesis
      by (intro naming_inv_worker [OF inv, of w Removed]) (simp_all add: removeNode_def worker_at_def set_worker_def fun_eq_iff)
  next
    case (Ends w)
    then have w: "worker_at s w = Some Removed" "t = (set_worker w Gone s)\<lparr>asThreadCount := asThreadCount s - 1\<rparr>"
      using a' by (auto simp: worker_end_def split: if_splits)
    with worker_at_lt [OF w(1)] show ?thesis by (intro naming_inv_worker [OF inv, of w Gone]) simp_all
  next
    case Stops
    with inv a' show ?thesis by (auto simp: server_stop_def naming_inv_def)
  qed
qed

interpretation naming_machine: step_machine run_starts accept_step naming_inv
  by unfold_locales (auto simp: run_starts_def naming_inv_start accept_step_iff dest: accept_act_naming_inv)

section \<open>The distance to the return\<close>

fun main_rank :: "main_pc \<Rightarrow> nat" where
  "main_rank Throttled = 5"
| "main_rank Accepting = 4"
| "main_rank (Naming _) = 4"
| "main_rank (Counted _) = 3"
| "main_rank Top = 3"
| "main_rank Closing = 2"
| "main_rank Draining = 1"
| "main_rank Returned = 0"

fun worker_rank :: "worker_pc \<Rightarrow> nat" where
  "worker_rank (Spinning _) = 4"
| "worker_rank (Named _) = 3"
| "worker_rank Running = 2"
| "worker_rank Removed = 1"
| "worker_rank Gone = 0"

definition stop_rank :: "accept_sys \<Rightarrow> nat" where
  "stop_rank s = main_rank (asMain s) + sum_list (map worker_rank (asWorkers s))"

text \<open>No null pointer has been handed over.\<close>

definition sockets_valid :: "accept_sys \<Rightarrow> bool" where
  "sockets_valid s \<longleftrightarrow> asMain s \<noteq> Counted False \<and> Spinning False \<notin> set (asWorkers s) \<and> Named False \<notin> set (asWorkers s)"

definition stopping :: "accept_sys \<Rightarrow> bool" where
  "stopping s \<longleftrightarrow> accept_inv s \<and> naming_inv s \<and> asStopSignal s \<and> \<not> asCrashed s \<and> sockets_valid s
    \<and> asFailed s \<le> unat (asThreadLimit s)"

lemma rank_update:
  "i < length xs \<Longrightarrow> sum_list (map f (xs[i := y])) + f (xs ! i) = sum_list (map f xs) + (f y :: nat)"
proof (induction xs arbitrary: i)
  case (Cons x xs)
  then show ?case by (cases i) auto
qed simp

lemma stop_rank_worker:
  assumes "worker_at s w = Some pc" "asWorkers t = asWorkers (set_worker w pc' s)" "worker_rank pc' < worker_rank pc"
    and "main_rank (asMain t) \<le> main_rank (asMain s)"
  shows "stop_rank t < stop_rank s"
  using rank_update [of w "asWorkers s" worker_rank pc'] worker_at_lt [OF assms(1)] assms(2-4)
  by (auto simp: stop_rank_def set_worker_def)

lemma stop_rank_main:
  "asWorkers t = asWorkers s \<Longrightarrow> main_rank (asMain t) < main_rank (asMain s) \<Longrightarrow> stop_rank t < stop_rank s"
  by (simp add: stop_rank_def)

lemma sockets_valid_worker:
  assumes "sockets_valid s" "asWorkers t = (asWorkers s)[w := pc]" "pc \<noteq> Spinning False" "pc \<noteq> Named False" "asMain t \<noteq> Counted False"
  shows "sockets_valid t"
  using assms set_update_subset_insert [of "asWorkers s" w pc] by (auto simp: sockets_valid_def)

lemma valid_worker: "sockets_valid s \<Longrightarrow> worker_at s w = Some pc \<Longrightarrow> pc \<noteq> Spinning False \<and> pc \<noteq> Named False"
  by (metis nth_mem sockets_valid_def worker_at_lt)

text \<open>As long as every accepted socket is valid, nothing crashes.\<close>

lemma valid_move:
  assumes s: "sockets_valid s" "\<not> asCrashed s" and a: "accept_act e s = Some t" and e: "e \<noteq> Accepts False"
  shows "sockets_valid t \<and> \<not> asCrashed t \<and> asThreadLimit t = asThreadLimit s \<and> (asStopSignal s \<longrightarrow> asStopSignal t)"
proof -
  have a': "accept_event_act e s = Some t" using a by (simp add: accept_act_def split: if_splits)
  show ?thesis
  proof (cases e)
    case Tests
    with a' s show ?thesis by (auto simp: main_test_def sockets_valid_def split: main_pc.splits if_splits)
  next
    case (Accepts v)
    with a' s e show ?thesis by (auto simp: main_accept_def sockets_valid_def split: if_splits)
  next
    case (Spawns c)
    with a' s show ?thesis by (auto simp: main_spawn_def sockets_valid_def split: main_pc.splits if_splits)
  next
    case Names
    then obtain w v where w: "worker_at s w = Some (Spinning v)" "t = (set_worker w (Named v) s)\<lparr>asMain := Top\<rparr>"
      using a' by (auto simp: main_name_def split: main_pc.splits option.splits worker_pc.splits)
    with s valid_worker [OF s(1) w(1)] sockets_valid_worker [OF s(1), of t w "Named v"] show ?thesis
      by (simp add: set_worker_def)
  next
    case Drains
    with a' s show ?thesis by (auto simp: main_drain_def sockets_valid_def split: if_splits)
  next
    case (Wakes w)
    with a' s show ?thesis by (auto split: option.splits worker_pc.splits)
  next
    case (Enters w)
    then obtain v where w: "worker_at s w = Some (Named v)"
      "t = (if v then (set_worker w Running s)\<lparr>asNodes := asNodes s @ [w]\<rparr> else s\<lparr>asCrashed := True\<rparr>)"
      using a' by (auto simp: worker_enter_def split: option.splits worker_pc.splits)
    moreover have v using valid_worker [OF s(1) w(1)] by simp
    moreover have "asMain s \<noteq> Counted False" using s(1) by (simp add: sockets_valid_def)
    ultimately show ?thesis
      using s sockets_valid_worker [OF s(1), of t w Running] by (simp add: set_worker_def)
  next
    case (Leaves w)
    then have "t = set_worker w Removed (removeNode w s)" using a' by (auto simp: node_dispose_def split: if_splits)
    moreover have "asMain s \<noteq> Counted False" using s(1) by (simp add: sockets_valid_def)
    ultimately show ?thesis using s sockets_valid_worker [OF s(1), of t w Removed] by (simp add: set_worker_def removeNode_def)
  next
    case (Ends w)
    then have "t = (set_worker w Gone s)\<lparr>asThreadCount := asThreadCount s - 1\<rparr>" using a' by (auto simp: worker_end_def split: if_splits)
    moreover have "asMain s \<noteq> Counted False" using s(1) by (simp add: sockets_valid_def)
    ultimately show ?thesis using s sockets_valid_worker [OF s(1), of t w Gone] by (simp add: set_worker_def)
  next
    case Stops
    with a' s show ?thesis by (auto simp: server_stop_def sockets_valid_def)
  qed
qed

section \<open>Every move comes nearer\<close>

lemma stopping_move:
  assumes st: "stopping s" and a: "accept_act e s = Some t" and e: "e \<noteq> Accepts False"
  shows "(t = s \<or> stop_rank t < stop_rank s) \<and> asFailed t = asFailed s"
proof -
  have s: "asStopSignal s" "\<not> asCrashed s" "sockets_valid s" using st by (simp_all add: stopping_def)
  have a': "accept_event_act e s = Some t" using a by (simp add: accept_act_def split: if_splits)
  show ?thesis
  proof (cases e)
    case Tests
    with a' s show ?thesis by (auto simp: main_test_def stop_rank_def split: main_pc.splits if_splits)
  next
    case (Accepts v)
    with a' s show ?thesis by (auto simp: main_accept_def stop_rank_def split: if_splits)
  next
    case (Spawns c)
    with a' s show ?thesis by (auto simp: main_spawn_def stop_rank_def sockets_valid_def split: main_pc.splits if_splits)
  next
    case Names
    then obtain w v where w: "asMain s = Naming w" "worker_at s w = Some (Spinning v)"
      "t = (set_worker w (Named v) s)\<lparr>asMain := Top\<rparr>"
      using a' by (auto simp: main_name_def split: main_pc.splits option.splits worker_pc.splits)
    have "stop_rank t < stop_rank s" using w by (intro stop_rank_worker [OF w(2), of t "Named v"]) (simp_all add: set_worker_def)
    with w(3) show ?thesis by (simp add: set_worker_def)
  next
    case Drains
    with a' s show ?thesis by (auto simp: main_drain_def stop_rank_def split: if_splits)
  next
    case (Wakes w)
    with a' s show ?thesis by (auto split: option.splits worker_pc.splits)
  next
    case (Enters w)
    then obtain v where w: "worker_at s w = Some (Named v)"
      "t = (if v then (set_worker w Running s)\<lparr>asNodes := asNodes s @ [w]\<rparr> else s\<lparr>asCrashed := True\<rparr>)"
      using a' by (auto simp: worker_enter_def split: option.splits worker_pc.splits)
    have v: v using valid_worker [OF s(3) w(1)] by simp
    have "stop_rank t < stop_rank s" using w v by (intro stop_rank_worker [OF w(1), of t Running]) (simp_all add: set_worker_def)
    with w(2) v show ?thesis by (simp add: set_worker_def)
  next
    case (Leaves w)
    then have w: "worker_at s w = Some Running" "t = set_worker w Removed (removeNode w s)"
      using a' by (auto simp: node_dispose_def split: if_splits)
    have "stop_rank t < stop_rank s" using w
      by (intro stop_rank_worker [OF w(1), of t Removed]) (simp_all add: set_worker_def removeNode_def)
    with w(2) show ?thesis by (simp add: set_worker_def removeNode_def)
  next
    case (Ends w)
    then have w: "worker_at s w = Some Removed" "t = (set_worker w Gone s)\<lparr>asThreadCount := asThreadCount s - 1\<rparr>"
      using a' by (auto simp: worker_end_def split: if_splits)
    have "stop_rank t < stop_rank s" using w by (intro stop_rank_worker [OF w(1), of t Gone]) (simp_all add: set_worker_def)
    with w(2) show ?thesis by (simp add: set_worker_def)
  next
    case Stops
    with a' s show ?thesis by (auto simp: server_stop_def)
  qed
qed

lemma stopping_step: "stopping s \<Longrightarrow> accept_act e s = Some t \<Longrightarrow> e \<noteq> Accepts False \<Longrightarrow> stopping t"
  using stopping_move [of s e t] valid_move [of s e t] accept_act_inv accept_act_naming_inv by (auto simp: stopping_def)

section \<open>There is always a move\<close>

definition nearer :: "accept_sys \<Rightarrow> accept_event \<Rightarrow> bool" where
  "nearer s e \<longleftrightarrow> e \<noteq> Accepts False \<and> (\<exists>t. accept_act e s = Some t \<and> stop_rank t < stop_rank s)"

lemma nearerI: "stopping s \<Longrightarrow> accept_act e s = Some t \<Longrightarrow> t \<noteq> s \<Longrightarrow> e \<noteq> Accepts False \<Longrightarrow> nearer s e"
  using stopping_move [of s e t] by (auto simp: nearer_def)

text \<open>A worker that has its name and has not ended can move, whatever the main thread does.\<close>

lemma worker_moves:
  assumes "stopping s" "worker_at s w = Some pc" "pc \<noteq> Gone" "asMain s \<noteq> Naming w"
  shows "\<exists>e. nearer s e"
proof -
  have s: "\<not> asCrashed s" "naming_inv s" "sockets_valid s" using assms(1) by (simp_all add: stopping_def)
  have "pc \<noteq> Spinning v" for v using s(2) assms(2,4) by (auto simp: naming_inv_def)
  with assms(3) valid_worker [OF s(3) assms(2)] consider "pc = Named True" | "pc = Running" | "pc = Removed"
    by (cases pc) auto
  then show ?thesis
  proof cases
    case 1
    let ?t = "(set_worker w Running s)\<lparr>asNodes := asNodes s @ [w]\<rparr>"
    have "accept_act (Enters w) s = Some ?t" using 1 assms(2) s(1) by (simp add: accept_act_def worker_enter_def)
    moreover have "stop_rank ?t < stop_rank s"
      using 1 by (intro stop_rank_worker [OF assms(2), of _ Running]) (simp_all add: set_worker_def)
    ultimately show ?thesis unfolding nearer_def by blast
  next
    case 2
    let ?t = "set_worker w Removed (removeNode w s)"
    have "accept_act (Leaves w) s = Some ?t" using 2 assms(2) s(1) by (simp add: accept_act_def node_dispose_def)
    moreover have "stop_rank ?t < stop_rank s"
      using 2 by (intro stop_rank_worker [OF assms(2), of _ Removed]) (simp_all add: set_worker_def removeNode_def)
    ultimately show ?thesis unfolding nearer_def by blast
  next
    case 3
    let ?t = "(set_worker w Gone s)\<lparr>asThreadCount := asThreadCount s - 1\<rparr>"
    have "accept_act (Ends w) s = Some ?t" using 3 assms(2) s(1) by (simp add: accept_act_def worker_end_def)
    moreover have "stop_rank ?t < stop_rank s"
      using 3 by (intro stop_rank_worker [OF assms(2), of _ Gone]) (simp_all add: set_worker_def)
    ultimately show ?thesis unfolding nearer_def by blast
  qed
qed

lemma main_moves:
  assumes "\<not> asCrashed s" "accept_event_act e s = Some t" "asWorkers t = asWorkers s"
    and "main_rank (asMain t) < main_rank (asMain s)" "e \<noteq> Accepts False"
  shows "nearer s e"
  unfolding nearer_def using assms stop_rank_main [OF assms(3,4)] by (auto simp: accept_act_def)

lemma live_worker:
  assumes "live s > 0"
  obtains w pc where "worker_at s w = Some pc" "pc \<noteq> Gone"
proof -
  obtain pc where "pc \<in> set (asWorkers s)" "pc \<noteq> Gone"
    using assms by (auto simp: live_def filter_empty_conv)
  then obtain w where "w < length (asWorkers s)" "asWorkers s ! w = pc" by (meson in_set_conv_nth)
  with that [of w pc] \<open>pc \<noteq> Gone\<close> show thesis by (simp add: worker_at_def)
qed

lemma stopping_progress:
  assumes st: "stopping s" and r: "asMain s \<noteq> Returned"
  shows "\<exists>e. nearer s e"
proof -
  have s: "asStopSignal s" "\<not> asCrashed s" "naming_inv s" "sockets_valid s" "asFailed s \<le> unat (asThreadLimit s)" "accept_inv s"
    using st by (simp_all add: stopping_def)
  show ?thesis
  proof (cases "asMain s")
    case Top
    with s show ?thesis by (intro exI [of _ Tests] main_moves [of s Tests "s\<lparr>asMain := Closing\<rparr>"]) (simp_all add: main_test_def)
  next
    case Throttled
    show ?thesis
    proof (cases "asThreadCount s \<le> asThreadLimit s")
      case True
      with Throttled s show ?thesis
        by (intro exI [of _ Tests] main_moves [of s Tests "s\<lparr>asMain := Accepting\<rparr>"]) (simp_all add: main_test_def not_less)
    next
      case False
      then have "unat (asThreadLimit s) < unat (asThreadCount s)" by (simp add: word_le_nat_alt)
      moreover have "unat (asThreadCount s) = live s + asFailed s" using s(6) Throttled by (simp add: accept_inv_def)
      ultimately have "live s > 0" using s(5) by linarith
      then obtain w pc where "worker_at s w = Some pc" "pc \<noteq> Gone" by (rule live_worker)
      with worker_moves [OF st] Throttled show ?thesis by simp
    qed
  next
    case Accepting
    with s show ?thesis
      by (intro exI [of _ "Accepts True"] main_moves [of s "Accepts True"
            "s\<lparr>asThreadCount := asThreadCount s + 1, asMain := Counted True\<rparr>"]) (simp_all add: main_accept_def)
  next
    case (Counted v)
    with s have v by (auto simp: sockets_valid_def)
    with Counted s show ?thesis
      by (intro exI [of _ "Spawns True"] main_moves [of s "Spawns True" "s\<lparr>asMain := Closing\<rparr>"]) (simp_all add: main_spawn_def)
  next
    case (Naming w)
    then obtain v where w: "worker_at s w = Some (Spinning v)" using s(3) by (auto simp: naming_inv_def)
    let ?t = "(set_worker w (Named v) s)\<lparr>asMain := Top\<rparr>"
    have "accept_act Names s = Some ?t" using Naming w s(2) by (simp add: accept_act_def main_name_def)
    moreover have "stop_rank ?t < stop_rank s"
      using Naming by (intro stop_rank_worker [OF w, of _ "Named v"]) (simp_all add: set_worker_def)
    ultimately show ?thesis unfolding nearer_def by blast
  next
    case Closing
    with s show ?thesis by (intro exI [of _ Tests] main_moves [of s Tests "s\<lparr>asMain := Draining\<rparr>"]) (simp_all add: main_test_def)
  next
    case Draining
    show ?thesis
    proof (cases "asNodes s")
      case Nil
      with Draining s show ?thesis
        by (intro exI [of _ Drains] main_moves [of s Drains "s\<lparr>asMain := Returned\<rparr>"]) (simp_all add: main_drain_def)
    next
      case (Cons w ws)
      then have "w \<in> set (asNodes s)" by simp
      then have "worker_at s w = Some Running" using s(6) unfolding accept_inv_def by blast
      with worker_moves [OF st] Draining show ?thesis by simp
    qed
  qed (use r in simp)
qed

lemma stopping_returns:
  "stopping s \<Longrightarrow> \<exists>es t. accept_run es s = Some t \<and> asMain t = Returned \<and> length es \<le> stop_rank s"
proof (induction "stop_rank s" arbitrary: s rule: less_induct)
  case less
  show ?case
  proof (cases "asMain s = Returned")
    case True
    then show ?thesis by (intro exI [of _ "[]"] exI [of _ s]) simp
  next
    case False
    with stopping_progress [OF less.prems] obtain e u where e: "e \<noteq> Accepts False" "accept_act e s = Some u" "stop_rank u < stop_rank s"
      unfolding nearer_def by blast
    with less.hyps [of u] stopping_step [OF less.prems e(2,1)] obtain es t where
      "accept_run es u = Some t" "asMain t = Returned" "length es \<le> stop_rank u" by blast
    with e show ?thesis by (intro exI [of _ "e # es"] exI [of _ t]) simp
  qed
qed

text \<open>Out of the wait for a connection there is no way but a connection.\<close>

lemma accept_needs_connection:
  assumes "accept_run es s = Some t" "asMain s \<in> {Throttled, Accepting}" "asMain t = Returned"
  shows "\<exists>v. Accepts v \<in> set es"
  using assms
proof (induction es arbitrary: s)
  case (Cons e es)
  then obtain u where u: "accept_act e s = Some u" "accept_run es u = Some t" by (auto split: option.splits)
  show ?case
  proof (cases "\<exists>v. e = Accepts v")
    case False
    then have "asMain u \<in> {Throttled, Accepting}"
      using u(1) Cons.prems(2)
      by (cases e) (auto simp: accept_act_def main_test_def main_spawn_def main_name_def main_drain_def worker_enter_def
          node_dispose_def removeNode_def worker_end_def server_stop_def
          split: if_splits main_pc.splits option.splits worker_pc.splits)
    with Cons.IH [OF u(2)] Cons.prems(3) show ?thesis by auto
  qed auto
qed auto

end
