(* ===== verification/Stop_Connection.thy ===== *)
theory Stop_Connection
  imports Stop_Progress
begin

text \<open>
  The port of the server (\<open>CServer::run\<close> and \<open>CServer::stop\<close>, \<open>src/server/CServer.cpp\<close>). The loop of
  \<open>Accept_Loop\<close> takes its connections from the backlog of the listening socket; \<open>stop\<close> sets the signal
  and then makes a connection itself, which brings the main thread out of \<open>accept\<close>. No server of this
  library sets a filter, so every socket that \<open>accept\<close> returns is valid.
\<close>

section \<open>The listening socket\<close>

text \<open>Beside the threads: whether the socket listens, the connections nobody has accepted, and the calls
  of \<open>stop\<close> that have set the signal and not connected yet.\<close>

record port_sys =
  ptLoop :: accept_sys
  ptListening :: bool
  ptBacklog :: nat
  ptStopping :: nat

definition SOMAXCONN :: nat where
  "SOMAXCONN = 4096"

definition port_start :: "32 word \<Rightarrow> port_sys" where
  "port_start limit = \<lparr>ptLoop = run_start limit, ptListening = False, ptBacklog = 0, ptStopping = 0\<rparr>"

text \<open>A connection to a socket that does not listen is refused.\<close>

definition connect_port :: "port_sys \<Rightarrow> port_sys" where
  "connect_port p = (if ptListening p then p\<lparr>ptBacklog := min SOMAXCONN (Suc (ptBacklog p))\<rparr> else p)"

text \<open>The main thread calls \<open>listen\<close> on its way from the wait for the limit to \<open>accept\<close>, and closes the
  socket when it leaves the loop.\<close>

definition port_moved :: "accept_sys \<Rightarrow> port_sys \<Rightarrow> port_sys" where
  "port_moved s p =
    (if asMain s = Accepting then p\<lparr>ptLoop := s, ptListening := True\<rparr>
     else if asMain s \<in> {Draining, Returned} then p\<lparr>ptLoop := s, ptListening := False, ptBacklog := 0\<rparr>
     else p\<lparr>ptLoop := s\<rparr>)"

text \<open>The steps: a peer connects, a thread of the server moves, the main thread takes a connection, a call
  of \<open>stop\<close> sets the signal, and one connects.\<close>

datatype port_event = Peer | Moves accept_event | Takes | Sets_Stop | Connects

fun port_move :: "accept_event \<Rightarrow> port_sys \<Rightarrow> port_sys option" where
  "port_move (Accepts _) p = None"
| "port_move Stops p = None"
| "port_move e p = map_option (\<lambda>s. port_moved s p) (accept_act e (ptLoop p))"

definition stop_flag :: "port_sys \<Rightarrow> port_sys option" where
  "stop_flag p = map_option (\<lambda>s. p\<lparr>ptLoop := s, ptStopping := Suc (ptStopping p)\<rparr>) (accept_act Stops (ptLoop p))"

definition stop_connect :: "port_sys \<Rightarrow> port_sys option" where
  "stop_connect p = (if ptStopping p = 0 then None else Some ((connect_port p)\<lparr>ptStopping := ptStopping p - 1\<rparr>))"

text \<open>The whole of \<open>stop\<close>, when nothing comes between. Its socket is its own and is closed at once; the
  connection stays in the backlog.\<close>

definition port_stop :: "port_sys \<Rightarrow> port_sys option" where
  "port_stop p = Option.bind (stop_flag p) stop_connect"

fun port_act :: "port_event \<Rightarrow> port_sys \<Rightarrow> port_sys option" where
  "port_act Peer p = Some (connect_port p)"
| "port_act (Moves e) p = port_move e p"
| "port_act Takes p = (if ptBacklog p = 0 then None
     else map_option (\<lambda>s. (port_moved s p)\<lparr>ptBacklog := ptBacklog p - 1\<rparr>) (accept_act (Accepts True) (ptLoop p)))"
| "port_act Sets_Stop p = stop_flag p"
| "port_act Connects p = stop_connect p"

fun port_run :: "port_event list \<Rightarrow> port_sys \<Rightarrow> port_sys option" where
  "port_run [] p = Some p"
| "port_run (e # es) p = Option.bind (port_act e p) (port_run es)"

lemma port_stop_run: "port_stop p = port_run [Sets_Stop, Connects] p"
proof -
  have "port_run [Connects] r = stop_connect r" for r by (cases "stop_connect r") simp_all
  then show ?thesis by (cases "stop_flag p") (simp_all add: port_stop_def del: port_run.simps(2), simp_all)
qed

inductive port_step :: "port_sys \<Rightarrow> port_sys \<Rightarrow> bool" where
  moves: "port_act e p = Some q \<Longrightarrow> port_step p q"

lemma port_run_steps: "port_run es p = Some q \<Longrightarrow> port_step\<^sup>*\<^sup>* p q"
proof (induction es arbitrary: p)
  case (Cons e es)
  then obtain r where "port_act e p = Some r" "port_run es r = Some q" by (auto simp: bind_eq_Some_conv)
  with Cons.IH show ?case by (meson converse_rtranclp_into_rtranclp port_step.moves)
qed simp

section \<open>What holds at every moment\<close>

text \<open>A step of the port is a step of the loop, or leaves the loop alone.\<close>

lemma port_move_loop:
  "port_move e p = Some q \<Longrightarrow> \<exists>s. q = port_moved s p \<and> accept_act e (ptLoop p) = Some s \<and> e \<noteq> Stops \<and> (\<forall>v. e \<noteq> Accepts v)"
  by (cases e) auto

lemma port_moved_loop [simp]: "ptLoop (port_moved s p) = s" "ptStopping (port_moved s p) = ptStopping p"
  by (simp_all add: port_moved_def)

lemma connect_port_loop [simp]: "ptLoop (connect_port p) = ptLoop p" "ptListening (connect_port p) = ptListening p"
  "ptStopping (connect_port p) = ptStopping p"
  by (simp_all add: connect_port_def)

lemma port_act_loop:
  assumes "port_act e p = Some q"
  obtains "ptLoop q = ptLoop p" | e1 where "accept_act e1 (ptLoop p) = Some (ptLoop q)" "e1 \<noteq> Accepts False"
proof (cases e)
  case (Moves e1)
  with assms port_move_loop [of e1 p q] that(2) [of e1] show thesis by auto
next
  case Takes
  with assms that(2) [of "Accepts True"] show thesis by (auto split: if_splits)
next
  case Sets_Stop
  with assms that(2) [of Stops] show thesis by (auto simp: stop_flag_def)
qed (use assms that(1) in \<open>auto simp: stop_connect_def split: if_splits\<close>)

definition port_starts :: "port_sys \<Rightarrow> bool" where
  "port_starts p \<longleftrightarrow> run_starts (ptLoop p) \<and> p = port_start (asThreadLimit (ptLoop p))"

definition port_inv :: "port_sys \<Rightarrow> bool" where
  "port_inv p \<longleftrightarrow> accept_inv (ptLoop p) \<and> naming_inv (ptLoop p) \<and> sockets_valid (ptLoop p) \<and> \<not> asCrashed (ptLoop p)"

lemma port_act_inv:
  assumes "port_inv p" "port_act e p = Some q"
  shows "port_inv q"
  using assms(2)
proof (rule port_act_loop)
  fix e1
  assume "accept_act e1 (ptLoop p) = Some (ptLoop q)" "e1 \<noteq> Accepts False"
  with assms(1) show "port_inv q"
    using accept_act_inv accept_act_naming_inv valid_move unfolding port_inv_def by blast
qed (use assms(1) in \<open>simp add: port_inv_def\<close>)

interpretation port_machine: step_machine port_starts port_step port_inv
proof unfold_locales
  fix p assume "port_starts p"
  then have r: "run_starts (ptLoop p)" "ptLoop p = run_start (asThreadLimit (ptLoop p))"
    unfolding port_starts_def by (simp, metis port_start_def port_sys.select_convs(1))
  have "sockets_valid (ptLoop p) \<and> \<not> asCrashed (ptLoop p)"
    by (subst (1 2) r(2)) (simp add: sockets_valid_def run_start_def)
  with r show "port_inv p"
    using accept_machine.inv_start naming_machine.inv_start by (simp add: port_inv_def)
next
  fix p q assume "port_inv p" "port_step p q"
  then show "port_inv q" by (auto elim!: port_step.cases intro: port_act_inv)
qed

section \<open>After the signal\<close>

text \<open>When the signal finds the socket listening, the main thread does not wait for anybody: there is a
  connection for it, or a call of \<open>stop\<close> is about to make one.\<close>

definition heard :: "port_sys \<Rightarrow> bool" where
  "heard p \<longleftrightarrow> asStopSignal (ptLoop p) \<and> (asMain (ptLoop p) \<in> {Throttled, Accepting} \<longrightarrow>
    ptListening p \<and> (ptBacklog p > 0 \<or> ptStopping p > 0))"

lemma move_stays_out:
  assumes "accept_act e s = Some t" "asStopSignal s" "\<forall>v. e \<noteq> Accepts v"
  shows "asMain t \<in> {Throttled, Accepting} \<longrightarrow> asMain s \<in> {Throttled, Accepting}"
  using assms by (cases e) (auto simp: accept_act_def main_test_def main_spawn_def main_name_def main_drain_def worker_enter_def
      node_dispose_def removeNode_def worker_end_def server_stop_def set_worker_def
      split: if_splits main_pc.splits option.splits worker_pc.splits)

lemma heard_step:
  assumes "heard p" "port_inv p" "port_act e p = Some q"
  shows "heard q"
proof (cases e)
  case (Moves e1)
  then obtain s where m: "q = port_moved s p" "accept_act e1 (ptLoop p) = Some s" "\<forall>v. e1 \<noteq> Accepts v"
    using assms(3) port_move_loop [of e1 p q] by auto
  with assms(1) move_stays_out [OF m(2) _ m(3)] valid_move [OF _ _ m(2)] assms(2) show ?thesis
    by (auto simp: heard_def port_moved_def port_inv_def)
next
  case Takes
  with assms show ?thesis
    by (auto simp: heard_def accept_act_def main_accept_def split: if_splits)
qed (use assms in \<open>auto simp: heard_def stop_flag_def stop_connect_def connect_port_def SOMAXCONN_def accept_act_def server_stop_def split: if_splits\<close>)

lemma stop_heard:
  assumes "stop_flag p = Some q" "ptListening p"
  shows "heard q"
  using assms by (auto simp: stop_flag_def accept_act_def server_stop_def heard_def split: if_splits)

section \<open>The way to the return\<close>

definition port_rank :: "port_sys \<Rightarrow> nat" where
  "port_rank p = stop_rank (ptLoop p) + ptStopping p"

definition port_stopping :: "port_sys \<Rightarrow> bool" where
  "port_stopping p \<longleftrightarrow> heard p \<and> port_inv p \<and> asFailed (ptLoop p) \<le> unat (asThreadLimit (ptLoop p))"

lemma port_stopping_loop: "port_stopping p \<Longrightarrow> stopping (ptLoop p)"
  by (simp add: port_stopping_def heard_def port_inv_def stopping_def)

lemma port_stopping_step:
  assumes "port_stopping p" "port_act e p = Some q"
  shows "port_stopping q"
proof -
  have "asFailed (ptLoop q) \<le> unat (asThreadLimit (ptLoop q))"
    using assms(2)
  proof (rule port_act_loop)
    fix e1
    assume "accept_act e1 (ptLoop p) = Some (ptLoop q)" "e1 \<noteq> Accepts False"
    with stopping_step [OF port_stopping_loop [OF assms(1)]] show ?thesis by (simp add: stopping_def)
  qed (use assms(1) in \<open>simp add: port_stopping_def\<close>)
  then show ?thesis using assms heard_step [of p e q] port_act_inv [of p e q] by (simp add: port_stopping_def)
qed

lemma port_nearer:
  assumes "port_stopping p" "port_act e p = Some q" "e \<noteq> Sets_Stop"
  shows "ptLoop q = ptLoop p \<and> ptStopping q = ptStopping p \<or> port_rank q < port_rank p"
proof (cases e)
  case (Moves e1)
  then obtain s where m: "q = port_moved s p" "accept_act e1 (ptLoop p) = Some s" "\<forall>v. e1 \<noteq> Accepts v"
    using assms(2) port_move_loop [of e1 p q] by auto
  with stopping_move [OF port_stopping_loop [OF assms(1)] m(2)] show ?thesis by (auto simp: port_rank_def)
next
  case Takes
  then obtain s where m: "q = (port_moved s p)\<lparr>ptBacklog := ptBacklog p - 1\<rparr>" "accept_act (Accepts True) (ptLoop p) = Some s"
    using assms(2) by (auto split: if_splits)
  with stopping_move [OF port_stopping_loop [OF assms(1)] m(2)] show ?thesis by (auto simp: port_rank_def)
qed (use assms in \<open>auto simp: stop_connect_def port_rank_def split: if_splits\<close>)

text \<open>A move of the loop that brings it nearer is a move of the port, or one is missing that makes it possible.\<close>

lemma nearer_port:
  assumes st: "port_stopping p" and "nearer (ptLoop p) e1"
  obtains e q where "e \<notin> {Peer, Sets_Stop, Moves (Spawns True)}" "port_act e p = Some q" "port_rank q < port_rank p"
proof -
  from assms(2) obtain s where e1: "e1 \<noteq> Accepts False" "accept_act e1 (ptLoop p) = Some s" "stop_rank s < stop_rank (ptLoop p)"
    unfolding nearer_def by blast
  have sig: "asStopSignal (ptLoop p)" using st by (simp add: port_stopping_def heard_def)
  consider "e1 = Accepts True" | "e1 = Stops" | "e1 = Spawns True" | "\<forall>v. e1 \<noteq> Accepts v" "e1 \<noteq> Stops" "e1 \<noteq> Spawns True"
    using e1(1) by (metis (full_types))
  then show thesis
  proof cases
    case 1
    with e1(2) have "asMain (ptLoop p) = Accepting" by (auto simp: accept_act_def main_accept_def split: if_splits)
    with st consider "ptBacklog p > 0" | "ptStopping p > 0" by (auto simp: port_stopping_def heard_def)
    then show thesis
    proof cases
      case 1
      with e1 \<open>e1 = Accepts True\<close> show thesis by (intro that [of Takes]) (auto simp: port_rank_def)
    next
      case 2
      then show thesis by (intro that [of Connects]) (auto simp: stop_connect_def port_rank_def)
    qed
  next
    case 2
    with e1 show thesis by (auto simp: accept_act_def server_stop_def stop_rank_def split: if_splits)
  next
    case 3
    with e1(2) sig have "accept_act (Spawns False) (ptLoop p) = Some s"
      by (auto simp: accept_act_def main_spawn_def split: if_splits main_pc.splits)
    with e1(3) show thesis by (intro that [of "Moves (Spawns False)"]) (auto simp: port_rank_def)
  next
    case 4
    then have "port_move e1 p = Some (port_moved s p)" using e1(2) by (cases e1) auto
    with e1(3) 4 show thesis by (intro that [of "Moves e1"]) (auto simp: port_rank_def)
  qed
qed

lemma port_progress:
  assumes "port_stopping p" "asMain (ptLoop p) \<noteq> Returned \<or> live (ptLoop p) > 0"
  obtains e q where "e \<notin> {Peer, Sets_Stop, Moves (Spawns True)}" "port_act e p = Some q" "port_rank q < port_rank p"
proof -
  note st = port_stopping_loop [OF assms(1)]
  have "\<exists>e. nearer (ptLoop p) e"
  proof (cases "asMain (ptLoop p) = Returned")
    case True
    with assms(2) obtain w pc where "worker_at (ptLoop p) w = Some pc" "pc \<noteq> Gone" using live_worker by blast
    with worker_moves [OF st] True show ?thesis by simp
  next
    case False
    then show ?thesis by (rule stopping_progress [OF st])
  qed
  with nearer_port [OF assms(1)] that show thesis by metis
qed

lemma port_returns:
  "port_stopping p \<Longrightarrow> \<exists>es q. {Peer, Sets_Stop} \<inter> set es = {} \<and> port_run es p = Some q \<and> asMain (ptLoop q) = Returned
    \<and> length es \<le> port_rank p"
proof (induction "port_rank p" arbitrary: p rule: less_induct)
  case less
  show ?case
  proof (cases "asMain (ptLoop p) = Returned")
    case True
    then show ?thesis by (intro exI [of _ "[]"] exI [of _ p]) simp
  next
    case False
    then obtain e r where e: "e \<notin> {Peer, Sets_Stop}" "port_act e p = Some r" "port_rank r < port_rank p"
      using port_progress [OF less.prems] by (metis insert_iff)
    with less.hyps [of r] port_stopping_step [OF less.prems e(2)] obtain es q where
      "{Peer, Sets_Stop} \<inter> set es = {}" "port_run es r = Some q" "asMain (ptLoop q) = Returned" "length es \<le> port_rank r" by blast
    with e show ?thesis by (intro exI [of _ "e # es"] exI [of _ q]) auto
  qed
qed

lemma heard_run:
  "heard p \<Longrightarrow> port_inv p \<Longrightarrow> port_run es p = Some q \<Longrightarrow> heard q \<and> port_inv q"
proof (induction es arbitrary: p)
  case (Cons e es)
  then show ?case by (auto simp: bind_eq_Some_conv dest: heard_step port_act_inv)
qed simp

text \<open>A signal that comes before the socket listens for the first time is not heard: the connection of
  \<open>stop\<close> is refused, and the main thread, past its test of the signal, waits until somebody connects.\<close>

lemma nobody_connects:
  assumes "port_run es p = Some q" "{Peer, Sets_Stop} \<inter> set es = {}"
    and "asMain (ptLoop p) \<in> {Throttled, Accepting}" "ptBacklog p = 0" "ptStopping p = 0"
  shows "asMain (ptLoop q) \<in> {Throttled, Accepting}"
  using assms
proof (induction es arbitrary: p)
  case (Cons e es)
  then obtain r where r: "port_act e p = Some r" "port_run es r = Some q" by (auto simp: bind_eq_Some_conv)
  obtain e1 where e: "e = Moves e1"
    using Cons.prems r(1) by (cases e) (auto simp: stop_connect_def)
  with r(1) obtain s where s: "r = port_moved s p" "accept_act e1 (ptLoop p) = Some s" "\<forall>v. e1 \<noteq> Accepts v"
    using port_move_loop [of e1 p r] by auto
  have "asMain s \<in> {Throttled, Accepting}"
    using s(2,3) Cons.prems(3) by (cases e1) (auto simp: accept_act_def main_test_def main_spawn_def main_name_def main_drain_def
        worker_enter_def node_dispose_def removeNode_def worker_end_def server_stop_def set_worker_def
        split: if_splits main_pc.splits option.splits worker_pc.splits)
  with s(1) Cons.prems(4,5) have "asMain (ptLoop r) \<in> {Throttled, Accepting}" "ptBacklog r = 0" "ptStopping r = 0"
    by (auto simp: port_moved_def)
  with Cons.IH [OF r(2)] Cons.prems(2) show ?case by auto
qed auto

lemma signal_before_listen:
  "\<exists>p. port_run [Moves Tests, Sets_Stop, Connects, Moves Tests] (port_start 25) = Some p \<and> asStopSignal (ptLoop p) \<and>
    (\<forall>es q. port_run es p = Some q \<and> {Peer, Sets_Stop} \<inter> set es = {} \<longrightarrow> asMain (ptLoop q) \<noteq> Returned)"
proof -
  have w: "case port_run [Moves Tests, Sets_Stop, Connects, Moves Tests] (port_start 25) of None \<Rightarrow> False
    | Some p \<Rightarrow> asStopSignal (ptLoop p) \<and> asMain (ptLoop p) = Accepting \<and> ptBacklog p = 0 \<and> ptStopping p = 0" by code_simp
  then obtain p where p: "port_run [Moves Tests, Sets_Stop, Connects, Moves Tests] (port_start 25) = Some p"
    by (auto split: option.splits)
  note f = w [unfolded p option.case]
  have "asMain (ptLoop q) \<noteq> Returned" if "port_run es p = Some q \<and> {Peer, Sets_Stop} \<inter> set es = {}" for es q
    using nobody_connects [of es p q] that f by auto
  with p f show ?thesis by blast
qed

text \<open>\<open>stop\<close> brings \<open>run\<close> to its return without any help from outside. If the signal is set
  at a moment when the socket listens, then at every later moment each move of a thread that changes
  anything brings the return nearer, until it has happened there is such a move, and at most \<open>port_rank\<close>
  moves of the server's own threads lead to it: \<open>stop\<close> has made the connection the main thread waits for,
  whatever peers connect meanwhile. The thread creations that have failed may not exceed the limit.\<close>

theorem stop_ends_run:
  assumes "port_starts p0" and "port_run es p0 = Some p" and "ptListening p"
    and "port_run (Sets_Stop # es1) p = Some q" and "asFailed (ptLoop q) \<le> unat (asThreadLimit (ptLoop q))"
  shows "(\<forall>e r. port_act e q = Some r \<and> e \<noteq> Sets_Stop \<longrightarrow>
        ptLoop r = ptLoop q \<and> ptStopping r = ptStopping q \<or> port_rank r < port_rank q)
    \<and> (asMain (ptLoop q) \<noteq> Returned \<longrightarrow>
        (\<exists>e r. e \<notin> {Peer, Sets_Stop} \<and> port_act e q = Some r \<and> port_rank r < port_rank q))
    \<and> (\<exists>es2 r. {Peer, Sets_Stop} \<inter> set es2 = {} \<and> port_run es2 q = Some r \<and> asMain (ptLoop r) = Returned
        \<and> length es2 \<le> port_rank q)"
proof -
  have p: "port_inv p" by (rule port_machine.inv_reachable [OF port_run_steps [OF assms(2)] assms(1)])
  obtain q0 where q0: "stop_flag p = Some q0" "port_run es1 q0 = Some q" using assms(4) by (auto simp: bind_eq_Some_conv)
  from q0(1) port_act_inv [OF p, of Sets_Stop] have "port_inv q0" by simp
  with heard_run [OF stop_heard [OF q0(1) assms(3)] _ q0(2)] assms(5) have st: "port_stopping q"
    by (simp add: port_stopping_def)
  have "\<exists>e r. e \<notin> {Peer, Sets_Stop} \<and> port_act e q = Some r \<and> port_rank r < port_rank q" if "asMain (ptLoop q) \<noteq> Returned"
    using port_progress [OF st] that by (metis insert_iff)
  with port_nearer [OF st] port_returns [OF st] show ?thesis by blast
qed

lemma stop_ends_run_witness:
  "\<exists>q es r. port_run [Moves Tests, Moves Tests, Peer, Takes, Moves (Spawns True), Moves Names, Moves (Enters 0), Sets_Stop] (port_start 25) = Some q
    \<and> port_run es q = Some r \<and> asMain (ptLoop r) = Returned \<and> length es \<le> 6 \<and> Peer \<notin> set es"
proof -
  let ?es = "[Moves Tests, Moves Tests, Peer, Takes, Moves (Spawns True), Moves Names, Moves (Enters 0)]"
  have w: "case port_run ?es (port_start 25) of None \<Rightarrow> False
    | Some p \<Rightarrow> ptListening p \<and> (case port_run [Sets_Stop] p of None \<Rightarrow> False
      | Some q \<Rightarrow> port_run (?es @ [Sets_Stop]) (port_start 25) = Some q \<and> asFailed (ptLoop q) = 0 \<and> asMain (ptLoop q) = Top
          \<and> asWorkers (ptLoop q) = [Running] \<and> ptStopping q = 1)"
    by code_simp
  then obtain p q where pq: "port_run ?es (port_start 25) = Some p" "port_run [Sets_Stop] p = Some q" by (auto split: option.splits)
  note f = w [unfolded pq option.case]
  have s: "port_starts (port_start 25)" using run_starts_25 by (simp add: port_starts_def port_start_def run_start_def)
  have rank: "port_rank q = 6" using f by (simp add: port_rank_def stop_rank_def)
  from stop_ends_run [OF s pq(1) _ pq(2)] f have "\<exists>es r. {Peer, Sets_Stop} \<inter> set es = {} \<and> port_run es q = Some r
      \<and> asMain (ptLoop r) = Returned \<and> length es \<le> port_rank q" by simp
  then show ?thesis using f rank by auto
qed

end
