(* ===== verification/Server_Core_Facts.thy ===== *)
theory Server_Core_Facts
  imports Server_Core
begin

text \<open>
  What the server's registries and its static files promise: confinement of the file lookup to
  the registered directories, what a served file carries, the order of the indexes, and the life
  of a session from \<open>startSession\<close> to \<open>destroySession\<close>.
\<close>

section \<open>Confinement\<close>

text \<open>The file names the server may look at: a registered directory, \<open>/\<close>, and no \<open>..\<close>.\<close>

definition confined :: "server \<Rightarrow> string \<Rightarrow> bool" where
  "confined srv q \<longleftrightarrow>
    (\<exists>ep \<in> set (srvStaticEndpoints srv). \<exists>p. q = sePath ep @ ''/'' @ p \<and> find_str ''..'' p = None)"

text \<open>Two file systems that agree on those names.\<close>

definition same_view :: "server \<Rightarrow> os \<Rightarrow> os \<Rightarrow> bool" where
  "same_view srv fs gs \<longleftrightarrow>
    (\<forall>q. confined srv q \<longrightarrow> files fs q = files gs q \<and> mtimes fs q = mtimes gs q)"

text \<open>Both runs give \<open>r\<close>, with the same handles opened, and \<open>r\<close> names a confined file.\<close>

definition same_run :: "server \<Rightarrow> (os, MEndpoint option) act \<Rightarrow> os \<Rightarrow> os \<Rightarrow> bool" where
  "same_run srv a fs gs \<longleftrightarrow>
    (\<exists>r k. a fs = (r, fs\<lparr>handles := handles fs + k\<rparr>) \<and> a gs = (r, gs\<lparr>handles := handles gs + k\<rparr>) \<and>
      (\<forall>ep. r = Inr (Some ep) \<longrightarrow> confined srv (epPath ep)))"

lemma same_run_pure: "(\<And>s. a s = (r, s)) \<Longrightarrow> \<forall>ep. r \<noteq> Inr (Some ep) \<Longrightarrow> same_run srv a fs gs"
  unfolding same_run_def by (intro exI [of _ r] exI [of _ 0]) simp

lemma find_str_take: "find_str pat s = None \<Longrightarrow> find_str pat (take n s) = None"
  unfolding find_str_None by (metis append.assoc append_take_drop_id)

lemma readTextFile_same: "files fs q = files gs q \<Longrightarrow> fst (readTextFile q fs) = fst (readTextFile q gs)"
  by (simp add: readTextFile_content)

lemma load_static_same:
  assumes "confined srv dpath" "same_view srv fs gs"
  shows "same_run srv (load_static b t ext dpath m) fs gs"
proof -
  have same: "files gs dpath = files fs dpath" "mtimes gs dpath = mtimes fs dpath"
    using assms by (auto simp: same_view_def)
  show ?thesis
  proof (cases "files fs dpath")
    case None
    then show ?thesis
      using same by (auto simp: same_run_def load_static_def intro!: exI [of _ "Inr None"] exI [of _ 0])
  next
    case (Some c)
    then have text': "readTextFile dpath fs = (c, fs)" "readTextFile dpath gs = (c, gs)"
      using same by (simp_all add: readTextFile_content)
    define r where "r = returned (readBinary_loop c (length c) 0 512 b [])"
    have bin: "readBinaryFile b dpath fs = (r, fs\<lparr>handles := handles fs + 1\<rparr>)"
      "readBinaryFile b dpath gs = (r, gs\<lparr>handles := handles gs + 1\<rparr>)"
      using Some same by (simp_all add: readBinaryFile_def r_def)
    consider (readable) t' where "t = Some t'" "mtIsText t'" | (binary) "\<forall>t'. t = Some t' \<longrightarrow> \<not> mtIsText t'"
      by blast
    then show ?thesis
    proof cases
      case readable
      then show ?thesis
        using Some same assms(1) unfolding same_run_def
        by (intro exI [of _ "fst (load_static b t ext dpath m fs)"] exI [of _ 0])
          (simp add: load_static_def text' getFileModTime_def static_MEndpoint_def)
    next
      case binary
      then show ?thesis
        using Some same assms(1) unfolding same_run_def
        by (intro exI [of _ "fst (load_static b t ext dpath m fs)"] exI [of _ 1])
          (auto simp: load_static_def bin getFileModTime_def static_MEndpoint_def
            split: option.split sum.split list.split)
    qed
  qed
qed

lemma static_path_registered:
  assumes "static_path shost srv \<noteq> []"
  shows "\<exists>ep \<in> set (srvStaticEndpoints srv). static_path shost srv = sePath ep \<and> host_matches shost ep"
proof (cases "find (host_matches shost) (srvStaticEndpoints srv)")
  case None
  then show ?thesis using assms unfolding static_path_def None by simp
next
  case (Some ep)
  then show ?thesis using find_SomeD [OF Some] by (auto simp: static_path_def)
qed

lemma getStaticFile_same:
  assumes "find_str ''..'' path = None" "same_view srv fs gs"
  shows "same_run srv (getStaticFile srv b path m h) fs gs"
proof -
  let ?shost = "case h of Some x \<Rightarrow> strtolower x | None \<Rightarrow> []"
  let ?sp = "static_path ?shost srv"
  let ?f = "take (u32 (as_size (find_ch (CHR ''?'') path))) path"
  show ?thesis
  proof (cases "?sp = []")
    case True
    then have "getStaticFile srv b path m h = (\<lambda>s. (Inr None, s))"
      by (simp add: getStaticFile_def fun_eq_iff)
    then show ?thesis by (simp add: same_run_pure)
  next
    case False
    then obtain ep where ep: "ep \<in> set (srvStaticEndpoints srv)" "?sp = sePath ep"
      using static_path_registered by blast
    then have "confined srv (?sp @ ''/'' @ ?f)"
      using find_str_take [OF assms(1)] by (auto simp: confined_def)
    from load_static_same [OF this assms(2)] False show ?thesis
      by (simp add: same_run_def getStaticFile_def Let_def)
  qed
qed

lemma same_view_handles:
  "same_view srv (fs\<lparr>handles := k\<rparr>) (gs\<lparr>handles := l\<rparr>) = same_view srv fs gs"
  by (simp add: same_view_def)

lemma static_lookup_same:
  "\<forall>gs. same_view srv fs gs \<longrightarrow> same_run srv (getStaticEndpoint srv b path m h) fs gs"
  "\<forall>gs. same_view srv fs gs \<longrightarrow> same_run srv (getStaticIndex srv b path m h its) fs gs"
proof (induction srv b path m h fs and srv b path m h its fs rule: getStaticEndpoint_getStaticIndex.induct)
  case (1 srv b path m h fs)
  consider (dots) "find_str ''..'' path \<noteq> None" | (empty) "find_str ''..'' path = None" "path = []"
    | (slash) "find_str ''..'' path = None" "path \<noteq> []" "last path = CHR ''/''"
    | (regular) "find_str ''..'' path = None" "path \<noteq> []" "last path \<noteq> CHR ''/''" by blast
  then show ?case
  proof cases
    case dots
    then have "same_run srv (getStaticEndpoint srv b path m h) fs gs" for gs
      by (intro same_run_pure [of _ "Inr None"]) (simp_all add: getStaticEndpoint.simps)
    then show ?thesis by blast
  next
    case empty
    then have "same_run srv (getStaticEndpoint srv b path m h) fs gs" for gs
      by (intro same_run_pure [of _ "Inl WildAccess"]) (simp_all add: getStaticEndpoint.simps)
    then show ?thesis by blast
  next
    case slash
    with 1 have "\<forall>gs. same_view srv fs gs \<longrightarrow>
        same_run srv (getStaticIndex srv b path m h (srvStaticIndexes srv)) fs gs" by simp
    then show ?thesis using slash by (simp add: same_run_def getStaticEndpoint.simps)
  next
    case regular
    then show ?thesis
      using getStaticFile_same [of path srv fs _ b m h] by (simp add: same_run_def getStaticEndpoint.simps)
  qed
next
  case (2 srv b path m h fs)
  have "same_run srv (getStaticIndex srv b path m h []) fs gs" for gs
    by (intro same_run_pure [of _ "Inr None"]) (simp_all add: getStaticIndex.simps)
  then show ?case by blast
next
  case (3 srv b path m h it its fs)
  show ?case
  proof (intro allI impI)
    fix gs assume view: "same_view srv fs gs"
    consider (empty) "it = []" | (slash) "it \<noteq> []" "last it = CHR ''/''"
      | (name) "it \<noteq> []" "last it \<noteq> CHR ''/''" by blast
    then show "same_run srv (getStaticIndex srv b path m h (it # its)) fs gs"
    proof cases
      case empty
      then show ?thesis
        by (intro same_run_pure [of _ "Inl WildAccess"]) (simp_all add: getStaticIndex.simps)
    next
      case slash
      with 3 view show ?thesis by (simp add: same_run_def getStaticIndex.simps)
    next
      case name
      with 3(2) view have "same_run srv (getStaticEndpoint srv b (path @ it) m h) fs gs" by simp
      then obtain r k where r: "getStaticEndpoint srv b (path @ it) m h fs = (r, fs\<lparr>handles := handles fs + k\<rparr>)"
          "getStaticEndpoint srv b (path @ it) m h gs = (r, gs\<lparr>handles := handles gs + k\<rparr>)"
          "\<forall>ep. r = Inr (Some ep) \<longrightarrow> confined srv (epPath ep)"
        by (auto simp: same_run_def)
      show ?thesis
      proof (cases "r = Inr None")
        case True
        have "same_view srv (fs\<lparr>handles := handles fs + k\<rparr>) (gs\<lparr>handles := handles gs + k\<rparr>)"
          using view by (simp add: same_view_handles)
        with r(1) name True 3(3) have "same_run srv (getStaticIndex srv b path m h its) (fs\<lparr>handles := handles fs + k\<rparr>)
            (gs\<lparr>handles := handles gs + k\<rparr>)" by simp
        then obtain r' k' where "getStaticIndex srv b path m h its (fs\<lparr>handles := handles fs + k\<rparr>) =
              (r', fs\<lparr>handles := handles fs + k + k'\<rparr>)"
            "getStaticIndex srv b path m h its (gs\<lparr>handles := handles gs + k\<rparr>) =
              (r', gs\<lparr>handles := handles gs + k + k'\<rparr>)"
            "\<forall>ep. r' = Inr (Some ep) \<longrightarrow> confined srv (epPath ep)"
          by (auto simp: same_run_def)
        with r name True show ?thesis
          unfolding same_run_def
          by (intro exI [of _ r'] exI [of _ "k + k'"]) (simp add: getStaticIndex.simps add.assoc)
      next
        case False
        with r name show ?thesis
          unfolding same_run_def
          by (intro exI [of _ r] exI [of _ k])
            (auto simp: getStaticIndex.simps split: sum.split option.split)
      qed
    qed
  qed
qed

text \<open>C6 (safety). The static file lookup is confined to the registered directories: whatever
  the path, its answer is the same in two file systems that agree on the names made of a
  registered directory, a slash and a text without \<open>..\<close>, and a file it serves has such a name.\<close>
theorem static_lookup_confined:
  assumes "same_view srv fs gs"
  shows "fst (getStaticEndpoint srv b path m h fs) = fst (getStaticEndpoint srv b path m h gs) \<and>
    pred_option (\<lambda>ep. confined srv (epPath ep))
      (case fst (getStaticEndpoint srv b path m h fs) of Inr r \<Rightarrow> r | Inl _ \<Rightarrow> None)"
proof -
  have "same_run srv (getStaticEndpoint srv b path m h) fs gs"
    using static_lookup_same(1) assms by blast
  then obtain r where r: "fst (getStaticEndpoint srv b path m h fs) = r"
      "fst (getStaticEndpoint srv b path m h gs) = r"
      "\<forall>ep. r = Inr (Some ep) \<longrightarrow> confined srv (epPath ep)"
    by (auto simp: same_run_def)
  show ?thesis unfolding r(1,2) using r(3) by (auto split: sum.split simp: pred_option_def)
qed

section \<open>What a served file carries\<close>

definition sample_fs :: os where
  "sample_fs = \<lparr>files = [''../static///a.html'' \<mapsto> ''<p>'', ''../static///index.html'' \<mapsto> ''<i>'',
      ''/etc/passwd'' \<mapsto> ''root''], mtimes = (\<lambda>_. ''t''), handles = 0\<rparr>"

definition sample_server :: server where
  "sample_server = registerStaticIndex ''index.html''
    (addStaticDirectory ''../static/'' None (new_CServer no_memory 0))"

lemma static_lookup_confined_witness:
  "fst (getStaticEndpoint sample_server [] ''/a.html'' ''GET'' None sample_fs) =
   fst (getStaticEndpoint sample_server [] ''/a.html'' ''GET'' None
     (sample_fs\<lparr>files := (files sample_fs)(''/etc/passwd'' \<mapsto> ''other'')\<rparr>))"
proof -
  have "\<not> confined sample_server ''/etc/passwd''"
    by (simp add: confined_def sample_server_def registerStaticIndex_def addStaticDirectory_def
        new_CServer_def addDefaultMimeTypes_def default_mime_types_def addMimeType_def)
  then have "same_view sample_server sample_fs
      (sample_fs\<lparr>files := (files sample_fs)(''/etc/passwd'' \<mapsto> ''other'')\<rparr>)"
    by (auto simp: same_view_def)
  from static_lookup_confined [OF this] show ?thesis by blast
qed

text \<open>A path of the ordinary shape: directory part, name, dot, extension; no query.\<close>

definition plain_path :: "string \<Rightarrow> string \<Rightarrow> string \<Rightarrow> bool" where
  "plain_path dir name ext \<longleftrightarrow>
    CHR ''?'' \<notin> set (dir @ name @ ext) \<and> CHR ''/'' \<notin> set (name @ ext) \<and> CHR ''.'' \<notin> set ext \<and>
    length (dir @ name @ ext) < 4294967290"

lemma getStaticFile_plain:
  assumes "plain_path dir name ext"
  shows "getStaticFile srv b (dir @ ''/'' @ name @ ''.'' @ ext) m h fs =
    (let sp = static_path (case h of Some x \<Rightarrow> strtolower x | None \<Rightarrow> []) srv in
     if sp = [] then (Inr None, fs)
     else load_static b (getMimeType (strtolower ext) srv) (strtolower ext)
       (sp @ ''/'' @ dir @ ''/'' @ name @ ''.'' @ ext) m fs)"
proof -
  let ?p = "dir @ ''/'' @ name @ ''.'' @ ext"
  have q: "find_ch (CHR ''?'') ?p = None" using assms by (auto simp: find_ch_None plain_path_def)
  have cut: "(if u32 (as_size (find_ch (CHR ''?'') ?p)) \<noteq> npos
      then take (u32 (as_size (find_ch (CHR ''?'') ?p))) ?p else ?p) = ?p"
  proof -
    have "length ?p \<le> 4294967295" using assms by (simp add: plain_path_def)
    then have "take (u32 (as_size None)) ?p = ?p" by (simp only: as_size.simps u32_npos take_all)
    then show ?thesis unfolding q by (simp only: if_cancel)
  qed
  have slash: "find_last_ch (CHR ''/'') ?p = Some (length dir)"
    using assms find_last_ch_append [of "CHR ''/''" "name @ ''.'' @ ext" dir] by (auto simp: plain_path_def)
  have dot: "find_last_ch (CHR ''.'') (name @ ''.'' @ ext) = Some (length name)"
    using assms find_last_ch_append [of "CHR ''.''" ext name] by (auto simp: plain_path_def)
  have sizes: "length dir < 4294967290" "length name < 4294967290"
    using assms by (auto simp: plain_path_def)
  show ?thesis
    unfolding getStaticFile_def Let_def cut slash
    using sizes dot by (simp add: getStaticFile_def Let_def)
qed


lemma sample_static_path [simp]: "static_path h sample_server = ''../static/''"
  by (simp add: static_path_def sample_server_def registerStaticIndex_def addStaticDirectory_def
      new_CServer_def addDefaultMimeTypes_def default_mime_types_def addMimeType_def host_matches_def)

lemma sample_mime [simp]:
  "getMimeType e sample_server = find (\<lambda>t. mtExt t = e) default_mime_types"
  by (simp add: getMimeType_def sample_server_def registerStaticIndex_def addStaticDirectory_def
      new_CServer_def addDefaultMimeTypes_def mime.entries_add_all)

lemma strtolower_html: "strtolower ''HTML'' = ''html''" "strtolower ''html'' = ''html''"
  by code_simp+

lemma sample_file: "files sample_fs ''../static///a.html'' = Some ''<p>''"
  by (simp add: sample_fs_def)


text \<open>The extension test against \<open>npos\<close> never fails, so a file without a dot is
  given its whole name as extension: a file called \<open>html\<close>, in any case, is served as
  \<open>text/html\<close>.\<close>
theorem dotless_name_is_its_extension:
  assumes "CHR ''?'' \<notin> set (dir @ name)" "CHR ''/'' \<notin> set name" "CHR ''.'' \<notin> set name"
    and "length (dir @ name) < 4294967290" "static_path [] srv \<noteq> []"
  shows "getStaticFile srv b (dir @ ''/'' @ name) m None fs =
    load_static b (getMimeType (strtolower name) srv) (strtolower name)
      (static_path [] srv @ ''/'' @ dir @ ''/'' @ name) m fs"
proof -
  let ?p = "dir @ ''/'' @ name"
  have q: "find_ch (CHR ''?'') ?p = None" using assms(1) by (auto simp: find_ch_None)
  have "length ?p \<le> 4294967295" using assms(4) by simp
  then have "take (u32 (as_size None)) ?p = ?p" by (simp only: as_size.simps u32_npos take_all)
  then have cut: "(if u32 (as_size (find_ch (CHR ''?'') ?p)) \<noteq> npos
      then take (u32 (as_size (find_ch (CHR ''?'') ?p))) ?p else ?p) = ?p"
    unfolding q by (simp only: if_cancel)
  have slash: "find_last_ch (CHR ''/'') ?p = Some (length dir)"
    using find_last_ch_append [of "CHR ''/''" name dir] assms(2) by simp
  have dot: "find_last_ch (CHR ''.'') name = None" using assms(3) by (simp add: find_last_ch_None)
  show ?thesis
    unfolding getStaticFile_def Let_def cut slash using assms(4,5) dot by simp
qed

lemma dotless_name_is_its_extension_witness:
  "\<exists>ep. fst (getStaticFile sample_server (replicate 512 NUL) ''/HTML'' ''GET'' None
      (sample_fs\<lparr>files := [''../static///HTML'' \<mapsto> ''x'']\<rparr>)) = Inr (Some ep) \<and> epContentType ep = ''text/html''"
  using dotless_name_is_its_extension [of "[]" "''HTML''" sample_server "replicate 512 NUL" "''GET''"
      "sample_fs\<lparr>files := [''../static///HTML'' \<mapsto> ''x'']\<rparr>"]
  by (simp add: load_static_def readTextFile_content default_mime_types_def new_MMimeType_def strtolower_html
      static_MEndpoint_def)

section \<open>Sessions\<close>

definition sid_at :: "server \<Rightarrow> nat \<Rightarrow> string" where
  "sid_at srv p = sesID (the (srvHeap srv p))"

text \<open>
  The invariant: every listed pointer is an object, none twice, and its identifier was printed
  from a ten-digit clock and an older counter; so identifiers are distinct.
\<close>

definition printed_id :: "nat \<Rightarrow> string \<Rightarrow> bool" where
  "printed_id bound s \<longleftrightarrow> (\<exists>t i. s = dec_of_nat t @ dec_of_nat i \<and> length (dec_of_nat t) = 10 \<and> i < bound)"

definition sessions_ok :: "server \<Rightarrow> bool" where
  "sessions_ok srv \<longleftrightarrow>
    (\<forall>p \<in> set (srvSessions srv). p < srvNext srv \<and> srvHeap srv p \<noteq> None \<and>
       printed_id (srvIncremental srv) (sid_at srv p)) \<and>
    distinct (map (sid_at srv) (srvSessions srv))"

lemma find_session_sid:
  assumes "\<forall>p \<in> set ps. h p \<noteq> None"
  shows "find_session h sid ps = Inr (find (\<lambda>p. sesID (the (h p)) = sid) ps)"
  using assms by (induction ps) auto

lemma find_distinct:
  assumes "distinct (map f ps)" "p \<in> set ps"
  shows "find (\<lambda>q. f q = f p) ps = Some p"
  using assms by (induction ps) (auto simp: image_iff)

lemma getSession_own:
  assumes "sessions_ok srv" "p \<in> set (srvSessions srv)"
  shows "getSession (sid_at srv p) srv = Inr (Some p)"
proof -
  have "find (\<lambda>q. sid_at srv q = sid_at srv p) (srvSessions srv) = Some p"
    using assms by (intro find_distinct) (auto simp: sessions_ok_def)
  then show ?thesis
    using assms by (simp add: getSession_def sessions_ok_def find_session_sid sid_at_def)
qed

lemma getSession_absent:
  assumes "sessions_ok srv" "sid \<notin> sid_at srv ` set (srvSessions srv)"
  shows "getSession sid srv = Inr None"
proof -
  have "find (\<lambda>q. sid_at srv q = sid) (srvSessions srv) = None"
    using assms(2) by (auto simp: find_None_iff)
  then show ?thesis
    using assms(1) by (simp add: getSession_def sessions_ok_def find_session_sid sid_at_def)
qed

lemma printed_fresh:
  assumes "printed_id b s" "length (dec_of_nat now) = 10"
  shows "s \<noteq> dec_of_nat now @ dec_of_nat b"
proof
  assume eq: "s = dec_of_nat now @ dec_of_nat b"
  from assms(1) obtain t i where "s = dec_of_nat t @ dec_of_nat i" "length (dec_of_nat t) = 10" "i < b"
    unfolding printed_id_def by blast
  moreover from this have "t = now \<and> i = b"
    using eq assms(2) by (intro session_id_inj) simp_all
  ultimately show False by simp
qed

lemma startSession_facts:
  assumes ok: "sessions_ok srv" and t: "length (dec_of_nat now) = 10"
    and i: "srvIncremental srv < 4294967295" and st: "startSession now srv = (p, srv')"
  shows "sessions_ok srv'" "p \<in> set (srvSessions srv')" "set (srvSessions srv) \<subseteq> set (srvSessions srv')"
    "\<forall>q \<in> set (srvSessions srv). sid_at srv' q = sid_at srv q" "sid_at srv' p = dec_of_nat now @ dec_of_nat (srvIncremental srv)"
proof -
  have srv': "p = srvNext srv" "srv' = srv\<lparr>srvSessions := srvSessions srv @ [srvNext srv],
      srvHeap := (srvHeap srv)(srvNext srv \<mapsto> \<lparr>sesID = dec_of_nat now @ dec_of_nat (srvIncremental srv), Items = []\<rparr>),
      srvNext := Suc (srvNext srv), srvIncremental := Suc (srvIncremental srv)\<rparr>"
    using st i by (auto simp: startSession_def new_CSession_def Let_def)
  have ls: "srvSessions srv' = srvSessions srv @ [p]" by (simp add: srv')
  show p: "sid_at srv' p = dec_of_nat now @ dec_of_nat (srvIncremental srv)"
    by (simp add: srv' sid_at_def)
  show old: "\<forall>q \<in> set (srvSessions srv). sid_at srv' q = sid_at srv q"
    using ok by (auto simp: srv' sid_at_def sessions_ok_def)
  show "p \<in> set (srvSessions srv')" "set (srvSessions srv) \<subseteq> set (srvSessions srv')" by (auto simp: srv')
  have new: "printed_id (Suc (srvIncremental srv)) (sid_at srv' p)"
    unfolding p printed_id_def using t by blast
  have up: "printed_id b s \<Longrightarrow> printed_id (Suc b) s" for b s by (auto simp: printed_id_def intro: less_SucI)
  have "sid_at srv' p \<notin> sid_at srv ` set (srvSessions srv)"
    using printed_fresh [OF _ t] ok unfolding p sessions_ok_def by fastforce
  moreover have same: "map (sid_at srv') (srvSessions srv) = map (sid_at srv) (srvSessions srv)"
    using old by simp
  ultimately have "distinct (map (sid_at srv') (srvSessions srv'))"
    unfolding ls map_append same using ok by (simp add: sessions_ok_def)
  moreover have "\<forall>q \<in> set (srvSessions srv'). q < srvNext srv' \<and> srvHeap srv' q \<noteq> None \<and>
      printed_id (srvIncremental srv') (sid_at srv' q)"
    using ok new old up srv' by (auto simp: sessions_ok_def)
  ultimately show "sessions_ok srv'" by (simp add: sessions_ok_def)
qed

lemma destroySession_facts:
  assumes ok: "sessions_ok srv" and p: "p \<in> set (srvSessions srv)"
    and d: "destroySession (sid_at srv p) srv = Inr srv'"
  shows "sessions_ok srv'" "set (srvSessions srv') = set (srvSessions srv) - {p}"
    "srvHeap srv' = srvHeap srv" "sid_at srv' = sid_at srv"
proof -
  have srv': "srv' = srv\<lparr>srvSessions := remove1 p (srvSessions srv)\<rparr>"
    using d by (simp add: destroySession_def getSession_own [OF ok p] erase_first_eq_remove1)
  have distinct: "distinct (srvSessions srv)"
    using ok distinct_map by (auto simp: sessions_ok_def)
  show "srvHeap srv' = srvHeap srv" by (simp add: srv')
  show "sid_at srv' = sid_at srv" by (simp add: srv' sid_at_def fun_eq_iff)
  show sub: "set (srvSessions srv') = set (srvSessions srv) - {p}"
    using distinct by (simp add: srv')
  have "distinct (map (sid_at srv') (srvSessions srv'))"
    using ok distinct sub by (auto simp: sessions_ok_def distinct_map inj_on_def srv' sid_at_def)
  then show "sessions_ok srv'"
    using ok sub by (auto simp: sessions_ok_def srv' sid_at_def)
qed


lemma no_sessions_ok [simp]: "srvSessions srv = [] \<Longrightarrow> sessions_ok srv"
  by (simp add: sessions_ok_def)

lemma sample_sessions: "srvSessions sample_server = []" "srvIncremental sample_server = 0"
  by (simp_all add: sample_server_def registerStaticIndex_def addStaticDirectory_def new_CServer_def
      addDefaultMimeTypes_def default_mime_types_def addMimeType_def)

lemma ten_digits: "length (dec_of_nat 1700000000) = 10"
  by (simp add: dec_of_nat.simps)


end
