(* ===== verification/Http_Handler.thy ===== *)
theory Http_Handler
  imports Server_Core_Facts
begin

text \<open>
  \<open>CNode::run\<close> (\<open>src/server/CNode.cpp\<close>): one connection from its first byte to the deletion of
  its socket, with the exceptions each part catches. The application's endpoint functions are an
  argument: \<open>cb\<close> gives, for a function pointer, the action it performs on the server object it
  is passed. \<open>buf0\<close> and \<open>fbuf\<close> are the uninitialised buffers of \<open>readHeader\<close> and
  \<open>readBinaryFile\<close>, \<open>dt\<close> is the text \<open>asctime\<close> gives for the time of the response.
\<close>

type_synonym callbacks = "nat \<Rightarrow> MRequest \<Rightarrow> (server, MResponse) act"

record world =
  wNode :: CNode
  wServer :: server
  wFiles :: os

section \<open>The parts of \<open>run\<close>\<close>

text \<open>The first \<open>try\<close> block: both handlers clear the path and go on.\<close>

fun caught_reading :: "fault \<Rightarrow> bool" where
  "caught_reading (ThrowInt r) = True"
| "caught_reading e = is_std_exception e"

definition read_request :: "char \<Rightarrow> CNode \<Rightarrow> (unit res \<times> CNode) option" where
  "read_request buf0 nd =
    (let handled = (\<lambda>r nd1. case r of
        Inr _ \<Rightarrow> (Inr (), nd1)
      | Inl e \<Rightarrow> (if caught_reading e then (Inr (), nd1\<lparr>ndPath := []\<rparr>) else (Inl e, nd1)))
     in case readHeader buf0 nd of
       None \<Rightarrow> None
     | Some (Inl e, nd1) \<Rightarrow> Some (handled (Inl e) nd1)
     | Some (Inr _, nd1) \<Rightarrow>
         (case readBody nd1 of
            None \<Rightarrow> None
          | Some (r, nd2) \<Rightarrow> Some (handled r nd2)))"

text \<open>The request given to an endpoint.\<close>

definition header_value :: "CNode \<Rightarrow> string \<Rightarrow> string" where
  "header_value nd name = (case getHeader nd name of Some h \<Rightarrow> Val h | None \<Rightarrow> [])"

definition node_request :: "CNode \<Rightarrow> MRequest" where
  "node_request nd =
    (let rq = (new_MRequest (ndBody nd))\<lparr>rqQueryString := ndQueryString nd\<rparr>;
         rq1 = (case getHeader nd ''X-SSL-Client-CN'' of Some h \<Rightarrow> rq\<lparr>rqSSLClientCN := Val h\<rparr> | None \<Rightarrow> rq);
         rq2 = (case getHeader nd ''Cookie'' of Some h \<Rightarrow> cookie_loop (Val h) rq1 | None \<Rightarrow> rq1)
     in rq2\<lparr>rqHost := header_value nd ''Host''\<rparr>)"

text \<open>\<open>writeResponse\<close> inside \<open>try ... catch (int)\<close>.\<close>

definition respond :: "string \<Rightarrow> MResponse \<Rightarrow> (world, unit) act" where
  "respond dt resp w =
    (case writeResponse dt resp (wNode w) of
       (Inl (ThrowInt _), nd) \<Rightarrow> (Inr (), w\<lparr>wNode := nd\<rparr>)
     | (r, nd) \<Rightarrow> (r, w\<lparr>wNode := nd\<rparr>))"

definition static_response :: "MEndpoint \<Rightarrow> MResponse" where
  "static_response ep =
    default_MResponse\<lparr>rsBody := epContents ep, rsCode := 200, rsContentType := epContentType ep\<rparr>"

definition dispatch :: "string \<Rightarrow> string \<Rightarrow> callbacks \<Rightarrow> (world, unit) act" where
  "dispatch fbuf dt cb w =
    (let nd = wNode w; host = header_value nd ''Host'' in
     if ndPath nd = [] then (Inr (), w)
     else case getEndpoint (ndPath nd) (ndMethod nd) (wServer w) of
       Some ep \<Rightarrow>
         (case cb (epCallback ep) (node_request nd) (wServer w) of
            (Inl e, srv) \<Rightarrow> (Inl e, w\<lparr>wServer := srv\<rparr>)
          | (Inr resp, srv) \<Rightarrow> respond dt resp (w\<lparr>wServer := srv\<rparr>))
     | None \<Rightarrow>
         (case getStaticEndpoint (wServer w) fbuf (ndPath nd) (ndMethod nd) (Some host) (wFiles w) of
            (Inl e, fs) \<Rightarrow> (Inl e, w\<lparr>wFiles := fs\<rparr>)
          | (Inr (Some ep), fs) \<Rightarrow> respond dt (static_response ep) (w\<lparr>wFiles := fs\<rparr>)
          | (Inr None, fs) \<Rightarrow>
              (case new_MErrorResponse 404 ''Endpoint not found.'' of
                 None \<Rightarrow> (Inl Diverges, w\<lparr>wFiles := fs\<rparr>)
               | Some resp \<Rightarrow> respond dt resp (w\<lparr>wFiles := fs\<rparr>))))"

text \<open>The end: \<open>Socket->close()\<close>, then \<open>delete Socket\<close>, whose destructor closes again.\<close>

definition delete_sock :: "sock \<Rightarrow> sock" where
  "delete_sock s = sock_close s"

definition finish :: "world \<Rightarrow> world" where
  "finish w = w\<lparr>wNode := (wNode w)\<lparr>ndSocket := delete_sock (sock_close (ndSocket (wNode w)))\<rparr>\<rparr>"

definition node_run :: "char \<Rightarrow> string \<Rightarrow> string \<Rightarrow> callbacks \<Rightarrow> world \<Rightarrow> (unit res \<times> world) option" where
  "node_run buf0 fbuf dt cb w =
    (case read_request buf0 (wNode w) of
       None \<Rightarrow> None
     | Some (Inl e, nd) \<Rightarrow> Some (Inl e, w\<lparr>wNode := nd\<rparr>)
     | Some (Inr _, nd) \<Rightarrow>
         (case dispatch fbuf dt cb (w\<lparr>wNode := nd\<rparr>) of
            (Inl e, w1) \<Rightarrow> Some (Inl e, w1)
          | (Inr _, w1) \<Rightarrow> Some (Inr (), finish w1)))"

section \<open>Reading\<close>

lemma parse_request_line_fault: "fst (parse_request_line nd) = Inl e \<Longrightarrow> e = ThrowStd"
  by (auto simp: parse_request_line_def Let_def split: list.splits option.splits prod.splits)

lemma parse_request_line_sock [simp]: "ndSocket (snd (parse_request_line nd)) = ndSocket nd"
  by (simp add: parse_request_line_def Let_def split: list.split option.split prod.split)

text \<open>On a throwing socket the only faults of reading are the ones \<open>run\<close> catches.\<close>

lemma readBody_loop_faults:
  assumes "ThrowExceptions (ndSocket nd)" "chan_ok (chan (ndSocket nd))"
  shows "\<exists>r nd'. readBody_loop len n nd = Some (r, nd') \<and> (\<forall>e. r = Inl e \<longrightarrow> caught_reading e) \<and>
    Closed (ndSocket nd') = Closed (ndSocket nd)"
  using assms
proof (induction "length (pending (chan (ndSocket nd)))" arbitrary: nd n rule: less_induct)
  case less
  consider (over) "\<not> n < len" | (empty) "n < len" "pending (chan (ndSocket nd)) = []"
    | (data) "n < len" "pending (chan (ndSocket nd)) \<noteq> []" by blast
  then show ?case
  proof cases
    case over
    then show ?thesis by (subst readBody_loop.simps) simp
  next
    case empty
    with less.prems show ?thesis by (simp add: readBody_loop_end)
  next
    case data
    obtain d c where d: "readBody_loop len n nd =
        readBody_loop len (n + word_of_nat (length d))
          (nd\<lparr>ndSocket := set_chan c (ndSocket nd), ndBody := ndBody nd @ cstr d\<rparr>)"
        "d \<noteq> []" "pending (chan (ndSocket nd)) = d @ pending c" "c = (chan (ndSocket nd))\<lparr>rx := rx c\<rparr>"
      using readBody_loop_step [OF less.prems(1) data] by blast
    have "rx_end c = rx_end (chan (ndSocket nd))" by (subst d(4)) simp
    then have "chan_ok c" using less.prems(2) by (simp add: chan_ok_def)
    moreover have "length (pending c) < length (pending (chan (ndSocket nd)))"
      using d(2,3) by (cases d) auto
    ultimately show ?thesis
      using less.hyps [of "nd\<lparr>ndSocket := set_chan c (ndSocket nd), ndBody := ndBody nd @ cstr d\<rparr>"]
        d(1) less.prems(1) by simp
  qed
qed

lemma readHeader_facts:
  assumes "ThrowExceptions (ndSocket nd)" "chan_ok (chan (ndSocket nd))"
  shows "\<exists>r nd'. readHeader b0 nd = Some (r, nd') \<and> (\<forall>e. r = Inl e \<longrightarrow> caught_reading e) \<and>
    ThrowExceptions (ndSocket nd') \<and> chan_ok (chan (ndSocket nd')) \<and> Closed (ndSocket nd') = Closed (ndSocket nd)"
proof -
  have reading: "node_reading (pending (chan (ndSocket nd))) nd" using assms by (simp add: node_reading_def)
  obtain nd0 hs rest r0 where loop: "readHeader_loop b0 [] 0 nd = Some (r0, nd0)" "at_input nd hs rest nd0"
      "\<forall>e. r0 = Inl e \<longrightarrow> caught_reading e"
    using readHeader_loop_scan [OF assms refl, of b0 "[]" 0] by (auto split: option.splits)
  have ok: "ThrowExceptions (ndSocket nd0)" "chan_ok (chan (ndSocket nd0))"
    using at_input_reading(1) [OF loop(2) reading] by (simp_all add: node_reading_def)
  have closed: "Closed (ndSocket nd0) = Closed (ndSocket nd)" using loop(2) by (auto simp: at_input_def)
  show ?thesis
  proof (cases r0)
    case (Inl e)
    with loop ok closed show ?thesis by (simp add: readHeader_def)
  next
    case (Inr u)
    have "fst (parse_request_line nd0) = Inl e \<Longrightarrow> caught_reading e" for e
      using parse_request_line_fault [of nd0 e] by simp
    with Inr loop(1) ok closed show ?thesis
      using parse_request_line_sock [of nd0]
      by (cases "parse_request_line nd0") (auto simp: readHeader_def simp del: parse_request_line_sock)
  qed
qed

lemma readBody_facts:
  assumes "ThrowExceptions (ndSocket nd)" "chan_ok (chan (ndSocket nd))"
  shows "\<exists>r nd'. readBody nd = Some (r, nd') \<and> (\<forall>e. r = Inl e \<longrightarrow> caught_reading e) \<and>
    Closed (ndSocket nd') = Closed (ndSocket nd)"
  using readBody_loop_faults [of "nd\<lparr>ndBody := []\<rparr>"] assms
  by (auto simp: readBody_def Let_def split: option.split)

lemma read_request_returns:
  assumes "ThrowExceptions (ndSocket nd)" "chan_ok (chan (ndSocket nd))"
  shows "\<exists>nd'. read_request b0 nd = Some (Inr (), nd') \<and> Closed (ndSocket nd') = Closed (ndSocket nd)"
proof -
  obtain r nd1 where h: "readHeader b0 nd = Some (r, nd1)" "\<forall>e. r = Inl e \<longrightarrow> caught_reading e"
      "ThrowExceptions (ndSocket nd1)" "chan_ok (chan (ndSocket nd1))" "Closed (ndSocket nd1) = Closed (ndSocket nd)"
    using readHeader_facts [OF assms, of b0] by blast
  obtain r' nd2 where b: "readBody nd1 = Some (r', nd2)" "\<forall>e. r' = Inl e \<longrightarrow> caught_reading e"
      "Closed (ndSocket nd2) = Closed (ndSocket nd1)"
    using readBody_facts [OF h(3,4)] by blast
  show ?thesis
    using h b by (cases r; cases r') (simp_all add: read_request_def Let_def)
qed

section \<open>Writing\<close>

lemma writeString_faults:
  "\<exists>r nd'. writeString str nd = (r, nd') \<and> (\<forall>e. r = Inl e \<longrightarrow> (\<exists>k. e = ThrowInt k)) \<and>
    Closed (ndSocket nd') = Closed (ndSocket nd)"
  by (auto simp: writeString_def writeBuffer_chan Let_def split: prod.split sum.split)

lemma run_writes_faults:
  "\<exists>r nd'. run_acts (map writeString ss) nd = (r, nd') \<and> (\<forall>e. r = Inl e \<longrightarrow> (\<exists>k. e = ThrowInt k)) \<and>
    Closed (ndSocket nd') = Closed (ndSocket nd)"
proof (induction ss arbitrary: nd)
  case (Cons s ss)
  obtain r nd1 where w: "writeString s nd = (r, nd1)" "\<forall>e. r = Inl e \<longrightarrow> (\<exists>k. e = ThrowInt k)"
      "Closed (ndSocket nd1) = Closed (ndSocket nd)"
    using writeString_faults by blast
  with Cons.IH [of nd1] show ?case by (cases r) auto
qed simp

lemma respond_returns:
  "\<exists>nd'. respond dt resp w = (Inr (), w\<lparr>wNode := nd'\<rparr>) \<and> Closed (ndSocket nd') = Closed (ndSocket (wNode w))"
  using run_writes_faults [of "response_writes dt resp" "wNode w"]
  by (auto simp: respond_def writeResponse_def split: sum.split fault.split)

section \<open>Looking up a file\<close>

text \<open>Files the binary reader can take, and index names it can look at.\<close>

definition fs_ok :: "os \<Rightarrow> bool" where
  "fs_ok fs \<longleftrightarrow> (\<forall>q c. files fs q = Some c \<longrightarrow> c \<noteq> [] \<and> length c \<le> 4294966784)"

definition indexes_ok :: "server \<Rightarrow> bool" where
  "indexes_ok srv \<longleftrightarrow> [] \<notin> set (srvStaticIndexes srv)"

definition finds :: "(os, MEndpoint option) act \<Rightarrow> os \<Rightarrow> bool" where
  "finds a fs \<longleftrightarrow> (\<exists>r fs'. a fs = (Inr r, fs') \<and> files fs' = files fs)"

lemma load_static_finds:
  assumes "fs_ok fs" "length b = 512"
  shows "finds (load_static b t ext p m) fs"
proof (cases "files fs p")
  case (Some c)
  then have c: "c \<noteq> []" "length c \<le> 4294966784" using assms(1) by (auto simp: fs_ok_def)
  then have "readBinaryFile b p fs = (Inr c, fs\<lparr>handles := handles fs + 1\<rparr>)"
    using Some assms(2) by (simp add: readBinaryFile_def readBinary_loop_all)
  with Some c(1) show ?thesis
    by (cases c) (auto simp: finds_def load_static_def readTextFile_content split: option.split)
qed (simp add: finds_def load_static_def)

lemma getStaticFile_finds:
  assumes "fs_ok fs" "length b = 512"
  shows "finds (getStaticFile srv b p m h) fs"
  using load_static_finds [OF assms] by (simp add: finds_def getStaticFile_def Let_def)

lemma static_lookup_finds:
  "fs_ok fs \<Longrightarrow> indexes_ok srv \<Longrightarrow> length b = 512 \<Longrightarrow> p \<noteq> [] \<Longrightarrow> finds (getStaticEndpoint srv b p m h) fs"
  "fs_ok fs \<Longrightarrow> indexes_ok srv \<Longrightarrow> length b = 512 \<Longrightarrow> set its \<subseteq> set (srvStaticIndexes srv) \<Longrightarrow>
    finds (getStaticIndex srv b p m h its) fs"
proof (induction srv b p m h fs and srv b p m h its fs rule: getStaticEndpoint_getStaticIndex.induct)
  case (1 srv b path m h fs)
  then show ?case
    using getStaticFile_finds [of fs b srv path m h] by (auto simp: finds_def getStaticEndpoint.simps)
next
  case (2 srv b path m h fs)
  then show ?case by (simp add: finds_def getStaticIndex.simps)
next
  case (3 srv b path m h it its fs)
  have it: "it \<noteq> []" "set its \<subseteq> set (srvStaticIndexes srv)"
    using "3.prems" by (auto simp: indexes_ok_def)
  show ?case
  proof (cases "last it = CHR ''/''")
    case True
    with 3 it show ?thesis by (simp add: finds_def getStaticIndex.simps)
  next
    case False
    have "finds (getStaticEndpoint srv b (path @ it) m h) fs" using 3 it False by simp
    then obtain r fs' where r: "getStaticEndpoint srv b (path @ it) m h fs = (Inr r, fs')" "files fs' = files fs"
      by (auto simp: finds_def)
    have "fs_ok fs'" using "3.prems"(1) r(2) by (simp add: fs_ok_def)
    with 3(3) r it False "3.prems" have "r = None \<Longrightarrow> finds (getStaticIndex srv b path m h its) fs'" by simp
    with r it False show ?thesis
      by (cases r) (auto simp: finds_def getStaticIndex.simps)
  qed
qed

section \<open>The contract of the handler\<close>

definition callbacks_ok :: "callbacks \<Rightarrow> bool" where
  "callbacks_ok cb \<longleftrightarrow> (\<forall>p rq srv. \<not> isl (fst (cb p rq srv)))"

lemma dispatch_returns:
  assumes "callbacks_ok cb" "fs_ok (wFiles w)" "indexes_ok (wServer w)" "length fbuf = 512"
  shows "\<exists>w'. dispatch fbuf dt cb w = (Inr (), w') \<and>
    Closed (ndSocket (wNode w')) = Closed (ndSocket (wNode w))"
proof -
  let ?nd = "wNode w"
  have resp: "\<exists>w'. respond dt r v = (Inr (), w') \<and> Closed (ndSocket (wNode w')) = Closed (ndSocket ?nd)"
    if "wNode v = ?nd" for r v
    using respond_returns [of dt r v] that by auto
  show ?thesis
  proof (cases "ndPath ?nd = []")
    case path: False
    show ?thesis
    proof (cases "getEndpoint (ndPath ?nd) (ndMethod ?nd) (wServer w)")
      case (Some ep)
      obtain r srv where "cb (epCallback ep) (node_request ?nd) (wServer w) = (Inr r, srv)"
        using assms(1) unfolding callbacks_ok_def
        by (metis isl_def prod.collapse sum.exhaust)
      with Some path resp show ?thesis by (simp add: dispatch_def)
    next
      case None
      obtain r fs where st: "getStaticEndpoint (wServer w) fbuf (ndPath ?nd) (ndMethod ?nd)
          (Some (header_value ?nd ''Host'')) (wFiles w) = (Inr r, fs)"
        using static_lookup_finds(1) [OF assms(2-4) path] unfolding finds_def by blast
      obtain er where "new_MErrorResponse 404 ''Endpoint not found.'' = Some er"
        using new_MErrorResponse_returns by blast
      with None path resp st show ?thesis by (cases r) (simp_all add: dispatch_def)
    qed
  qed (simp add: dispatch_def)
qed


definition echo_callbacks :: callbacks where
  "echo_callbacks p rq srv = (Inr (new_MResponse 200 (rqBody rq @ ''!'') []), srv)"

definition sample_world :: "string list \<Rightarrow> world" where
  "sample_world segs = \<lparr>wNode = sample_node segs,
    wServer = registerEndpoint (new_MEndpoint ''/e'' 1 ''POST'') (new_CServer no_memory 0), wFiles = sample_fs\<rparr>"

lemma sample_world_ok:
  "callbacks_ok echo_callbacks" "fs_ok (wFiles (sample_world segs))" "indexes_ok (wServer (sample_world segs))"
  by (auto simp: callbacks_ok_def echo_callbacks_def fs_ok_def sample_world_def sample_fs_def indexes_ok_def
      registerEndpoint_def new_CServer_def addDefaultMimeTypes_def default_mime_types_def addMimeType_def
      split: if_splits)


section \<open>A request answered\<close>

text \<open>
  A request as it travels: a block of header fields among which \<open>Content-Length\<close> announces the
  body. \<open>stored\<close> is what \<open>getHeader\<close> will find in the node.
\<close>

definition stored_value :: "(string \<times> string) list \<Rightarrow> string \<Rightarrow> string option" where
  "stored_value fs name =
    map_option (\<lambda>f. trim (snd f)) (find (\<lambda>f. strtolower (fst f) = strtolower name) fs)"

definition wire_request :: "string \<Rightarrow> string \<Rightarrow> string \<Rightarrow> (string \<times> string) list \<Rightarrow> string \<Rightarrow> string" where
  "wire_request m target v fs body = request_block m target v fs @ body"

definition wire_ok :: "string \<Rightarrow> string \<Rightarrow> string \<Rightarrow> (string \<times> string) list \<Rightarrow> string \<Rightarrow> bool" where
  "wire_ok m target v fs body \<longleftrightarrow>
    request_ok m target v \<and> list_all field_ok fs \<and> NUL \<notin> set body \<and> length body < 2147483648 \<and>
    (case stored_value fs ''content-length'' of
       Some l \<Rightarrow> atoi l = int (length body)
     | None \<Rightarrow> body = [])"

lemma find_stored_fields:
  "find (\<lambda>h. strtolower (Var h) = n) (map stored_field fs) =
    map_option stored_field (find (\<lambda>f. strtolower (fst f) = n) fs)"
  by (induction fs) (simp_all add: stored_field_def strtolower_idem)

lemma SP_strtolower: "SP \<in> set l \<Longrightarrow> SP \<in> set (strtolower l)"
  by (force simp: strtolower_def)

lemma request_line_not_named:
  assumes "SP \<notin> set name"
  shows "strtolower (request_line m target v) \<noteq> strtolower name"
proof
  assume eq: "strtolower (request_line m target v) = strtolower name"
  have "SP \<in> set (strtolower (request_line m target v))"
    by (rule SP_strtolower) (simp add: request_line_def)
  with eq have "SP \<in> set (strtolower name)" by simp
  then obtain c where c: "c \<in> set name" "SP = (if 65 \<le> code c \<and> code c \<le> (90::nat) then char_of (code c + (32::nat)) else c)"
    by (auto simp: strtolower_def)
  show False
  proof (cases "65 \<le> code c \<and> code c \<le> (90::nat)")
    case True
    with c(2) have "code SP = (code (char_of (code c + (32::nat))) :: nat)" by simp
    with True show False by simp
  next
    case False
    with c assms show False by auto
  qed
qed

lemma getHeader_stored:
  assumes "ndHeaders nd = \<lparr>Var = request_line m target v, Val = []\<rparr> # map stored_field fs @ [\<lparr>Var = [], Val = []\<rparr>]"
    and "SP \<notin> set name" "name \<noteq> []"
  shows "map_option Val (getHeader nd name) = stored_value fs name"
proof -
  have "strtolower [] \<noteq> strtolower name" using assms(3) by (simp add: strtolower_def)
  then show ?thesis
    using request_line_not_named [OF assms(2), of m target v]
    unfolding headers.look_first assms(1) stored_value_def
    by (simp add: find_append find_stored_fields option.map_comp comp_def split: option.split)
      (simp add: stored_field_def)
qed

lemma readBody_announced:
  assumes "node_reading body nd" "NUL \<notin> set body" "length body < 2147483648"
    and "case map_option Val (getHeader nd ''content-length'') of
      Some l \<Rightarrow> atoi l = int (length body) | None \<Rightarrow> body = []"
  shows "\<exists>x. readBody nd = Some (Inr (), nd\<lparr>ndBody := body,
    ndSocket := set_chan ((chan (ndSocket nd))\<lparr>rx := x\<rparr>) (ndSocket nd)\<rparr>)"
proof (cases "getHeader nd ''content-length''")
  case None
  then have "getHeader (nd\<lparr>ndBody := []\<rparr>) ''content-length'' = None" by (simp add: getHeader_def)
  with None assms(4) show ?thesis
    by (intro exI [of _ "rx (chan (ndSocket nd))"]) (simp add: readBody_def)
next
  case (Some h)
  let ?nd = "nd\<lparr>ndBody := []\<rparr>"
  have g: "getHeader ?nd ''content-length'' = Some h" using Some by (simp add: getHeader_def)
  have a: "atoi (Val h) = int (length body)" using Some assms(4) by simp
  have "unat (uint_of_int (int (length body))) = length body"
    using assms(3) by (simp add: uint_of_int_def unat_of_nat)
  then have "unat (0 :: 32 word) + length body = unat (uint_of_int (int (length body)))" by simp
  from readBody_loop_exact [OF _ _ assms(2) this, of ?nd] assms(1)
  obtain c where "readBody_loop (uint_of_int (int (length body))) 0 ?nd =
      Some (Inr (), ?nd\<lparr>ndSocket := set_chan c (ndSocket ?nd), ndBody := ndBody ?nd @ body\<rparr>)"
      "c = (chan (ndSocket ?nd))\<lparr>rx := rx c\<rparr>"
    by (auto simp: node_reading_def)
  then show ?thesis
    by (intro exI [of _ "rx c"]) (simp add: readBody_def g a)
qed

text \<open>The request an endpoint sees, computed from the bytes on the wire.\<close>

definition request_of :: "string \<Rightarrow> (string \<times> string) list \<Rightarrow> string \<Rightarrow> MRequest" where
  "request_of target fs body =
    (let value = (\<lambda>n. case stored_value fs n of Some v \<Rightarrow> v | None \<Rightarrow> []);
         rq = (new_MRequest body)\<lparr>rqQueryString := query_of target, rqSSLClientCN := value ''X-SSL-Client-CN''\<rparr>
     in (cookie_loop (value ''Cookie'') rq)\<lparr>rqHost := value ''Host''\<rparr>)"

lemma read_request_wire:
  assumes "node_reading (wire_request m target v fs body) nd" "wire_ok m target v fs body"
    and "ndHeaders nd = []" "ndQueryString nd = []"
  shows "\<exists>nd' x. read_request b0 nd = Some (Inr (), nd') \<and> ndMethod nd' = m \<and> ndPath nd' = path_of target \<and>
    node_request nd' = request_of target fs body \<and>
    header_value nd' ''Host'' = (case stored_value fs ''Host'' of Some h \<Rightarrow> h | None \<Rightarrow> []) \<and>
    ThrowExceptions (ndSocket nd') \<and> chan (ndSocket nd') = (chan (ndSocket nd))\<lparr>rx := x\<rparr>"
proof -
  have ok: "request_ok m target v" "list_all field_ok fs" "NUL \<notin> set body" "length body < 2147483648"
    using assms(2) by (simp_all add: wire_ok_def)
  obtain nd1 x1 where h: "readHeader b0 nd = Some (Inr (), nd1)" "node_reading body nd1" "ndMethod nd1 = m"
      "ndPath nd1 = path_of target" "ndQueryString nd1 = query_of target"
      "chan (ndSocket nd1) = (chan (ndSocket nd))\<lparr>rx := x1\<rparr>"
      "ndHeaders nd1 = \<lparr>Var = request_line m target v, Val = []\<rparr> # map stored_field fs @ [\<lparr>Var = [], Val = []\<rparr>]"
    using readHeader_request_facts [OF assms(1) [unfolded wire_request_def] ok(1,2) assms(3,4), of b0] by blast
  have stored: "map_option Val (getHeader nd1 n) = stored_value fs n" if "SP \<notin> set n" "n \<noteq> []" for n
    using getHeader_stored [OF h(7)] that by simp
  have "case map_option Val (getHeader nd1 ''content-length'') of
      Some l \<Rightarrow> atoi l = int (length body) | None \<Rightarrow> body = []"
    using assms(2) stored [of "''content-length''"] by (simp add: wire_ok_def)
  from readBody_announced [OF h(2) ok(3,4) this] obtain x where
    b: "readBody nd1 = Some (Inr (), nd1\<lparr>ndBody := body,
      ndSocket := set_chan ((chan (ndSocket nd1))\<lparr>rx := x\<rparr>) (ndSocket nd1)\<rparr>)" by blast
  define nd2 where "nd2 = nd1\<lparr>ndBody := body,
      ndSocket := set_chan ((chan (ndSocket nd1))\<lparr>rx := x\<rparr>) (ndSocket nd1)\<rparr>"
  have same: "getHeader nd2 n = getHeader nd1 n" for n by (simp add: nd2_def getHeader_def)
  have val: "(case getHeader nd2 n of Some h \<Rightarrow> f (Val h) | None \<Rightarrow> d) =
      (case stored_value fs n of Some v \<Rightarrow> f v | None \<Rightarrow> d)" if "SP \<notin> set n" "n \<noteq> []"
    for n and f :: "string \<Rightarrow> 'a" and d
    using stored [OF that] same [of n]
    by (cases "getHeader nd1 n"; cases "stored_value fs n") simp_all
  have "node_request nd2 = request_of target fs body"
    unfolding node_request_def request_of_def header_value_def Let_def
    using val [of "''Host''" "[]" "\<lambda>x. x"]
      val [of "''X-SSL-Client-CN''" "(new_MRequest (ndBody nd2))\<lparr>rqQueryString := ndQueryString nd2\<rparr>"
        "\<lambda>x. (new_MRequest (ndBody nd2))\<lparr>rqQueryString := ndQueryString nd2, rqSSLClientCN := x\<rparr>"]
      val [of "''Cookie''" R "\<lambda>x. cookie_loop x R" for R]
    by (simp add: nd2_def h new_MRequest_def split: option.split)
  moreover have "header_value nd2 ''Host'' = (case stored_value fs ''Host'' of Some h \<Rightarrow> h | None \<Rightarrow> [])"
    using val [of "''Host''" "[]" "\<lambda>x. x"] by (simp add: header_value_def)
  moreover have "read_request b0 nd = Some (Inr (), nd2)"
    using h(1) b by (simp add: read_request_def Let_def nd2_def)
  moreover have "ThrowExceptions (ndSocket nd2)" using h(2) by (simp add: nd2_def node_reading_def)
  moreover have "chan (ndSocket nd2) = (chan (ndSocket nd))\<lparr>rx := x\<rparr>" using h(6) by (simp add: nd2_def)
  moreover have "ndMethod nd2 = m" "ndPath nd2 = path_of target" using h(3,4) by (simp_all add: nd2_def)
  ultimately show ?thesis by blast
qed

text \<open>A response none of whose pieces is empty goes out whole.\<close>

definition complete_response :: "string \<Rightarrow> MResponse \<Rightarrow> bool" where
  "complete_response dt r \<longleftrightarrow> pieces_small dt r \<and> [] \<notin> set (response_writes dt r)"

lemma respond_complete:
  assumes "writer_ok (wNode w)" "complete_response dt r"
  shows "respond dt r w = (Inr (), w\<lparr>wNode := sent (render dt r) (wNode w)\<rparr>)"
proof -
  have all: "takeWhile (\<lambda>s. s \<noteq> []) (response_writes dt r) = response_writes dt r"
    using assms(2) by (auto simp: complete_response_def takeWhile_eq_all_conv)
  have "run_acts (map writeString (response_writes dt r)) (wNode w) = (Inr (), sent (render dt r) (wNode w))"
    using run_writes [OF assms(1), of "response_writes dt r"] assms(2)
    unfolding all by (simp add: complete_response_def pieces_small_def render_def)
  then show ?thesis by (simp add: respond_def writeResponse_def)
qed

text \<open>A world whose node is new, reads \<open>data\<close> and may write anything.\<close>

definition fresh_world :: "string \<Rightarrow> world \<Rightarrow> bool" where
  "fresh_world data w \<longleftrightarrow> node_reading data (wNode w) \<and> chan_free (chan (ndSocket (wNode w))) \<and>
    ndHeaders (wNode w) = [] \<and> ndQueryString (wNode w) = []"

lemma node_run_wire:
  assumes "fresh_world (wire_request m target v fs body) w" "wire_ok m target v fs body"
    and "\<And>nd. ndPath nd = path_of target \<Longrightarrow> ndMethod nd = m \<Longrightarrow> node_request nd = request_of target fs body \<Longrightarrow>
      header_value nd ''Host'' = (case stored_value fs ''Host'' of Some h \<Rightarrow> h | None \<Rightarrow> []) \<Longrightarrow> writer_ok nd \<Longrightarrow>
      dispatch fbuf dt cb (w\<lparr>wNode := nd\<rparr>) = (Inr (), v'\<lparr>wNode := sent out nd\<rparr>)"
  shows "\<exists>w'. node_run b0 fbuf dt cb w = Some (Inr (), w') \<and> wServer w' = wServer v' \<and> wFiles w' = wFiles v' \<and>
    tx (chan (ndSocket (wNode w'))) = tx (chan (ndSocket (wNode w))) @ out"
proof -
  have nd: "node_reading (wire_request m target v fs body) (wNode w)" "ndHeaders (wNode w) = []"
      "ndQueryString (wNode w) = []"
    using assms(1) by (simp_all add: fresh_world_def)
  obtain nd' x where r: "read_request b0 (wNode w) = Some (Inr (), nd')" "ndMethod nd' = m" "ndPath nd' = path_of target"
      "node_request nd' = request_of target fs body"
      "header_value nd' ''Host'' = (case stored_value fs ''Host'' of Some h \<Rightarrow> h | None \<Rightarrow> [])"
      "ThrowExceptions (ndSocket nd')" "chan (ndSocket nd') = (chan (ndSocket (wNode w)))\<lparr>rx := x\<rparr>"
    using read_request_wire [OF nd(1) assms(2) nd(2,3)] by blast
  have "writer_ok nd'" using assms(1) r(6,7) by (simp add: writer_ok_def fresh_world_def chan_free_def)
  from assms(3) [OF r(3,2,4,5) this]
  have "node_run b0 fbuf dt cb w = Some (Inr (), finish (v'\<lparr>wNode := sent out nd'\<rparr>))"
    using r(1) by (simp add: node_run_def)
  moreover have "chan (ndSocket (wNode (finish (v'\<lparr>wNode := sent out nd'\<rparr>)))) =
      (chan (ndSocket nd'))\<lparr>tx := tx (chan (ndSocket nd')) @ out\<rparr>"
    by (simp add: finish_def delete_sock_def sock_close_def sent_def chan_def set_chan_def)
  ultimately show ?thesis using r(7) by (simp add: finish_def)
qed

text \<open>C1 (functional). A well-formed request for a registered endpoint, in any segmentation, is
  answered by calling that endpoint's function on the parsed request - body, query string,
  cookies, host, client name - and sending its response, byte for byte as \<open>writeResponse\<close> lays
  it out.\<close>
theorem endpoint_request_answered:
  assumes "fresh_world (wire_request m target v fs body) w" "wire_ok m target v fs body" "path_of target \<noteq> []"
    and "getEndpoint (path_of target) m (wServer w) = Some ep"
    and "cb (epCallback ep) (request_of target fs body) (wServer w) = (Inr resp, srv)" "complete_response dt resp"
  shows "\<exists>w'. node_run b0 fbuf dt cb w = Some (Inr (), w') \<and> wServer w' = srv \<and>
    tx (chan (ndSocket (wNode w'))) = tx (chan (ndSocket (wNode w))) @ render dt resp"
proof -
  have "dispatch fbuf dt cb (w\<lparr>wNode := nd\<rparr>) = (Inr (), (w\<lparr>wServer := srv\<rparr>)\<lparr>wNode := sent (render dt resp) nd\<rparr>)"
    if "ndPath nd = path_of target" "ndMethod nd = m" "node_request nd = request_of target fs body" "writer_ok nd" for nd
    using that assms(3-6) by (simp add: dispatch_def Let_def respond_complete)
  from node_run_wire [OF assms(1,2) this] show ?thesis by fastforce
qed


lemma sample_fresh_world [simp]: "fresh_world data (sample_world [data])"
  using sample_node_reading [of "[data]"]
  by (simp add: fresh_world_def sample_world_def)
    (simp add: sample_node_def new_CNode_def plain_sock_def new_sock_def setTimeout_def
      setThrowExceptions_def chan_def chan_free_def idle_channel_def)

lemma sample_wire_ok:
  "wire_ok ''POST'' ''/e?q'' ''HTTP/1.1'' [(''Content-Length'', '' 2'')] ''hi''"
proof -
  have "stored_value [(''Content-Length'', '' 2'')] ''content-length'' = Some ''2''"
    by code_simp
  moreover have "atoi ''2'' = 2"
  proof -
    have "''2'' = dec_of_nat 2" by code_simp
    then show ?thesis by simp
  qed
  ultimately show ?thesis
    by (simp add: wire_ok_def request_ok_def request_line_def field_ok_def)
qed

definition asctime_sample :: string where
  "asctime_sample = ''Thu Jan  1 00:00:00 1970'' @ [LF]"

lemma sample_complete: "complete_response asctime_sample (new_MResponse 200 ''hi!'' [])"
  by (simp add: complete_response_def pieces_small_def response_writes_def new_MResponse_def asctime_sample_def
      response_date_def sid_writes_def getCodeDescription_def dec_of_int_def dec_of_nat.simps Let_def)

lemma sample_request: "request_of ''/e?q'' [(''Content-Length'', '' 2'')] ''hi'' = (new_MRequest ''hi'')\<lparr>rqQueryString := ''q''\<rparr>"
  by code_simp

lemma endpoint_request_answered_witness:
  "\<exists>w'. node_run NUL [] asctime_sample echo_callbacks
      (sample_world [wire_request ''POST'' ''/e?q'' ''HTTP/1.1'' [(''Content-Length'', '' 2'')] ''hi'']) = Some (Inr (), w') \<and>
    tx (chan (ndSocket (wNode w'))) = render asctime_sample (new_MResponse 200 ''hi!'' [])"
proof -
  let ?d = "wire_request ''POST'' ''/e?q'' ''HTTP/1.1'' [(''Content-Length'', '' 2'')] ''hi''"
  let ?srv = "wServer (sample_world [?d])"
  have path: "path_of ''/e?q'' = ''/e''" by (simp add: path_of_def)
  have ep: "getEndpoint (path_of ''/e?q'') ''POST'' ?srv = Some (new_MEndpoint ''/e'' 1 ''POST'')"
    by (simp add: path sample_world_def getEndpoint_def registerEndpoint_def new_CServer_def new_MEndpoint_def
        addDefaultMimeTypes_def default_mime_types_def addMimeType_def)
  have tx: "tx (chan (ndSocket (wNode (sample_world [?d])))) = []"
    by (simp add: sample_world_def sample_node_def new_CNode_def plain_sock_def new_sock_def setTimeout_def
        setThrowExceptions_def chan_def idle_channel_def)
  have cb: "echo_callbacks (epCallback (new_MEndpoint ''/e'' 1 ''POST''))
      (request_of ''/e?q'' [(''Content-Length'', '' 2'')] ''hi'') ?srv = (Inr (new_MResponse 200 ''hi!'' []), ?srv)"
    by (simp add: echo_callbacks_def sample_request new_MRequest_def)
  show ?thesis
    using endpoint_request_answered [where cb = echo_callbacks,
        OF sample_fresh_world [of ?d] sample_wire_ok _ ep cb sample_complete, of NUL "[]"]
    unfolding tx path by auto
qed


end
