(* ===== verification/Shared_Server.thy ===== *)
theory Shared_Server
  imports Http_Handler "HOL-Library.Sublist" "HOL-Library.Multiset"
begin

text \<open>
  Connections served at the same time. Each worker thread runs \<open>CNode::run\<close> (\<open>src/server/CNode.cpp\<close>)
  on its own node; the workers share the server object and the file system. The function is cut
  where it touches what is shared: reading the request and writing the response use the thread's own
  node and socket, the search for an endpoint or a file and the call of the endpoint's function are
  one step each. A schedule is any list of thread numbers. \<open>Whole_Server\<close> adds the main thread
  that starts the workers.
\<close>

section \<open>One thread\<close>

text \<open>Where a thread is: before reading, before the search, before the call of the endpoint found,
  before writing, before closing, and done.\<close>

datatype stage =
    Arrived CNode
  | Asked CNode
  | Calling CNode MEndpoint
  | Writing CNode MResponse
  | Ending CNode
  | Served CNode

text \<open>The uninitialised buffers of the thread's stack and the date its response gets.\<close>

record thread_env =
  teBuf0 :: char
  teFbuf :: string
  teDate :: string

definition look_up :: "string \<Rightarrow> CNode \<Rightarrow> (server \<times> os, stage) act" where
  "look_up fbuf nd s = (case s of (srv, fs) \<Rightarrow>
    if ndPath nd = [] then (Inr (Ending nd), s)
    else case getEndpoint (ndPath nd) (ndMethod nd) srv of
      Some ep \<Rightarrow> (Inr (Calling nd ep), s)
    | None \<Rightarrow>
        (case getStaticEndpoint srv fbuf (ndPath nd) (ndMethod nd) (Some (header_value nd ''Host'')) fs of
           (Inl e, fs1) \<Rightarrow> (Inl e, (srv, fs1))
         | (Inr (Some ep), fs1) \<Rightarrow> (Inr (Writing nd (static_response ep)), (srv, fs1))
         | (Inr None, fs1) \<Rightarrow>
             (case new_MErrorResponse 404 ''Endpoint not found.'' of
                None \<Rightarrow> (Inl Diverges, (srv, fs1))
              | Some resp \<Rightarrow> (Inr (Writing nd resp), (srv, fs1)))))"

definition close_node :: "CNode \<Rightarrow> CNode" where
  "close_node nd = nd\<lparr>ndSocket := delete_sock (sock_close (ndSocket nd))\<rparr>"

fun stage_act :: "thread_env \<Rightarrow> callbacks \<Rightarrow> stage \<Rightarrow> (server \<times> os, stage) act" where
  "stage_act en cb (Arrived nd) s =
    (case read_request (teBuf0 en) nd of
       None \<Rightarrow> (Inr (Arrived nd), s)
     | Some (Inl e, _) \<Rightarrow> (Inl e, s)
     | Some (Inr _, nd1) \<Rightarrow> (Inr (Asked nd1), s))"
| "stage_act en cb (Asked nd) s = look_up (teFbuf en) nd s"
| "stage_act en cb (Calling nd ep) (srv, fs) =
    (case cb (epCallback ep) (node_request nd) srv of
       (Inl e, srv1) \<Rightarrow> (Inl e, (srv1, fs))
     | (Inr resp, srv1) \<Rightarrow> (Inr (Writing nd resp), (srv1, fs)))"
| "stage_act en cb (Writing nd resp) s =
    (case writeResponse (teDate en) resp nd of
       (Inl (ThrowInt _), nd1) \<Rightarrow> (Inr (Ending nd1), s)
     | (Inl e, _) \<Rightarrow> (Inl e, s)
     | (Inr _, nd1) \<Rightarrow> (Inr (Ending nd1), s))"
| "stage_act en cb (Ending nd) s = (Inr (Served (close_node nd)), s)"
| "stage_act en cb (Served nd) s = (Inr (Served nd), s)"

section \<open>All threads\<close>

text \<open>An exception that leaves the function of a thread ends the process. \<open>cb i\<close> is what the endpoints'
  functions do in thread \<open>i\<close>, whose clock may differ from the others'.\<close>

record hub =
  huServer :: server
  huFiles :: os
  huConns :: "stage list"
  huAbort :: bool

definition hub_start :: "server \<Rightarrow> os \<Rightarrow> CNode list \<Rightarrow> hub" where
  "hub_start srv fs nds = \<lparr>huServer = srv, huFiles = fs, huConns = map Arrived nds, huAbort = False\<rparr>"

definition conn_step :: "(nat \<Rightarrow> thread_env) \<Rightarrow> (nat \<Rightarrow> callbacks) \<Rightarrow> nat \<Rightarrow> hub \<Rightarrow> hub" where
  "conn_step env cb i h =
    (if huAbort h \<or> length (huConns h) \<le> i then h
     else case stage_act (env i) (cb i) (huConns h ! i) (huServer h, huFiles h) of
       (Inl _, (srv, fs)) \<Rightarrow> h\<lparr>huServer := srv, huFiles := fs, huAbort := True\<rparr>
     | (Inr st, (srv, fs)) \<Rightarrow> h\<lparr>huServer := srv, huFiles := fs, huConns := (huConns h)[i := st]\<rparr>)"

definition conns_run :: "(nat \<Rightarrow> thread_env) \<Rightarrow> (nat \<Rightarrow> callbacks) \<Rightarrow> nat list \<Rightarrow> hub \<Rightarrow> hub" where
  "conns_run env cb sched h = fold (conn_step env cb) sched h"

lemma conns_run_snoc: "conns_run env cb (sched @ [i]) h = conn_step env cb i (conns_run env cb sched h)"
  by (simp add: conns_run_def)

text \<open>The specification: the connections in some order, each run of \<open>node_run\<close> finished before the next.\<close>

definition run_alone :: "thread_env \<Rightarrow> callbacks \<Rightarrow> CNode \<Rightarrow> server \<times> os \<Rightarrow> (CNode \<times> server \<times> os) option" where
  "run_alone en cb nd s = (case s of (srv, fs) \<Rightarrow>
    case node_run (teBuf0 en) (teFbuf en) (teDate en) cb \<lparr>wNode = nd, wServer = srv, wFiles = fs\<rparr> of
      Some (Inr _, w) \<Rightarrow> Some (wNode w, wServer w, wFiles w)
    | _ \<Rightarrow> None)"

fun serve_in_turn :: "(nat \<Rightarrow> thread_env) \<Rightarrow> (nat \<Rightarrow> callbacks) \<Rightarrow> CNode list \<Rightarrow> nat list \<Rightarrow> server \<times> os \<Rightarrow>
    ((nat \<times> CNode) list \<times> server \<times> os) option" where
  "serve_in_turn env cb nds [] s = Some ([], s)"
| "serve_in_turn env cb nds (i # is) s =
    (case run_alone (env i) (cb i) (nds ! i) s of
       None \<Rightarrow> None
     | Some (nd, s1) \<Rightarrow> map_option (\<lambda>(outs, s2). ((i, nd) # outs, s2)) (serve_in_turn env cb nds is s1))"

lemma serve_snoc:
  assumes "serve_in_turn env cb nds is s = Some (outs, s1)" "run_alone (env i) (cb i) (nds ! i) s1 = Some (nd, s2)"
  shows "serve_in_turn env cb nds (is @ [i]) s = Some (outs @ [(i, nd)], s2)"
  using assms
proof (induction "is" arbitrary: s outs)
  case Nil
  then show ?case by (cases s2) simp
next
  case (Cons j js)
  obtain nd1 t outs1 where j: "run_alone (env j) (cb j) (nds ! j) s = Some (nd1, t)"
    "serve_in_turn env cb nds js t = Some (outs1, s1)" "outs = (j, nd1) # outs1"
    using Cons.prems(1) by (auto split: option.splits)
  from Cons.IH [OF j(2) Cons.prems(2)] j(1,3) show ?case by simp
qed

lemma serve_outs: "serve_in_turn env cb nds is s = Some (outs, s1) \<Longrightarrow> map fst outs = is"
  by (induction "is" arbitrary: s outs) (auto split: option.splits)

section \<open>One step of a thread\<close>

text \<open>After its call or its search a thread has nothing more to do with the others: its node will be
  \<open>settle\<close>.\<close>

fun settle :: "thread_env \<Rightarrow> stage \<Rightarrow> CNode option" where
  "settle en (Writing nd resp) = Some (close_node (snd (writeResponse (teDate en) resp nd)))"
| "settle en (Ending nd) = Some (close_node nd)"
| "settle en (Served nd) = Some nd"
| "settle en _ = None"

text \<open>Before, its node comes from reading, and the endpoint it is about to call from the registry.\<close>

fun came_from :: "server \<Rightarrow> thread_env \<Rightarrow> CNode \<Rightarrow> stage \<Rightarrow> bool" where
  "came_from srv en nd0 (Arrived nd) \<longleftrightarrow> nd = nd0"
| "came_from srv en nd0 (Asked nd) \<longleftrightarrow> read_request (teBuf0 en) nd0 = Some (Inr (), nd)"
| "came_from srv en nd0 (Calling nd ep) \<longleftrightarrow> read_request (teBuf0 en) nd0 = Some (Inr (), nd) \<and>
     ndPath nd \<noteq> [] \<and> getEndpoint (ndPath nd) (ndMethod nd) srv = Some ep"
| "came_from srv en nd0 _ \<longleftrightarrow> True"

definition keeps_endpoints :: "callbacks \<Rightarrow> bool" where
  "keeps_endpoints cb \<longleftrightarrow> (\<forall>p rq srv. srvEndpoints (snd (cb p rq srv)) = srvEndpoints srv)"

lemma respond_writes: "respond dt resp w = (Inr (), w\<lparr>wNode := snd (writeResponse dt resp (wNode w))\<rparr>)"
  using respond_returns [of dt resp w]
  by (auto simp: respond_def split: prod.splits sum.splits fault.splits)

lemma writing_ends: "stage_act en cb (Writing nd resp) s = (Inr (Ending (snd (writeResponse (teDate en) resp nd))), s)"
  using run_writes_faults [of "response_writes (teDate en) resp" nd]
  by (auto simp: writeResponse_def split: sum.split fault.split)

lemma finish_closes: "finish w = w\<lparr>wNode := close_node (wNode w)\<rparr>"
  by (simp add: finish_def close_node_def)

lemma same_endpoint: "srvEndpoints srv = srvEndpoints srv1 \<Longrightarrow> getEndpoint p m srv = getEndpoint p m srv1"
  by (simp add: getEndpoint_def)

text \<open>The step that takes a thread past the others is the effect of its whole run.\<close>

lemma look_up_runs:
  assumes "read_request (teBuf0 en) nd0 = Some (Inr (), nd)" "look_up (teFbuf en) nd (srv, fs) = (Inr st, s1)"
    and "settle en st = Some nd1"
  shows "run_alone en cb nd0 (srv, fs) = Some (nd1, s1)"
  using assms
  by (auto simp: look_up_def run_alone_def node_run_def dispatch_def respond_writes finish_closes
      split: if_splits option.splits prod.splits sum.splits)

lemma call_runs:
  assumes "came_from srv en nd0 (Calling nd ep)" "cb (epCallback ep) (node_request nd) srv = (Inr resp, srv1)"
  shows "run_alone en cb nd0 (srv, fs) = Some (close_node (snd (writeResponse (teDate en) resp nd)), (srv1, fs))"
  using assms by (simp add: run_alone_def node_run_def dispatch_def respond_writes finish_closes)

lemma look_up_stage:
  assumes "read_request (teBuf0 en) nd0 = Some (Inr (), nd)" "look_up (teFbuf en) nd (srv, fs) = (Inr st, (srv1, fs1))"
  shows "came_from srv en nd0 st \<and> srv1 = srv \<and> (settle en st = None \<longrightarrow> fs1 = fs)"
  using assms by (auto simp: look_up_def split: if_splits option.splits prod.splits sum.splits)

lemma stage_step:
  assumes "came_from srv0 en nd0 st" "srvEndpoints srv = srvEndpoints srv0" "keeps_endpoints cb"
    and "stage_act en cb st (srv, fs) = (Inr st1, (srv1, fs1))"
  shows "came_from srv0 en nd0 st1 \<and> srvEndpoints srv1 = srvEndpoints srv0 \<and>
    (if settle en st = None \<and> settle en st1 \<noteq> None
     then run_alone en cb nd0 (srv, fs) = Some (the (settle en st1), (srv1, fs1))
     else settle en st1 = settle en st \<and> srv1 = srv \<and> fs1 = fs)"
proof (cases st)
  case (Asked nd)
  then have a: "read_request (teBuf0 en) nd0 = Some (Inr (), nd)" "look_up (teFbuf en) nd (srv, fs) = (Inr st1, (srv1, fs1))"
    using assms by simp_all
  have "came_from srv en nd0 st1 = came_from srv0 en nd0 st1"
    by (cases st1) (simp_all add: same_endpoint [OF assms(2)])
  with look_up_stage [OF a] look_up_runs [OF a, where cb = cb] Asked assms(2) show ?thesis by auto
next
  case (Calling nd ep)
  have c: "came_from srv en nd0 (Calling nd ep)"
    using assms(1) Calling same_endpoint [OF assms(2)] by simp
  obtain resp where r: "cb (epCallback ep) (node_request nd) srv = (Inr resp, srv1)" "st1 = Writing nd resp" "fs1 = fs"
    using assms(4) Calling by (auto split: prod.splits sum.splits)
  have "srvEndpoints srv1 = srvEndpoints srv"
    using assms(3) r(1) unfolding keeps_endpoints_def by (metis snd_conv)
  with call_runs [OF c, where cb = cb and fs = fs and resp = resp and ?srv1.0 = srv1, OF r(1)] r Calling assms(2) show ?thesis by simp
next
  case (Writing nd resp)
  with assms(2,4) show ?thesis unfolding Writing writing_ends by auto
qed (use assms in \<open>auto split: option.splits prod.splits sum.splits\<close>)

section \<open>All schedules\<close>

definition in_turn :: "(nat \<Rightarrow> thread_env) \<Rightarrow> (nat \<Rightarrow> callbacks) \<Rightarrow> CNode list \<Rightarrow> server \<Rightarrow> os \<Rightarrow> nat list \<Rightarrow> hub \<Rightarrow> bool" where
  "in_turn env cb nds srv0 fs0 order h \<longleftrightarrow>
    length (huConns h) = length nds \<and> distinct order \<and> srvEndpoints (huServer h) = srvEndpoints srv0 \<and>
    (\<forall>i. i \<in> set order \<longleftrightarrow> i < length nds \<and> settle (env i) (huConns h ! i) \<noteq> None) \<and>
    (\<forall>i < length nds. came_from srv0 (env i) (nds ! i) (huConns h ! i)) \<and>
    (\<exists>outs. serve_in_turn env cb nds order (srv0, fs0) = Some (outs, (huServer h, huFiles h)) \<and>
       (\<forall>(i, nd) \<in> set outs. settle (env i) (huConns h ! i) = Some nd))"

lemma in_turn_start: "in_turn env cb nds srv fs [] (hub_start srv fs nds)"
  by (simp add: in_turn_def hub_start_def)

lemma conn_step_cases:
  assumes "\<not> huAbort (conn_step env cb i h)" "i < length (huConns h)"
  obtains st srv fs where "stage_act (env i) (cb i) (huConns h ! i) (huServer h, huFiles h) = (Inr st, (srv, fs))"
    "conn_step env cb i h = h\<lparr>huServer := srv, huFiles := fs, huConns := (huConns h)[i := st]\<rparr>" "\<not> huAbort h"
  using assms by (auto simp: conn_step_def split: if_splits prod.splits sum.splits)

lemma conn_step_out: "length (huConns h) \<le> i \<Longrightarrow> conn_step env cb i h = h"
  by (simp add: conn_step_def)

lemma in_turn_step:
  assumes "in_turn env cb nds srv0 fs0 order h" "\<And>j. keeps_endpoints (cb j)" "\<not> huAbort (conn_step env cb i h)"
  shows "in_turn env cb nds srv0 fs0 order (conn_step env cb i h)
    \<or> in_turn env cb nds srv0 fs0 (order @ [i]) (conn_step env cb i h)"
proof (cases "i < length nds")
  case i: True
  have inv: "length (huConns h) = length nds" "distinct order" "srvEndpoints (huServer h) = srvEndpoints srv0"
    "\<And>j. j \<in> set order \<longleftrightarrow> j < length nds \<and> settle (env j) (huConns h ! j) \<noteq> None"
    "\<And>j. j < length nds \<Longrightarrow> came_from srv0 (env j) (nds ! j) (huConns h ! j)"
    using assms(1) by (auto simp: in_turn_def)
  obtain outs where outs: "serve_in_turn env cb nds order (srv0, fs0) = Some (outs, (huServer h, huFiles h))"
    "\<And>j nd. (j, nd) \<in> set outs \<Longrightarrow> settle (env j) (huConns h ! j) = Some nd"
    using assms(1) unfolding in_turn_def by fast
  have in_order: "(j, nd) \<in> set outs \<Longrightarrow> j \<in> set order" for j nd
    using serve_outs [OF outs(1)] by force
  have "i < length (huConns h)" using i inv(1) by simp
  with assms(3) obtain st srv fs where
    st: "stage_act (env i) (cb i) (huConns h ! i) (huServer h, huFiles h) = (Inr st, (srv, fs))"
    and h: "conn_step env cb i h = h\<lparr>huServer := srv, huFiles := fs, huConns := (huConns h)[i := st]\<rparr>"
    by (rule conn_step_cases)
  have at: "(huConns (conn_step env cb i h)) ! j = (if j = i then st else huConns h ! j)" for j
    using h i inv(1) by (cases "j = i") simp_all
  note step = stage_step [OF inv(5) [OF i] inv(3) assms(2) [of i] st]
  have common: "length (huConns (conn_step env cb i h)) = length nds"
    "srvEndpoints (huServer (conn_step env cb i h)) = srvEndpoints srv0"
    "\<forall>j < length nds. came_from srv0 (env j) (nds ! j) (huConns (conn_step env cb i h) ! j)"
    using step inv(1,5) h unfolding at by simp_all
  show ?thesis
  proof (cases "settle (env i) (huConns h ! i) = None \<and> settle (env i) st \<noteq> None")
    case True
    then obtain nd where nd: "settle (env i) st = Some nd" "i \<notin> set order" using inv(4) by auto
    from step True nd(1) have "run_alone (env i) (cb i) (nds ! i) (huServer h, huFiles h) = Some (nd, (srv, fs))" by simp
    from serve_snoc [OF outs(1) this] have
      "serve_in_turn env cb nds (order @ [i]) (srv0, fs0) = Some (outs @ [(i, nd)], (srv, fs))" .
    moreover have "\<forall>(j, nd) \<in> set (outs @ [(i, nd)]). settle (env j) (huConns (conn_step env cb i h) ! j) = Some nd"
      using outs(2) nd in_order by (auto simp: at)
    moreover have "j \<in> set (order @ [i]) \<longleftrightarrow> j < length nds \<and> settle (env j) (huConns (conn_step env cb i h) ! j) \<noteq> None" for j
      using inv(4) [of j] nd i by (auto simp: at)
    ultimately have "in_turn env cb nds srv0 fs0 (order @ [i]) (conn_step env cb i h)"
      using common inv(2) nd(2) h unfolding in_turn_def by (intro conjI) auto
    then show ?thesis ..
  next
    case False
    with step have same: "settle (env i) st = settle (env i) (huConns h ! i)" "srv = huServer h" "fs = huFiles h"
      by (auto split: if_splits)
    then have "settle (env j) (huConns (conn_step env cb i h) ! j) = settle (env j) (huConns h ! j)" for j by (simp add: at)
    then have "in_turn env cb nds srv0 fs0 order (conn_step env cb i h)"
      using common inv(2,4) outs h same unfolding in_turn_def by (intro conjI) auto
    then show ?thesis ..
  qed
next
  case False
  with assms(1) have "length (huConns h) \<le> i" by (simp add: in_turn_def)
  with assms(1) show ?thesis by (simp add: conn_step_out)
qed

lemma abort_stays: "huAbort h \<Longrightarrow> huAbort (conn_step env cb i h)"
  by (simp add: conn_step_def)

lemma conns_run_in_turn:
  assumes "\<And>j. keeps_endpoints (cb j)" "\<not> huAbort (conns_run env cb sched (hub_start srv fs nds))"
  shows "\<exists>order. subseq order sched \<and> in_turn env cb nds srv fs order (conns_run env cb sched (hub_start srv fs nds))"
  using assms(2)
proof (induction sched rule: rev_induct)
  case Nil
  then show ?case using in_turn_start by (intro exI [of _ "[]"]) (simp add: conns_run_def)
next
  case (snoc i sched)
  let ?h = "conns_run env cb sched (hub_start srv fs nds)"
  have run: "conns_run env cb (sched @ [i]) (hub_start srv fs nds) = conn_step env cb i ?h" by (rule conns_run_snoc)
  with snoc.prems have ok: "\<not> huAbort (conn_step env cb i ?h)" "\<not> huAbort ?h" using abort_stays by auto
  from snoc.IH [OF ok(2)] obtain order where o: "subseq order sched" "in_turn env cb nds srv fs order ?h" by blast
  from in_turn_step [OF o(2) _ ok(1)] assms(1) show ?case unfolding run
    using o(1) by (auto intro: list_emb_append2 list_emb_append_mono)
qed

section \<open>Every thread comes to its end\<close>

fun steps_left :: "stage \<Rightarrow> nat" where
  "steps_left (Arrived _) = 5"
| "steps_left (Asked _) = 4"
| "steps_left (Calling _ _) = 3"
| "steps_left (Writing _ _) = 2"
| "steps_left (Ending _) = 1"
| "steps_left (Served _) = 0"

fun stage_node :: "stage \<Rightarrow> CNode" where
  "stage_node (Arrived nd) = nd"
| "stage_node (Asked nd) = nd"
| "stage_node (Calling nd _) = nd"
| "stage_node (Writing nd _) = nd"
| "stage_node (Ending nd) = nd"
| "stage_node (Served nd) = nd"

text \<open>How often the socket has been closed when the thread is where it is.\<close>

definition closings :: "stage \<Rightarrow> nat" where
  "closings st = Closed (ndSocket (stage_node st)) + (if steps_left st = 0 then 0 else 2)"

lemma closings_simps [simp]:
  "closings (Arrived nd) = Closed (ndSocket nd) + 2" "closings (Asked nd) = Closed (ndSocket nd) + 2"
  "closings (Calling nd ep) = Closed (ndSocket nd) + 2" "closings (Writing nd resp) = Closed (ndSocket nd) + 2"
  "closings (Ending nd) = Closed (ndSocket nd) + 2" "closings (Served nd) = Closed (ndSocket nd)"
  by (simp_all add: closings_def)

fun can_read :: "stage \<Rightarrow> bool" where
  "can_read (Arrived nd) \<longleftrightarrow> ThrowExceptions (ndSocket nd) \<and> chan_ok (chan (ndSocket nd))"
| "can_read _ \<longleftrightarrow> True"

text \<open>What the functions of the endpoints promise about a server of which \<open>holds\<close> is true.\<close>

definition functions_keep :: "(nat \<Rightarrow> callbacks) \<Rightarrow> (server \<Rightarrow> bool) \<Rightarrow> bool" where
  "functions_keep cb holds \<longleftrightarrow> (\<forall>i p rq srv. holds srv \<longrightarrow>
    (\<exists>resp srv1. cb i p rq srv = (Inr resp, srv1) \<and> holds srv1 \<and> srvStaticIndexes srv1 = srvStaticIndexes srv))"

definition serves :: "thread_env \<Rightarrow> callbacks \<Rightarrow> (server \<Rightarrow> bool) \<Rightarrow> stage \<Rightarrow> server \<Rightarrow> os \<Rightarrow> bool" where
  "serves en cb holds st srv fs \<longleftrightarrow> (\<exists>st1 srv1 fs1. stage_act en cb st (srv, fs) = (Inr st1, (srv1, fs1))
    \<and> can_read st1 \<and> fs_ok fs1 \<and> indexes_ok srv1 \<and> holds srv1 \<and> steps_left st1 \<le> steps_left st - 1 \<and> closings st1 = closings st)"

lemma look_up_serves:
  assumes "fs_ok fs" "indexes_ok srv" "length (teFbuf en) = 512" "holds srv"
  shows "serves en cb holds (Asked nd) srv fs"
proof (cases "ndPath nd = [] \<or> getEndpoint (ndPath nd) (ndMethod nd) srv \<noteq> None")
  case True
  then show ?thesis using assms by (auto simp: serves_def look_up_def)
next
  case False
  then obtain r fs1 where st: "getStaticEndpoint srv (teFbuf en) (ndPath nd) (ndMethod nd) (Some (header_value nd ''Host'')) fs = (Inr r, fs1)"
    "files fs1 = files fs"
    using static_lookup_finds(1) [OF assms(1-3)] unfolding finds_def by blast
  obtain er where "new_MErrorResponse 404 ''Endpoint not found.'' = Some er" using new_MErrorResponse_returns by blast
  with st False assms show ?thesis
    by (cases r) (auto simp: serves_def look_up_def fs_ok_def)
qed

lemma write_closed: "Closed (ndSocket (snd (writeResponse dt resp nd))) = Closed (ndSocket nd)"
proof -
  obtain r nd1 where "writeResponse dt resp nd = (r, nd1)" "Closed (ndSocket nd1) = Closed (ndSocket nd)"
    using run_writes_faults [of "response_writes dt resp" nd] by (auto simp: writeResponse_def)
  then show ?thesis by simp
qed

definition hub_serves :: "(server \<Rightarrow> bool) \<Rightarrow> nat list \<Rightarrow> CNode list \<Rightarrow> hub \<Rightarrow> bool" where
  "hub_serves holds sched nds h \<longleftrightarrow> \<not> huAbort h \<and> length (huConns h) = length nds \<and> fs_ok (huFiles h) \<and>
    indexes_ok (huServer h) \<and> holds (huServer h) \<and>
    (\<forall>i < length nds. can_read (huConns h ! i) \<and> steps_left (huConns h ! i) \<le> 5 - count_list sched i
       \<and> closings (huConns h ! i) = Closed (ndSocket (nds ! i)) + 2)"

lemma hub_serves_start:
  assumes "fs_ok fs" "indexes_ok srv" "holds srv"
    and "\<forall>nd \<in> set nds. ThrowExceptions (ndSocket nd) \<and> chan_ok (chan (ndSocket nd))"
  shows "hub_serves holds [] nds (hub_start srv fs nds)"
  using assms by (simp add: hub_serves_def hub_start_def)

locale endpoint_functions =
  fixes cb :: "nat \<Rightarrow> callbacks"
    and holds :: "server \<Rightarrow> bool"
  assumes keep: "functions_keep cb holds"
begin

lemma stage_serves:
  assumes "fs_ok fs" "indexes_ok srv" "length (teFbuf en) = 512" "can_read st" "holds srv"
  shows "serves en (cb i) holds st srv fs"
proof (cases st)
  case (Arrived nd)
  with assms read_request_returns [of nd "teBuf0 en"] show ?thesis by (auto simp: serves_def)
next
  case (Asked nd)
  with look_up_serves [OF assms(1-3)] assms(5) show ?thesis by simp
next
  case (Calling nd ep)
  obtain resp srv1 where "cb i (epCallback ep) (node_request nd) srv = (Inr resp, srv1)" "holds srv1"
    "srvStaticIndexes srv1 = srvStaticIndexes srv"
    using keep assms(5) unfolding functions_keep_def by blast
  with Calling assms show ?thesis by (auto simp: serves_def indexes_ok_def)
next
  case (Writing nd resp)
  with assms show ?thesis unfolding serves_def Writing writing_ends by (simp add: write_closed)
qed (use assms in \<open>simp_all add: serves_def close_node_def delete_sock_def sock_close_def\<close>)

lemma hub_serves_step:
  assumes "hub_serves holds sched nds h" "\<forall>i. length (teFbuf (env i)) = 512"
  shows "hub_serves holds (sched @ [i]) nds (conn_step env cb i h)"
proof (cases "i < length nds")
  case i: True
  have h: "\<not> huAbort h" "length (huConns h) = length nds" "fs_ok (huFiles h)" "indexes_ok (huServer h)" "holds (huServer h)"
    "\<And>j. j < length nds \<Longrightarrow> can_read (huConns h ! j) \<and> steps_left (huConns h ! j) \<le> 5 - count_list sched j
       \<and> closings (huConns h ! j) = Closed (ndSocket (nds ! j)) + 2"
    using assms(1) by (auto simp: hub_serves_def)
  have "serves (env i) (cb i) holds (huConns h ! i) (huServer h) (huFiles h)"
    using stage_serves assms(2) h(3-6) i by blast
  then obtain st srv fs where st: "stage_act (env i) (cb i) (huConns h ! i) (huServer h, huFiles h) = (Inr st, (srv, fs))"
    "can_read st" "fs_ok fs" "indexes_ok srv" "holds srv" "steps_left st \<le> steps_left (huConns h ! i) - 1"
    "closings st = closings (huConns h ! i)"
    unfolding serves_def by blast
  have "conn_step env cb i h = h\<lparr>huServer := srv, huFiles := fs, huConns := (huConns h)[i := st]\<rparr>"
    using st(1) h(1,2) i by (simp add: conn_step_def)
  moreover have "steps_left st \<le> 5 - Suc (count_list sched i)" using st(6) h(6) [OF i] by linarith
  ultimately show ?thesis using h st i h(6) [OF i]
    by (auto simp: hub_serves_def nth_list_update)
next
  case False
  with assms(1) have "length (huConns h) \<le> i" by (simp add: hub_serves_def)
  with assms(1) show ?thesis by (auto simp: conn_step_out hub_serves_def)
qed

lemma hub_serves_run:
  assumes "hub_serves holds [] nds (hub_start srv fs nds)" "\<forall>i. length (teFbuf (env i)) = 512"
  shows "hub_serves holds sched nds (conns_run env cb sched (hub_start srv fs nds))"
proof (induction sched rule: rev_induct)
  case Nil
  then show ?case using assms(1) by (simp add: conns_run_def)
next
  case (snoc i sched)
  then show ?case unfolding conns_run_snoc using hub_serves_step assms(2) by blast
qed

end

interpretation echo: endpoint_functions "\<lambda>_. echo_callbacks" "\<lambda>_. True"
  by unfold_locales (simp add: functions_keep_def echo_callbacks_def)

section \<open>The properties\<close>

text \<open>Requests served at the same time are linearizable. Whatever the schedule of the
  threads, if the process lives and every thread is done, there is an order of the connections in which
  running \<open>node_run\<close> for one after the other, each alone with the server, ends with the same server and
  files, and with the same bytes sent on every connection. The order places each connection at one of
  its own steps, so a connection that was done before another began comes before it.\<close>

theorem requests_linearizable:
  assumes "\<forall>i. keeps_endpoints (cb i)" and "\<not> huAbort (conns_run env cb sched (hub_start srv fs nds))"
    and "\<forall>i < length nds. steps_left (huConns (conns_run env cb sched (hub_start srv fs nds)) ! i) = 0"
  shows "\<exists>order outs. mset order = mset [0..<length nds] \<and> subseq order sched \<and>
    serve_in_turn env cb nds order (srv, fs) = Some (outs, (huServer (conns_run env cb sched (hub_start srv fs nds)),
      huFiles (conns_run env cb sched (hub_start srv fs nds)))) \<and>
    (\<forall>i < length nds. map_option Served (map_of outs i) = Some (huConns (conns_run env cb sched (hub_start srv fs nds)) ! i))"
proof -
  let ?h = "conns_run env cb sched (hub_start srv fs nds)"
  obtain order where o: "subseq order sched" "in_turn env cb nds srv fs order ?h"
    using conns_run_in_turn [OF _ assms(2)] assms(1) by blast
  have served: "\<exists>nd. huConns ?h ! i = Served nd" if "i < length nds" for i
    using assms(3) that by (cases "huConns ?h ! i") auto
  have all: "set order = set [0..<length nds]" "distinct order"
    using o(2) served unfolding in_turn_def by force+
  obtain outs where outs: "serve_in_turn env cb nds order (srv, fs) = Some (outs, (huServer ?h, huFiles ?h))"
    "\<And>i nd. (i, nd) \<in> set outs \<Longrightarrow> settle (env i) (huConns ?h ! i) = Some nd"
    using o(2) unfolding in_turn_def by fast
  have "map_option Served (map_of outs i) = Some (huConns ?h ! i)" if i: "i < length nds" for i
  proof -
    have "i \<in> fst ` set outs" using serve_outs [OF outs(1)] all(1) i by (simp flip: list.set_map)
    then obtain nd where "map_of outs i = Some nd" by (metis map_of_eq_None_iff not_None_eq)
    with outs(2) [of i nd] served [OF i] show ?thesis by (auto dest: map_of_SomeD)
  qed
  moreover have "mset order = mset [0..<length nds]"
    using all by (metis distinct_upt set_eq_iff_mset_eq_distinct)
  ultimately show ?thesis using o(1) outs(1) by blast
qed

definition sample_env :: "nat \<Rightarrow> thread_env" where
  "sample_env i = \<lparr>teBuf0 = NUL, teFbuf = replicate 512 NUL, teDate = ''t''\<rparr>"

definition sample_start :: hub where
  "sample_start = hub_start (wServer (sample_world [])) sample_fs [sample_node [''garbage''], sample_node [''GET /e'']]"

lemma sample_hub_serves: "hub_serves (\<lambda>_. True) sched [sample_node [''garbage''], sample_node [''GET /e'']]
    (conns_run sample_env (\<lambda>_. echo_callbacks) sched sample_start)"
proof -
  have "fs_ok sample_fs" using sample_world_ok(2) [of "[]"] by (simp add: sample_world_def)
  moreover have "ThrowExceptions (ndSocket (sample_node segs)) \<and> chan_ok (chan (ndSocket (sample_node segs)))" for segs
    using sample_node_reading [of segs] by (simp add: node_reading_def)
  ultimately show ?thesis
    unfolding sample_start_def
    by (intro echo.hub_serves_run hub_serves_start sample_world_ok) (simp_all add: sample_env_def)
qed

lemma requests_linearizable_witness:
  "\<exists>order outs s. mset order = {#0, 1#} \<and>
    serve_in_turn sample_env (\<lambda>_. echo_callbacks) [sample_node [''garbage''], sample_node [''GET /e'']] order
      (wServer (sample_world []), sample_fs) = Some (outs, s)"
proof -
  let ?sched = "[0, 1, 1, 0, 0, 1, 1, 0, 0, 1]" and ?nds = "[sample_node [''garbage''], sample_node [''GET /e'']]"
  let ?h = "conns_run sample_env (\<lambda>_. echo_callbacks) ?sched sample_start"
  have ok: "\<not> huAbort ?h" "\<forall>i < length ?nds. steps_left (huConns ?h ! i) = 0"
    using sample_hub_serves [of ?sched] by (auto simp: hub_serves_def less_Suc_eq)
  have keeps: "\<forall>i. keeps_endpoints ((\<lambda>_. echo_callbacks) i)" by (simp add: keeps_endpoints_def echo_callbacks_def)
  have "mset [0..<length ?nds] = {#0, 1#}" by (simp add: upt_rec)
  with requests_linearizable [OF keeps ok [unfolded sample_start_def]] show ?thesis by metis
qed

text \<open>Connections served at the same time all come to their end: a thread that has been
  scheduled five times is done, whatever the others do meanwhile, whatever the peers send and wherever a
  write fails. Nothing ends the process, every socket is closed exactly twice, and what the endpoints'
  functions keep true of the server is true of it at every moment.\<close>

theorem connections_all_served:
  assumes "functions_keep cb holds" and "holds srv" and "\<forall>i. length (teFbuf (env i)) = 512"
    and "fs_ok fs" and "indexes_ok srv"
    and "\<forall>nd \<in> set nds. ThrowExceptions (ndSocket nd) \<and> chan_ok (chan (ndSocket nd))"
    and "i < length nds" and "5 \<le> count_list sched i"
  shows "\<not> huAbort (conns_run env cb sched (hub_start srv fs nds)) \<and>
    holds (huServer (conns_run env cb sched (hub_start srv fs nds))) \<and>
    (\<exists>nd. huConns (conns_run env cb sched (hub_start srv fs nds)) ! i = Served nd \<and>
       Closed (ndSocket nd) = Closed (ndSocket (nds ! i)) + 2)"
proof -
  let ?h = "conns_run env cb sched (hub_start srv fs nds)"
  have h: "\<not> huAbort ?h" "holds (huServer ?h)" "steps_left (huConns ?h ! i) \<le> 5 - count_list sched i"
    "closings (huConns ?h ! i) = Closed (ndSocket (nds ! i)) + 2"
    using endpoint_functions.hub_serves_run [OF endpoint_functions.intro [OF assms(1)]
        hub_serves_start [where holds = holds, OF assms(4,5,2,6)] assms(3), of sched] assms(7)
    by (auto simp: hub_serves_def)
  then show ?thesis using assms(8) by (cases "huConns ?h ! i") auto
qed

lemma connections_all_served_witness:
  "\<exists>nd. huConns (conns_run sample_env (\<lambda>_. echo_callbacks) [1, 1, 0, 1, 1, 1] sample_start) ! 1 = Served nd \<and> Closed (ndSocket nd) = 2"
proof -
  let ?nds = "[sample_node [''garbage''], sample_node [''GET /e'']]"
  have "fs_ok sample_fs" using sample_world_ok(2) [of "[]"] by (simp add: sample_world_def)
  moreover have "ThrowExceptions (ndSocket (sample_node segs)) \<and> chan_ok (chan (ndSocket (sample_node segs)))"
    "Closed (ndSocket (sample_node segs)) = 0" for segs
    using sample_node_reading [of segs] by (simp_all add: node_reading_def sample_node_def new_CNode_def plain_sock_def
        new_sock_def setTimeout_def setThrowExceptions_def)
  moreover have "functions_keep (\<lambda>_. echo_callbacks) (\<lambda>_. True)" by (rule echo.keep)
  ultimately show ?thesis
    using connections_all_served [of "\<lambda>_. echo_callbacks" "\<lambda>_. True" "wServer (sample_world [])" sample_env sample_fs ?nds 1 "[1, 1, 0, 1, 1, 1]"]
      sample_world_ok by (simp add: sample_start_def sample_env_def numeral_2_eq_2)
qed

end
