(* ===== verification/Std_Map.thy ===== *)
theory Std_Map
  imports Prelude
begin

text \<open>
  \<open>std::map<std::string, std::string>\<close> as its entries in iteration order: an association list
  sorted by key. Keys compare byte by byte as unsigned values, which is the list order of
  \<open>HOL-Library.List_Lexorder\<close> over \<open>HOL-Library.Char_ord\<close>. The interface locale
  \<open>ordered_map\<close> states what a client of the container may assume, its lemmas are proved from
  that alone, and the interpretation discharges it for the list operations.
\<close>

type_synonym smap = "(string \<times> string) list"

fun smap_set :: "string \<Rightarrow> string \<Rightarrow> smap \<Rightarrow> smap" where
  "smap_set k v [] = [(k, v)]"
| "smap_set k v ((j, w) # m) =
    (if k = j then (k, v) # m
     else if k < j then (k, v) # (j, w) # m
     else (j, w) # smap_set k v m)"

fun smap_erase :: "string \<Rightarrow> smap \<Rightarrow> smap" where
  "smap_erase k [] = []"
| "smap_erase k ((j, w) # m) = (if k = j then m else (j, w) # smap_erase k m)"

definition smap_get :: "smap \<Rightarrow> string \<Rightarrow> string option" where
  "smap_get m k = map_of m k"

text \<open>\<open>m[k]\<close> of a missing key inserts the empty string; as a value it is empty.\<close>

definition smap_index :: "smap \<Rightarrow> string \<Rightarrow> string" where
  "smap_index m k = (case smap_get m k of Some v \<Rightarrow> v | None \<Rightarrow> [])"

definition smap_wf :: "smap \<Rightarrow> bool" where
  "smap_wf m \<longleftrightarrow> sorted_wrt (<) (map fst m)"

section \<open>The container's contract\<close>

locale ordered_map =
  fixes get :: "'m \<Rightarrow> 'k::linorder \<Rightarrow> 'v option"
    and put :: "'k \<Rightarrow> 'v \<Rightarrow> 'm \<Rightarrow> 'm"
    and del :: "'k \<Rightarrow> 'm \<Rightarrow> 'm"
    and items :: "'m \<Rightarrow> ('k \<times> 'v) list"
    and wf :: "'m \<Rightarrow> bool"
  assumes get_put: "wf m \<Longrightarrow> get (put k v m) j = (if j = k then Some v else get m j)"
    and get_del: "wf m \<Longrightarrow> get (del k m) j = (if j = k then None else get m j)"
    and wf_put: "wf m \<Longrightarrow> wf (put k v m)"
    and wf_del: "wf m \<Longrightarrow> wf (del k m)"
    and items_get: "wf m \<Longrightarrow> get m = map_of (items m)"
    and items_sorted: "wf m \<Longrightarrow> sorted_wrt (<) (map fst (items m))"
begin

lemma items_determined:
  assumes "wf m" "wf m'" "get m = get m'"
  shows "items m = items m'"
proof -
  have distinct: "wf n \<Longrightarrow> distinct (map fst (items n))" for n
    using items_sorted [of n] by (simp add: strict_sorted_iff)
  have same: "map_of (items m) = map_of (items m')"
    using assms items_get by metis
  then have sets: "set (items m) = set (items m')"
    by (metis assms(1,2) distinct map_of_eq_Some_iff subset_antisym subrelI)
  have keys: "map fst (items m) = map fst (items m')"
    by (rule strict_sorted_equal) (use assms items_sorted sets in auto)
  show ?thesis
  proof (rule nth_equalityI)
    show len: "length (items m) = length (items m')"
      using keys by (metis length_map)
    fix i assume i: "i < length (items m)"
    have k: "fst (items m ! i) = fst (items m' ! i)"
      using keys i len by (metis nth_map)
    have "map_of (items m) (fst (items m ! i)) = Some (snd (items m ! i))"
      using i distinct [OF assms(1)] by (simp add: map_of_eq_Some_iff)
    moreover have "map_of (items m') (fst (items m' ! i)) = Some (snd (items m' ! i))"
      using i len distinct [OF assms(2)] by (simp add: map_of_eq_Some_iff)
    ultimately show "items m ! i = items m' ! i"
      using k same by (simp add: prod_eq_iff)
  qed
qed

lemma put_put_same: "wf m \<Longrightarrow> items (put k w (put k v m)) = items (put k w m)"
  by (rule items_determined) (auto simp: get_put wf_put)

lemma put_put_swap:
  "wf m \<Longrightarrow> j \<noteq> k \<Longrightarrow> items (put j w (put k v m)) = items (put k v (put j w m))"
  by (rule items_determined) (auto simp: get_put wf_put)

lemma del_put_same: "wf m \<Longrightarrow> items (del k (put k v m)) = items (del k m)"
  by (rule items_determined) (auto simp: get_put get_del wf_put wf_del)

lemma items_mem: "wf m \<Longrightarrow> (k, v) \<in> set (items m) \<longleftrightarrow> get m k = Some v"
  using items_get [of m] items_sorted [of m]
  by (simp add: strict_sorted_iff map_of_eq_Some_iff)

end

section \<open>The sorted list provides it\<close>

lemma smap_set_keys: "set (map fst (smap_set k v m)) = insert k (set (map fst m))"
  by (induction k v m rule: smap_set.induct) auto

lemma smap_erase_keys: "set (map fst (smap_erase k m)) \<subseteq> set (map fst m)"
  by (induction k m rule: smap_erase.induct) auto

lemma smap_wf_Cons:
  "smap_wf ((j, w) # m) \<longleftrightarrow> (\<forall>k \<in> set (map fst m). j < k) \<and> smap_wf m"
  by (simp add: smap_wf_def)

lemma smap_wf_set: "smap_wf m \<Longrightarrow> smap_wf (smap_set k v m)"
proof (induction k v m rule: smap_set.induct)
  case (2 k v j w m)
  from "2.prems" have tl: "\<forall>x \<in> set (map fst m). j < x" "smap_wf m"
    unfolding smap_wf_Cons by blast+
  consider "k = j" | "k < j" | "j < k" by (meson linorder_less_linear)
  then show ?case
  proof cases
    case 3
    then have ne: "k \<noteq> j" "\<not> k < j" by auto
    have "smap_wf (smap_set k v m)" using 2 ne tl by blast
    moreover have "\<forall>x \<in> set (map fst (smap_set k v m)). j < x"
      using tl 3 by (simp only: smap_set_keys) auto
    ultimately show ?thesis using ne by (simp add: smap_wf_Cons)
  qed (use tl in \<open>auto simp: smap_wf_Cons\<close>)
qed (simp add: smap_wf_def)

lemma smap_wf_erase: "smap_wf m \<Longrightarrow> smap_wf (smap_erase k m)"
proof (induction k m rule: smap_erase.induct)
  case (2 k j w m)
  then show ?case
    using smap_erase_keys [of k m] by (auto simp: smap_wf_Cons simp del: set_map)
qed simp

lemma smap_get_set: "smap_get (smap_set k v m) j = (if j = k then Some v else smap_get m j)"
  by (induction k v m rule: smap_set.induct) (auto simp: smap_get_def)

lemma smap_get_erase:
  "smap_wf m \<Longrightarrow> smap_get (smap_erase k m) j = (if j = k then None else smap_get m j)"
proof (induction k m rule: smap_erase.induct)
  case (2 k i w m)
  then have "map_of m i = None" by (auto simp: smap_wf_Cons map_of_eq_None_iff)
  with 2 show ?case by (auto simp: smap_get_def smap_wf_Cons)
qed (simp add: smap_get_def)

interpretation sm: ordered_map smap_get smap_set smap_erase "\<lambda>m. m" smap_wf
proof unfold_locales
  fix m :: smap
  show "smap_wf m \<Longrightarrow> smap_get m = map_of m" by (simp add: smap_get_def fun_eq_iff)
  show "smap_wf m \<Longrightarrow> sorted_wrt (<) (map fst m)" by (simp add: smap_wf_def)
qed (simp_all add: smap_get_set smap_get_erase smap_wf_set smap_wf_erase)

lemma smap_wf_Nil [simp]: "smap_wf []"
  by (simp add: smap_wf_def)

end
