(* ===== verification/Db_Handle.thy ===== *)
theory Db_Handle
  imports Std_Map Std_Numbers Std_Text Contracts
begin

text \<open>
  The data of the database layer (\<open>src/handlers/CDatabaseHandler.h\<close>,
  \<open>src/server/CDatabaseHandle.h\<close>): the result object \<open>CDatabaseResource\<close>, the handle
  \<open>CDatabaseHandle\<close> that owns one, and the memory both live in. The operations a
  \<open>CTransaction\<close> calls on its \<open>CDatabaseTransaction\<close>, the constructor of a resource and the two
  destructors are the fields of
  \<open>backend\<close>; the locale \<open>db_backend\<close> is what a transaction relies on, and each of the three
  handler files interprets it in \<open>Db_Backends\<close>.
\<close>

type_synonym DBROW = "string list"

text \<open>
  \<open>void *Resource\<close>: a result set of the MySQL library, the \<open>pqxx::work\<close> object, or the
  indeterminate value the stub constructor leaves.
\<close>

datatype resource_ptr = NullPtr | ResultSet nat | WorkPtr | Indeterminate

record CDatabaseResource =
  drID :: string
  drError :: string
  drResource :: resource_ptr
  drData :: "DBROW list"

definition error_resource :: "string \<Rightarrow> CDatabaseResource" where
  "error_resource e = \<lparr>drID = [], drError = e, drResource = NullPtr, drData = []\<rparr>"

definition new_resource :: "resource_ptr \<Rightarrow> string \<Rightarrow> CDatabaseResource" where
  "new_resource r i = \<lparr>drID = i, drError = [], drResource = r, drData = []\<rparr>"

definition stub_resource :: "resource_ptr \<Rightarrow> string \<Rightarrow> CDatabaseResource" where
  "stub_resource r i = \<lparr>drID = [], drError = [], drResource = Indeterminate, drData = []\<rparr>"

definition setData :: "DBROW list \<Rightarrow> CDatabaseResource \<Rightarrow> CDatabaseResource" where
  "setData rows rs = rs\<lparr>drData := rows\<rparr>"

definition getFirst :: "CDatabaseResource \<Rightarrow> DBROW" where
  "getFirst rs = (if 0 < length (drData rs) then drData rs ! 0 else [])"

definition res_size :: "CDatabaseResource \<Rightarrow> nat" where
  "res_size rs = u32 (length (drData rs))"

definition res_isError :: "CDatabaseResource \<Rightarrow> bool" where
  "res_isError rs = (0 < length (drError rs))"

record CDatabaseHandle =
  dhRS :: "CDatabaseResource option"
  dhID :: string

text \<open>
  The memory of the layer: what the external library and server hold (\<open>dbExt\<close>), the static
  \<open>CTransaction::Lock\<close>, the result sets the MySQL library has allocated and not freed, and the
  handle objects.
\<close>

record 'd db =
  dbExt :: 'd
  dbLock :: bool
  dbResults :: "nat set"
  dbNextResult :: nat
  dbHandles :: "nat \<Rightarrow> CDatabaseHandle option"
  dbNextHandle :: nat

definition fresh_db :: "'d \<Rightarrow> 'd db" where
  "fresh_db d = \<lparr>dbExt = d, dbLock = False, dbResults = {}, dbNextResult = 0,
    dbHandles = (\<lambda>_. None), dbNextHandle = 0\<rparr>"

text \<open>The callback of \<open>query\<close> gets a row and the \<open>void*\<close> parameter, here always a resource.\<close>

type_synonym row_callback = "DBROW \<Rightarrow> CDatabaseResource \<Rightarrow> CDatabaseResource"

record 'd backend =
  be_new_resource :: "resource_ptr \<Rightarrow> string \<Rightarrow> CDatabaseResource"
  be_exec :: "string \<Rightarrow> ('d db, int) act"
  be_insert :: "string \<Rightarrow> string \<Rightarrow> ('d db, CDatabaseResource option) act"
  be_query :: "string \<Rightarrow> row_callback option \<Rightarrow> CDatabaseResource \<Rightarrow> ('d db, bool \<times> CDatabaseResource) act"
  be_queryOne :: "string \<Rightarrow> ('d db, CDatabaseResource option) act"
  be_esc :: "string \<Rightarrow> ('d db, string) act"
  be_commit :: "('d db, unit) act"
  be_free_resource :: "CDatabaseResource \<Rightarrow> ('d db, unit) act"
  be_free :: "('d db, unit) act"

section \<open>Handles\<close>

definition new_handle :: "CDatabaseResource option \<Rightarrow> ('d db, nat) act" where
  "new_handle rs db = (let p = dbNextHandle db in
    (Inr p, db\<lparr>dbHandles := (dbHandles db)(p \<mapsto> \<lparr>dhRS = rs, dhID = []\<rparr>), dbNextHandle := Suc p\<rparr>))"

definition the_handle :: "nat \<Rightarrow> ('d db, CDatabaseHandle) act" where
  "the_handle p db = (case dbHandles db p of None \<Rightarrow> (Inl UseAfterFree, db) | Some h \<Rightarrow> (Inr h, db))"

text \<open>\<open>delete\<close> of a handle: its destructor deletes the resource first.\<close>

definition delete_handle :: "'d backend \<Rightarrow> nat \<Rightarrow> ('d db, unit) act" where
  "delete_handle be p db = (case dbHandles db p of
      None \<Rightarrow> (Inl DoubleFree, db)
    | Some h \<Rightarrow>
        (case (case dhRS h of None \<Rightarrow> (Inr (), db) | Some rs \<Rightarrow> be_free_resource be rs db) of
           (Inl e, db1) \<Rightarrow> (Inl e, db1)
         | (Inr _, db1) \<Rightarrow> (Inr (), db1\<lparr>dbHandles := (dbHandles db1)(p := None)\<rparr>)))"

text \<open>Reading through \<open>RS\<close>, which the code does without a test in all but three operations.\<close>

definition through_RS :: "CDatabaseHandle \<Rightarrow> (CDatabaseResource \<Rightarrow> 'a) \<Rightarrow> ('d db, 'a) act" where
  "through_RS h f db = (case dhRS h of None \<Rightarrow> (Inl NullDeref, db) | Some rs \<Rightarrow> (Inr (f rs), db))"

definition dh_getID :: "nat \<Rightarrow> ('d db, string) act" where
  "dh_getID p = bind_act (the_handle p)
    (\<lambda>h. return_act (case dhRS h of Some rs \<Rightarrow> drID rs | None \<Rightarrow> dhID h))"

definition dh_setID :: "nat \<Rightarrow> string \<Rightarrow> ('d db, unit) act" where
  "dh_setID p i = bind_act (the_handle p) (\<lambda>h db. (Inr (),
    db\<lparr>dbHandles := (dbHandles db)(p \<mapsto>
      h\<lparr>dhRS := map_option (\<lambda>rs. rs\<lparr>drID := i\<rparr>) (dhRS h), dhID := i\<rparr>)\<rparr>))"

definition dh_getData :: "nat \<Rightarrow> ('d db, DBROW list) act" where
  "dh_getData p = bind_act (the_handle p) (\<lambda>h. through_RS h drData)"

definition dh_size :: "nat \<Rightarrow> ('d db, nat) act" where
  "dh_size p = bind_act (the_handle p)
    (\<lambda>h. return_act (case dhRS h of Some rs \<Rightarrow> u32 (length (drData rs)) | None \<Rightarrow> 0))"

definition dh_dispose :: "'d backend \<Rightarrow> nat \<Rightarrow> ('d db, unit) act" where
  "dh_dispose be p = delete_handle be p"

definition dh_disposeAndGetError :: "'d backend \<Rightarrow> nat \<Rightarrow> ('d db, string) act" where
  "dh_disposeAndGetError be p = bind_act (the_handle p) (\<lambda>h. bind_act (through_RS h drError)
    (\<lambda>e. then_act (dh_dispose be p) (return_act e)))"

definition dh_disposeAndGetID :: "'d backend \<Rightarrow> nat \<Rightarrow> ('d db, string) act" where
  "dh_disposeAndGetID be p = bind_act (the_handle p) (\<lambda>h. bind_act (through_RS h drID)
    (\<lambda>i. then_act (dh_dispose be p) (return_act i)))"

definition dh_isError :: "nat \<Rightarrow> ('d db, bool) act" where
  "dh_isError p = bind_act (the_handle p) (\<lambda>h. through_RS h res_isError)"

definition dh_getError :: "nat \<Rightarrow> ('d db, string) act" where
  "dh_getError p = bind_act (the_handle p) (\<lambda>h. through_RS h drError)"

section \<open>What a transaction relies on\<close>

text \<open>
  No backend operation touches the transaction's static lock or the handle objects, whatever its
  outcome: these belong to the layer above.
\<close>

definition keeps_layer :: "('d db, 'a) act \<Rightarrow> bool" where
  "keeps_layer m \<longleftrightarrow> (\<forall>db. dbLock (snd (m db)) = dbLock db \<and>
    dbHandles (snd (m db)) = dbHandles db \<and> dbNextHandle (snd (m db)) = dbNextHandle db)"

lemma keeps_layerI:
  "(\<And>db r db'. m db = (r, db') \<Longrightarrow> dbLock db' = dbLock db \<and> dbHandles db' = dbHandles db
     \<and> dbNextHandle db' = dbNextHandle db) \<Longrightarrow> keeps_layer m"
  unfolding keeps_layer_def by (metis prod.collapse)

lemma keeps_layerD:
  assumes "keeps_layer m" "m db = (r, db')"
  shows "dbLock db' = dbLock db" "dbHandles db' = dbHandles db" "dbNextHandle db' = dbNextHandle db"
  using assms unfolding keeps_layer_def by (metis snd_conv)+

locale db_backend =
  fixes be :: "'d backend"
  assumes exec_frame: "keeps_layer (be_exec be s)"
    and insert_frame: "keeps_layer (be_insert be s f)"
    and query_frame: "keeps_layer (be_query be s cb p)"
    and queryOne_frame: "keeps_layer (be_queryOne be s)"
    and esc_frame: "keeps_layer (be_esc be s)"
    and free_resource_frame: "keeps_layer (be_free_resource be rs)"
    and free_frame: "keeps_layer (be_free be)"
begin

lemma delete_handle_lock: "dbLock (snd (delete_handle be p db)) = dbLock db"
  using free_resource_frame
  by (auto simp: delete_handle_def keeps_layer_def split: option.split sum.split prod.split)
    (metis snd_conv)+

lemma delete_handle_outcome:
  assumes "delete_handle be p db = (r, db')"
  shows "dbHandles db' = (case r of Inl _ \<Rightarrow> dbHandles db | Inr _ \<Rightarrow> (dbHandles db)(p := None))"
    and "dbNextHandle db' = dbNextHandle db"
proof -
  have *: "dbHandles db' = (case r of Inl _ \<Rightarrow> dbHandles db | Inr _ \<Rightarrow> (dbHandles db)(p := None))
    \<and> dbNextHandle db' = dbNextHandle db"
  proof (cases "dbHandles db p")
    case None
    then show ?thesis using assms by (auto simp: delete_handle_def)
  next
    case (Some h)
    show ?thesis
    proof (cases "dhRS h")
      case None
      then show ?thesis using assms Some by (auto simp: delete_handle_def)
    next
      case rs: (Some rs)
      obtain q db1 where f: "be_free_resource be rs db = (q, db1)" by fastforce
      note k = keeps_layerD [OF free_resource_frame f]
      show ?thesis using assms Some rs f k by (cases q) (auto simp: delete_handle_def)
    qed
  qed
  then show "dbHandles db' = (case r of Inl _ \<Rightarrow> dbHandles db | Inr _ \<Rightarrow> (dbHandles db)(p := None))"
    and "dbNextHandle db' = dbNextHandle db" by blast+
qed

lemma delete_handle_twice:
  assumes "delete_handle be p db = (Inr u, db')"
  shows "delete_handle be p db' = (Inl DoubleFree, db')"
  using delete_handle_outcome(1) [OF assms] by (simp add: delete_handle_def)

end

end
