(* ===== verification/Transaction.thy ===== *)
theory Transaction
  imports Db_Backends
begin

text \<open>
  \<open>CTransaction\<close> (\<open>src/server/CTransaction.h\<close>, \<open>CTransaction.cpp\<close>): building the SQL statements,
  the calls of the backend under the class-wide \<open>Lock\<close>, and the handles a transaction owns. A
  call that finds \<open>Lock\<close> set spins on it; as nothing in the thread's own future clears the flag,
  that is \<open>Diverges\<close>.
\<close>

record 'd tx =
  txDb :: "'d db"
  txHandles :: "nat list"

definition new_CTransaction :: "'d db \<Rightarrow> 'd tx" where
  "new_CTransaction db = \<lparr>txDb = db, txHandles = []\<rparr>"

definition on_db :: "('d db, 'a) act \<Rightarrow> ('d tx, 'a) act" where
  "on_db m tx = (let (r, db) = m (txDb tx) in (r, tx\<lparr>txDb := db\<rparr>))"

text \<open>\<open>while(Lock) usleep(1); Lock = true; ...; Lock = false;\<close>\<close>

definition with_lock :: "('d db, 'a) act \<Rightarrow> ('d db, 'a) act" where
  "with_lock m db = (if dbLock db then (Inl Diverges, db)
    else case m (db\<lparr>dbLock := True\<rparr>) of
      (Inl e, db1) \<Rightarrow> (Inl e, db1)
    | (Inr x, db1) \<Rightarrow> (Inr x, db1\<lparr>dbLock := False\<rparr>))"

definition tx_exec :: "'d backend \<Rightarrow> string \<Rightarrow> ('d tx, int) act" where
  "tx_exec be s = on_db (with_lock (be_exec be s))"

definition tx_esc :: "'d backend \<Rightarrow> string \<Rightarrow> ('d tx, string) act" where
  "tx_esc be s = on_db (with_lock (be_esc be s))"

text \<open>The handle is allocated while the lock is held; \<open>Handles.push_back\<close> comes after.\<close>

definition keep_handle :: "nat \<Rightarrow> ('d tx, nat) act" where
  "keep_handle p tx = (Inr p, tx\<lparr>txHandles := txHandles tx @ [p]\<rparr>)"

definition handle_from :: "('d db, CDatabaseResource option) act \<Rightarrow> ('d tx, nat) act" where
  "handle_from m = bind_act (on_db (with_lock (bind_act m new_handle))) keep_handle"

section \<open>Statements\<close>

text \<open>\<open>if(acc.size() > 0) acc += sep;\<close>\<close>

definition sep_if :: "string \<Rightarrow> string \<Rightarrow> string" where
  "sep_if sep acc = (if 0 < length acc then acc @ sep else acc)"

fun insert_loop :: "'d backend \<Rightarrow> smap \<Rightarrow> string \<Rightarrow> string \<Rightarrow> ('d tx, string \<times> string) act" where
  "insert_loop be [] acc vals = return_act (acc, vals)"
| "insert_loop be ((k, v) # m) acc vals = bind_act (tx_esc be v)
     (\<lambda>e. insert_loop be m (sep_if '','' acc @ k) (sep_if '','' vals @ [CHR 0x27] @ e @ [CHR 0x27]))"

definition insert_text :: "string \<Rightarrow> string \<Rightarrow> string \<Rightarrow> string" where
  "insert_text tableName acc vals =
    ''INSERT INTO '' @ tableName @ '' ('' @ acc @ '') VALUES ('' @ vals @ '')''"

definition tx_insert :: "'d backend \<Rightarrow> string \<Rightarrow> smap \<Rightarrow> ('d tx, nat) act" where
  "tx_insert be tableName vars = bind_act (insert_loop be vars [] [])
    (\<lambda>(acc, vals). handle_from (be_insert be (insert_text tableName acc vals) ''id''))"

text \<open>The two loops of \<open>update\<close>; the first appends the value as it is.\<close>

fun find_loop :: "smap \<Rightarrow> string \<Rightarrow> string" where
  "find_loop [] acc = acc"
| "find_loop ((k, v) # m) acc =
     find_loop m (sep_if '' AND '' acc @ k @ ''='' @ [CHR 0x27] @ v @ [CHR 0x27])"

fun set_loop :: "'d backend \<Rightarrow> string \<Rightarrow> smap \<Rightarrow> string \<Rightarrow> ('d tx, string) act" where
  "set_loop be sep [] acc = return_act acc"
| "set_loop be sep ((k, v) # m) acc = bind_act (tx_esc be v)
     (\<lambda>e. set_loop be sep m (sep_if sep acc @ k @ ''='' @ [CHR 0x27] @ e @ [CHR 0x27]))"

definition update_text :: "string \<Rightarrow> string \<Rightarrow> string \<Rightarrow> string" where
  "update_text tableName vals acc = ''UPDATE '' @ tableName @ '' SET '' @ vals @ '' WHERE '' @ acc"

definition tx_update :: "'d backend \<Rightarrow> string \<Rightarrow> smap \<Rightarrow> smap \<Rightarrow> ('d tx, bool) act" where
  "tx_update be tableName sought vars = bind_act (set_loop be '','' vars [])
    (\<lambda>vals. bind_act (on_db (with_lock
        (be_query be (update_text tableName vals (find_loop sought [])) None (be_new_resource be NullPtr []))))
      (\<lambda>(ok, _). return_act ok))"

fun columns_loop :: "string list \<Rightarrow> string \<Rightarrow> string" where
  "columns_loop [] q = q"
| "columns_loop (c # cs) q = columns_loop cs (sep_if '','' q @ c)"

text \<open>\<open>sort\<close> (\<open>order\<close> here) and \<open>limit\<close> are left out when empty; the condition when there are no variables.\<close>

definition select_text :: "string \<Rightarrow> string \<Rightarrow> smap \<Rightarrow> string \<Rightarrow> string \<Rightarrow> string \<Rightarrow> string" where
  "select_text tableName q vars acc order limit =
    ''SELECT '' @ q @ '' FROM '' @ tableName
    @ (if 0 < length vars then '' WHERE '' @ acc else [])
    @ (if 0 < length order then '' ORDER BY '' @ order else [])
    @ (if 0 < length limit then '' LIMIT '' @ limit else [])"

definition tx_selectOne :: "'d backend \<Rightarrow> string \<Rightarrow> string list \<Rightarrow> smap \<Rightarrow> string \<Rightarrow> ('d tx, nat) act" where
  "tx_selectOne be tableName cols vars order = bind_act (set_loop be '' AND '' vars [])
    (\<lambda>acc. handle_from (be_queryOne be
      (select_text tableName (columns_loop cols []) vars acc order ''1'')))"

definition selectCallback :: row_callback where
  "selectCallback row rs = rs\<lparr>drData := drData rs @ [row]\<rparr>"

text \<open>The boolean result of \<open>query\<close> is ignored; the handle gets the resource with the rows.\<close>

definition rows_of :: "'d backend \<Rightarrow> string \<Rightarrow> ('d db, CDatabaseResource) act" where
  "rows_of be s = bind_act (be_query be s (Some selectCallback) (be_new_resource be NullPtr []))
    (\<lambda>(ok, rs). return_act rs)"

definition tx_selectCustom :: "'d backend \<Rightarrow> string \<Rightarrow> ('d tx, nat) act" where
  "tx_selectCustom be query = bind_act (on_db (with_lock (rows_of be query)))
    (\<lambda>rs. bind_act (on_db (new_handle (Some rs))) keep_handle)"

definition tx_select :: "'d backend \<Rightarrow> string \<Rightarrow> string list \<Rightarrow> smap \<Rightarrow> string \<Rightarrow> string \<Rightarrow> ('d tx, nat) act" where
  "tx_select be tableName cols vars order limit = bind_act (set_loop be '' AND '' vars [])
    (\<lambda>acc. tx_selectCustom be
      (select_text tableName (columns_loop cols []) vars acc order limit))"

definition tx_commit :: "'d backend \<Rightarrow> ('d tx, unit) act" where
  "tx_commit be = bind_act (on_db (with_lock (be_exec be ''commit;''))) (\<lambda>_. return_act ())"

section \<open>The end of a transaction\<close>

definition tx_cleanup :: "'d backend \<Rightarrow> ('d tx, unit) act" where
  "tx_cleanup be = bind_act (\<lambda>tx. on_db (run_acts (List.map (delete_handle be) (txHandles tx))) tx)
    (\<lambda>_ tx. (Inr (), tx\<lparr>txHandles := []\<rparr>))"

definition tx_dispose :: "'d backend \<Rightarrow> ('d tx, unit) act" where
  "tx_dispose be = bind_act (tx_cleanup be) (\<lambda>_. on_db (be_free be))"

end
