(* ===== verification/Transaction_Facts.thy ===== *)
theory Transaction_Facts
  imports Transaction
begin

text \<open>
  What a transaction guarantees, over any backend that keeps the layer's lock and handles
  (\<open>db_backend\<close>): the discipline of the class-wide lock on every outcome, who owns the handles and
  who frees them, and the shape of the statements it sends.
\<close>

section \<open>Calls\<close>

text \<open>One call of the interface \<open>ITransaction\<close>, its result dropped.\<close>

datatype tx_call =
    Exec string
  | Insert string smap
  | Update string smap smap
  | SelectOne string "string list" smap string
  | SelectCustom string
  | Select string "string list" smap string string
  | Commit
  | Esc string

fun run_call :: "'d backend \<Rightarrow> tx_call \<Rightarrow> ('d tx, unit) act" where
  "run_call be (Exec s) = drop_result (tx_exec be s)"
| "run_call be (Insert t vars) = drop_result (tx_insert be t vars)"
| "run_call be (Update t sought vars) = drop_result (tx_update be t sought vars)"
| "run_call be (SelectOne t cols vars order) = drop_result (tx_selectOne be t cols vars order)"
| "run_call be (SelectCustom q) = drop_result (tx_selectCustom be q)"
| "run_call be (Select t cols vars order limit) = drop_result (tx_select be t cols vars order limit)"
| "run_call be Commit = tx_commit be"
| "run_call be (Esc s) = drop_result (tx_esc be s)"

section \<open>Acts that take the lock\<close>

abbreviation locked :: "'d tx \<Rightarrow> bool" where
  "locked tx \<equiv> dbLock (txDb tx)"

text \<open>
  \<open>disciplined\<close>: started with the lock clear, a normal return leaves it clear and a fault leaves
  it set. \<open>blocked\<close>: started with the lock set, the act spins without touching anything.
\<close>

definition disciplined :: "('d tx, 'a) act \<Rightarrow> bool" where
  "disciplined m \<longleftrightarrow> (\<forall>tx. \<not> locked tx \<longrightarrow> locked (snd (m tx)) = isl (fst (m tx)))"

definition blocked :: "('d tx, 'a) act \<Rightarrow> bool" where
  "blocked m \<longleftrightarrow> (\<forall>tx. locked tx \<longrightarrow> m tx = (Inl Diverges, tx))"

lemma disciplined_return [intro]: "disciplined (return_act x)"
  by (simp add: disciplined_def return_act_def)

lemma disciplined_keep [intro]: "disciplined (keep_handle p)"
  by (simp add: disciplined_def keep_handle_def)

lemma disciplined_new [intro]: "disciplined (on_db (new_handle rs))"
  by (simp add: disciplined_def on_db_def new_handle_def Let_def)

lemma disciplinedD: "disciplined m \<Longrightarrow> \<not> locked tx \<Longrightarrow> m tx = (r, tx1) \<Longrightarrow> locked tx1 = isl r"
  unfolding disciplined_def by (metis fst_conv snd_conv)

lemma disciplined_bind [intro]:
  assumes m: "disciplined m" and k: "\<And>x. disciplined (k x)"
  shows "disciplined (bind_act m k)"
  unfolding disciplined_def
proof (intro allI impI)
  fix tx :: "'a tx"
  assume tx: "\<not> locked tx"
  obtain r tx1 where r: "m tx = (r, tx1)" by fastforce
  show "locked (snd (bind_act m k tx)) = isl (fst (bind_act m k tx))"
  proof (cases r)
    case (Inl e)
    with disciplinedD [OF m tx r] r show ?thesis by (simp add: bind_act_def)
  next
    case (Inr x)
    with disciplinedD [OF m tx r] have "\<not> locked tx1" by simp
    with k [of x] r Inr show ?thesis by (simp add: bind_act_def disciplined_def)
  qed
qed

lemma disciplined_with_lock:
  assumes "\<And>db. dbLock (snd (m db)) = dbLock db"
  shows "disciplined (on_db (with_lock m))"
  unfolding disciplined_def
proof (intro allI impI)
  fix tx :: "'a tx"
  assume tx: "\<not> locked tx"
  obtain r db where r: "m ((txDb tx)\<lparr>dbLock := True\<rparr>) = (r, db)" by fastforce
  then have "dbLock db" using assms [of "(txDb tx)\<lparr>dbLock := True\<rparr>"] by simp
  then show "locked (snd (on_db (with_lock m) tx)) = isl (fst (on_db (with_lock m) tx))"
    using tx r by (cases r) (simp_all add: on_db_def with_lock_def)
qed

lemma disciplined_locked [intro]: "keeps_layer m \<Longrightarrow> disciplined (on_db (with_lock m))"
  by (rule disciplined_with_lock) (simp add: keeps_layer_def)

lemma blocked_locked [intro]: "blocked (on_db (with_lock m))"
  by (simp add: blocked_def on_db_def with_lock_def)

lemma blocked_bind [intro]: "blocked m \<Longrightarrow> blocked (bind_act m k)"
  by (simp add: blocked_def bind_act_def)

lemma disciplined_drop [intro]: "disciplined m \<Longrightarrow> disciplined (drop_result m)"
  unfolding drop_result_def by (rule disciplined_bind) blast+

lemma blocked_drop [intro]: "blocked m \<Longrightarrow> blocked (drop_result m)"
  unfolding drop_result_def by (rule blocked_bind)

lemma blocked_or_return:
  assumes "blocked m \<or> (\<exists>x. m = return_act x)" "\<And>x. blocked (k x)"
  shows "blocked (bind_act m k)"
  using assms by (auto simp: blocked_def bind_act_def return_act_def)

lemma keeps_layer_new_handle:
  assumes "keeps_layer m"
  shows "dbLock (snd (bind_act m new_handle db)) = dbLock db"
proof -
  obtain r db1 where m: "m db = (r, db1)" by fastforce
  show ?thesis using keeps_layerD [OF assms m] m
    by (cases r) (auto simp: bind_act_def new_handle_def Let_def)
qed

lemma disciplined_handle_from [intro]: "keeps_layer m \<Longrightarrow> disciplined (handle_from m)"
  unfolding handle_from_def
  by (rule disciplined_bind [OF disciplined_with_lock [OF keeps_layer_new_handle] disciplined_keep])

lemma blocked_handle_from [intro]: "blocked (handle_from m)"
  unfolding handle_from_def by blast

context db_backend
begin

lemma disciplined_esc [intro]: "disciplined (tx_esc be s)"
  unfolding tx_esc_def using esc_frame by blast

lemma disciplined_insert_loop: "disciplined (insert_loop be m acc vals)"
proof (induction m arbitrary: acc vals)
  case (Cons a m)
  then show ?case by (cases a) auto
qed auto

lemma disciplined_set_loop: "disciplined (set_loop be sep m acc)"
proof (induction m arbitrary: acc)
  case (Cons a m)
  then show ?case by (cases a) auto
qed auto

lemma insert_loop_blocked: "blocked (insert_loop be m acc vals) \<or> (\<exists>x. insert_loop be m acc vals = return_act x)"
proof (cases m)
  case (Cons a m')
  then show ?thesis by (cases a) (auto simp: tx_esc_def)
qed auto

lemma set_loop_blocked: "blocked (set_loop be sep m acc) \<or> (\<exists>x. set_loop be sep m acc = return_act x)"
proof (cases m)
  case (Cons a m')
  then show ?thesis by (cases a) (auto simp: tx_esc_def)
qed auto

lemma rows_of_frame: "keeps_layer (rows_of be s)"
proof (rule keeps_layerI)
  fix db r db'
  assume a: "rows_of be s db = (r, db')"
  obtain q db1 where q: "be_query be s (Some selectCallback) (be_new_resource be NullPtr []) db = (q, db1)"
    by fastforce
  have "db' = db1"
    using a q by (cases q) (auto simp: rows_of_def bind_act_def return_act_def)
  then show "dbLock db' = dbLock db \<and> dbHandles db' = dbHandles db \<and> dbNextHandle db' = dbNextHandle db"
    using keeps_layerD [OF query_frame q] by simp
qed

lemma disciplined_custom [intro]: "disciplined (tx_selectCustom be q)"
  unfolding tx_selectCustom_def using rows_of_frame by blast

lemma blocked_custom [intro]: "blocked (tx_selectCustom be q)"
  unfolding tx_selectCustom_def by blast

lemma call_disciplined: "disciplined (run_call be c)"
proof (cases c)
  case (Insert t vars)
  have "disciplined (tx_insert be t vars)"
    unfolding tx_insert_def using disciplined_insert_loop insert_frame
    by (intro disciplined_bind) (auto split: prod.split)
  then show ?thesis using Insert by auto
next
  case (Update t sought vars)
  have "disciplined (tx_update be t sought vars)"
    unfolding tx_update_def using disciplined_set_loop query_frame
    by (intro disciplined_bind) (auto split: prod.split)
  then show ?thesis using Update by auto
next
  case (SelectOne t cols vars order)
  have "disciplined (tx_selectOne be t cols vars order)"
    unfolding tx_selectOne_def using disciplined_set_loop queryOne_frame by blast
  then show ?thesis using SelectOne by auto
next
  case (Select t cols vars order limit)
  have "disciplined (tx_select be t cols vars order limit)"
    unfolding tx_select_def using disciplined_set_loop by blast
  then show ?thesis using Select by auto
next
  case (Exec s)
  have "disciplined (tx_exec be s)" unfolding tx_exec_def using exec_frame by blast
  then show ?thesis using Exec by auto
next
  case Commit
  have "disciplined (tx_commit be)" unfolding tx_commit_def using exec_frame by blast
  then show ?thesis using Commit by simp
qed auto

lemma call_blocked: "blocked (run_call be c)"
proof (cases c)
  case (Insert t vars)
  have "blocked (tx_insert be t vars)"
    unfolding tx_insert_def using insert_loop_blocked
    by (rule blocked_or_return) (auto split: prod.split)
  then show ?thesis using Insert by auto
next
  case (Update t sought vars)
  have "blocked (tx_update be t sought vars)"
    unfolding tx_update_def using set_loop_blocked by (rule blocked_or_return) blast
  then show ?thesis using Update by auto
next
  case (SelectOne t cols vars order)
  have "blocked (tx_selectOne be t cols vars order)"
    unfolding tx_selectOne_def using set_loop_blocked by (rule blocked_or_return) blast
  then show ?thesis using SelectOne by auto
next
  case (Select t cols vars order limit)
  have "blocked (tx_select be t cols vars order limit)"
    unfolding tx_select_def using set_loop_blocked by (rule blocked_or_return) blast
  then show ?thesis using Select by auto
qed (auto simp: tx_exec_def tx_commit_def tx_esc_def)

end

section \<open>Who owns the handles\<close>

text \<open>
  A resource is harmless when its destructor does nothing that can fail. \<open>releasing_backend\<close>
  promises that of the resources of the queries, \<open>inserting_backend\<close> of those of \<open>insert\<close> too;
  the MySQL handler only keeps the first promise.
\<close>

definition harmless :: "'d backend \<Rightarrow> CDatabaseResource option \<Rightarrow> bool" where
  "harmless be ro \<longleftrightarrow> (\<forall>rs. ro = Some rs \<longrightarrow> (\<forall>db. be_free_resource be rs db = (Inr (), db)))"

locale releasing_backend = db_backend +
  assumes queryOne_harmless: "be_queryOne be s db = (Inr ro, db') \<Longrightarrow> harmless be ro"
    and rows_harmless: "rows_of be s db = (Inr rs, db') \<Longrightarrow> harmless be (Some rs)"

locale inserting_backend = releasing_backend +
  assumes insert_harmless: "be_insert be s f db = (Inr ro, db') \<Longrightarrow> harmless be ro"

text \<open>
  \<open>owns be h0 tx\<close>: the handles allocated since the memory was \<open>h0\<close> are exactly the ones in the
  transaction's list, each once, and each can be deleted.
\<close>

definition owns :: "'d backend \<Rightarrow> (nat \<Rightarrow> CDatabaseHandle option) \<Rightarrow> 'd tx \<Rightarrow> bool" where
  "owns be h0 tx \<longleftrightarrow> distinct (txHandles tx) \<and>
    (\<forall>p \<in> set (txHandles tx). h0 p = None \<and> (\<exists>h. dbHandles (txDb tx) p = Some h \<and> harmless be (dhRS h))) \<and>
    (\<forall>p. p \<notin> set (txHandles tx) \<longrightarrow> dbHandles (txDb tx) p = h0 p) \<and>
    (\<forall>p \<ge> dbNextHandle (txDb tx). dbHandles (txDb tx) p = None)"

definition handles_fresh :: "'d db \<Rightarrow> bool" where
  "handles_fresh db \<longleftrightarrow> (\<forall>p \<ge> dbNextHandle db. dbHandles db p = None)"

definition owning :: "'d backend \<Rightarrow> ('d tx, 'a) act \<Rightarrow> bool" where
  "owning be m \<longleftrightarrow> (\<forall>h0 tx. owns be h0 tx \<longrightarrow> owns be h0 (snd (m tx)))"

lemma owns_new: "handles_fresh db \<Longrightarrow> owns be (dbHandles db) (new_CTransaction db)"
  by (simp add: owns_def new_CTransaction_def handles_fresh_def)

lemma owns_cong:
  assumes "owns be h0 tx" "txHandles tx' = txHandles tx"
    "dbHandles (txDb tx') = dbHandles (txDb tx)" "dbNextHandle (txDb tx') = dbNextHandle (txDb tx)"
  shows "owns be h0 tx'"
  using assms by (simp add: owns_def)

lemma owns_add:
  assumes o: "owns be h0 tx" and p: "p = dbNextHandle (txDb tx)" and hs: "harmless be ro"
    and l: "txHandles tx' = txHandles tx @ [p]"
    and h: "dbHandles (txDb tx') = (dbHandles (txDb tx))(p \<mapsto> \<lparr>dhRS = ro, dhID = []\<rparr>)"
    and n: "dbNextHandle (txDb tx') = Suc p"
  shows "owns be h0 tx'"
proof -
  have fresh: "\<forall>q \<ge> p. dbHandles (txDb tx) q = None" using o p by (simp add: owns_def)
  have old: "\<forall>q \<in> set (txHandles tx). h0 q = None \<and> (\<exists>g. dbHandles (txDb tx) q = Some g \<and> harmless be (dhRS g))"
    and rest: "\<forall>q. q \<notin> set (txHandles tx) \<longrightarrow> dbHandles (txDb tx) q = h0 q"
    and dist: "distinct (txHandles tx)"
    using o by (simp_all add: owns_def)
  have new: "p \<notin> set (txHandles tx)" using old fresh by force
  then have "h0 p = None" using rest fresh by (metis order_refl)
  then show ?thesis using new old rest dist fresh hs by (simp add: owns_def l h n)
qed

lemma owning_return [intro]: "owning be (return_act x)"
  by (simp add: owning_def return_act_def)

lemma owning_bind_returned:
  assumes m: "owning be m" and k: "\<And>tx x tx1. m tx = (Inr x, tx1) \<Longrightarrow> owning be (k x)"
  shows "owning be (bind_act m k)"
  unfolding owning_def
proof (intro allI impI)
  fix h0 and tx :: "'a tx"
  assume o: "owns be h0 tx"
  obtain r tx1 where r: "m tx = (r, tx1)" by fastforce
  have "owns be h0 tx1" using m o r unfolding owning_def by (metis snd_conv)
  then show "owns be h0 (snd (bind_act m k tx))"
    using r k [of tx _ tx1] unfolding owning_def by (cases r) (simp_all add: bind_act_def)
qed

lemma owning_bind [intro]: "owning be m \<Longrightarrow> (\<And>x. owning be (k x)) \<Longrightarrow> owning be (bind_act m k)"
  by (rule owning_bind_returned)

lemma owning_drop [intro]: "owning be m \<Longrightarrow> owning be (drop_result m)"
  unfolding drop_result_def by (rule owning_bind) blast+

lemma with_lock_cases:
  obtains "dbLock db" "with_lock m db = (Inl Diverges, db)"
  | e db1 where "\<not> dbLock db" "m (db\<lparr>dbLock := True\<rparr>) = (Inl e, db1)" "with_lock m db = (Inl e, db1)"
  | x db1 where "\<not> dbLock db" "m (db\<lparr>dbLock := True\<rparr>) = (Inr x, db1)"
      "with_lock m db = (Inr x, db1\<lparr>dbLock := False\<rparr>)"
proof (cases "dbLock db")
  case True
  then show ?thesis using that(1) by (simp add: with_lock_def)
next
  case False
  obtain r db1 where "m (db\<lparr>dbLock := True\<rparr>) = (r, db1)" by fastforce
  then show ?thesis using that(2,3) False by (cases r) (simp_all add: with_lock_def)
qed

lemma with_lock_keeps: "keeps_layer m \<Longrightarrow>
    dbHandles (snd (with_lock m db)) = dbHandles db \<and> dbNextHandle (snd (with_lock m db)) = dbNextHandle db"
  by (rule with_lock_cases [of db m]) (simp_all add: keeps_layerD)

lemma owning_locked [intro]:
  assumes "keeps_layer m"
  shows "owning be (on_db (with_lock m))"
  unfolding owning_def
proof (intro allI impI)
  fix h0 and tx :: "'a tx"
  assume o: "owns be h0 tx"
  show "owns be h0 (snd (on_db (with_lock m) tx))"
    using with_lock_keeps [OF assms, of "txDb tx"]
    by (intro owns_cong [OF o]) (simp_all add: on_db_def case_prod_beta Let_def)
qed

lemma owning_handle_from:
  assumes k: "keeps_layer m" and h: "\<And>db ro db'. m db = (Inr ro, db') \<Longrightarrow> harmless be ro"
  shows "owning be (handle_from m)"
  unfolding owning_def
proof (intro allI impI)
  fix h0 and tx :: "'a tx"
  assume o: "owns be h0 tx"
  let ?db = "(txDb tx)\<lparr>dbLock := True\<rparr>"
  obtain r db1 where m: "m ?db = (r, db1)" by fastforce
  note fr = keeps_layerD [OF k m]
  show "owns be h0 (snd (handle_from m tx))"
  proof (cases "locked tx")
    case True
    then show ?thesis using o by (simp add: handle_from_def bind_act_def on_db_def with_lock_def)
  next
    case False
    show ?thesis
    proof (cases r)
      case (Inl e)
      then show ?thesis using False m fr
        by (intro owns_cong [OF o]) (simp_all add: handle_from_def bind_act_def on_db_def with_lock_def)
    next
      case (Inr ro)
      show ?thesis
        by (rule owns_add [OF o refl h [OF m [unfolded Inr]]])
          (use False m fr Inr in \<open>simp_all add: handle_from_def bind_act_def on_db_def with_lock_def
            new_handle_def Let_def keep_handle_def\<close>)
    qed
  qed
qed

lemma owning_keep_new:
  assumes "harmless be (Some rs)"
  shows "owning be (bind_act (on_db (new_handle (Some rs))) keep_handle)"
  unfolding owning_def
proof (intro allI impI)
  fix h0 and tx :: "'a tx"
  assume o: "owns be h0 tx"
  show "owns be h0 (snd (bind_act (on_db (new_handle (Some rs))) keep_handle tx))"
    by (rule owns_add [OF o refl assms])
      (simp_all add: bind_act_def on_db_def new_handle_def Let_def keep_handle_def)
qed

context releasing_backend
begin

lemma owning_insert_loop: "owning be (insert_loop be m acc vals)"
proof (induction m arbitrary: acc vals)
  case (Cons a m)
  then show ?case using esc_frame by (cases a) (auto simp: tx_esc_def intro!: owning_bind owning_locked)
qed auto

lemma owning_set_loop: "owning be (set_loop be sep m acc)"
proof (induction m arbitrary: acc)
  case (Cons a m)
  then show ?case using esc_frame by (cases a) (auto simp: tx_esc_def intro!: owning_bind owning_locked)
qed auto

lemma owning_custom: "owning be (tx_selectCustom be q)"
  unfolding tx_selectCustom_def
proof (rule owning_bind_returned)
  show "owning be (on_db (with_lock (rows_of be q)))" using rows_of_frame by blast
next
  fix tx rs tx1
  assume a: "on_db (with_lock (rows_of be q)) tx = (Inr rs, tx1)"
  have "harmless be (Some rs)"
    by (rule with_lock_cases [of "txDb tx" "rows_of be q"])
      (use a rows_harmless in \<open>auto simp: on_db_def\<close>)
  then show "owning be (bind_act (on_db (new_handle (Some rs))) keep_handle)" by (rule owning_keep_new)
qed

lemma owning_call:
  assumes "\<And>t vars. c = Insert t vars \<Longrightarrow> (\<And>s db ro db'. be_insert be s ''id'' db = (Inr ro, db') \<Longrightarrow> harmless be ro)"
  shows "owning be (run_call be c)"
proof (cases c)
  case (Insert t vars)
  have "owning be (tx_insert be t vars)"
    unfolding tx_insert_def using owning_insert_loop assms [OF Insert]
    by (intro owning_bind) (auto split: prod.split intro: owning_handle_from [OF insert_frame])
  then show ?thesis using Insert by auto
next
  case (Update t sought vars)
  have "owning be (tx_update be t sought vars)"
    unfolding tx_update_def using owning_set_loop query_frame
    by (intro owning_bind) (auto split: prod.split)
  then show ?thesis using Update by auto
next
  case (SelectOne t cols vars order)
  have "owning be (tx_selectOne be t cols vars order)"
    unfolding tx_selectOne_def using owning_set_loop owning_handle_from [OF queryOne_frame] queryOne_harmless by blast
  then show ?thesis using SelectOne by auto
next
  case (Select t cols vars order limit)
  have "owning be (tx_select be t cols vars order limit)"
    unfolding tx_select_def using owning_set_loop owning_custom by blast
  then show ?thesis using Select by auto
next
  case (SelectCustom q)
  then show ?thesis using owning_custom by auto
qed (use exec_frame esc_frame in \<open>auto simp: tx_exec_def tx_commit_def tx_esc_def\<close>)

lemma delete_owned:
  "distinct ps \<Longrightarrow> \<forall>p \<in> set ps. \<exists>h. dbHandles db p = Some h \<and> harmless be (dhRS h) \<Longrightarrow>
   run_acts (List.map (delete_handle be) ps) db =
     (Inr (), db\<lparr>dbHandles := (\<lambda>p. if p \<in> set ps then None else dbHandles db p)\<rparr>)"
proof (induction ps arbitrary: db)
  case (Cons p ps)
  obtain h where h: "dbHandles db p = Some h" "harmless be (dhRS h)" using Cons.prems by auto
  have d: "delete_handle be p db = (Inr (), db\<lparr>dbHandles := (dbHandles db)(p := None)\<rparr>)"
    using h by (cases "dhRS h") (auto simp: delete_handle_def harmless_def)
  let ?db = "db\<lparr>dbHandles := (dbHandles db)(p := None)\<rparr>"
  have "run_acts (List.map (delete_handle be) ps) ?db =
      (Inr (), ?db\<lparr>dbHandles := (\<lambda>q. if q \<in> set ps then None else dbHandles ?db q)\<rparr>)"
    by (rule Cons.IH) (use Cons.prems in auto)
  moreover have "(\<lambda>q. if q \<in> set ps then None else dbHandles ?db q)
      = (\<lambda>q. if q \<in> set (p # ps) then None else dbHandles db q)" by auto
  ultimately show ?case using d by (simp only: list.map run_acts.simps) simp
qed simp

lemma dispose_owned:
  assumes "owns be h0 tx"
  shows "\<exists>tx1. tx_cleanup be tx = (Inr (), tx1) \<and> dbHandles (txDb tx1) = h0 \<and> txHandles tx1 = []"
proof -
  have "\<forall>p \<in> set (txHandles tx). \<exists>h. dbHandles (txDb tx) p = Some h \<and> harmless be (dhRS h)"
    "distinct (txHandles tx)" using assms by (auto simp: owns_def)
  from delete_owned [OF this(2,1)]
  show ?thesis using assms
    by (auto simp: tx_cleanup_def bind_act_def on_db_def owns_def fun_eq_iff)
qed

end

lemma rows_loop_resource:
  "rows_loop n rows (Some selectCallback) p = Inr q \<Longrightarrow> drResource q = drResource p"
proof (induction rows arbitrary: p)
  case (Cons row rows)
  then show ?case by (cases "row_loop row 0 n") (force simp: selectCallback_def)+
qed simp

lemma mysql_query_resource:
  assumes "mysql_query api C s cb p db = (Inr (ok, q), db')"
  shows "q = p \<or> (\<exists>n rows. rows_loop n rows cb p = Inr q)"
proof (cases "C \<and> fst (my_query api s (dbExt db)) = 0")
  case True
  obtain r d where rd: "my_query api s (dbExt db) = (r, d)" by fastforce
  obtain sr d1 where st: "my_store api d = (sr, d1)" by fastforce
  show ?thesis
  proof (cases sr)
    case None
    then show ?thesis using True rd st assms by (simp add: mysql_query_def)
  next
    case (Some res)
    show ?thesis
      using True rd st Some assms
      by (cases "rows_loop (rsFields res) (rsRows res) cb p")
        (auto simp: mysql_query_def alloc_result_def mysql_free_result_def Let_def)
  qed
next
  case False
  then show ?thesis using assms by (auto simp: mysql_query_def Let_def split: if_splits prod.splits)
qed

lemma mysql_free_harmless: "drResource rs = NullPtr \<Longrightarrow> harmless (mysql_backend api C) (Some rs)"
  by (simp add: harmless_def mysql_backend_def)

interpretation mysql_releasing: releasing_backend "mysql_backend api C" for api C
proof unfold_locales
  fix s and db :: "'a db" and ro db'
  assume "be_queryOne (mysql_backend api C) s db = (Inr ro, db')"
  then have "mysql_queryOne api C s db = (Inr ro, db')" by (simp add: mysql_backend_def)
  then have "\<exists>rs. ro = Some rs \<and> drResource rs = NullPtr"
    by (auto simp: mysql_queryOne_def new_resource_def setData_def alloc_result_def mysql_free_result_def Let_def
        split: if_splits prod.splits option.splits sum.splits list.splits)
  then show "harmless (mysql_backend api C) ro" using mysql_free_harmless by blast
next
  fix s and db :: "'a db" and rs db'
  assume r: "rows_of (mysql_backend api C) s db = (Inr rs, db')"
  let ?p = "new_resource NullPtr []"
  obtain q db1 where q: "mysql_query api C s (Some selectCallback) ?p db = (q, db1)" by fastforce
  have be: "be_query (mysql_backend api C) = mysql_query api C"
    "be_new_resource (mysql_backend api C) = new_resource" by (simp_all add: mysql_backend_def)
  have "\<exists>ok. q = Inr (ok, rs)"
  proof (cases q)
    case (Inl e)
    then show ?thesis using r q by (simp add: rows_of_def be bind_act_def)
  next
    case (Inr x)
    then show ?thesis using r q by (cases x) (simp add: rows_of_def be bind_act_def return_act_def)
  qed
  then obtain ok where ok: "q = Inr (ok, rs)" by blast
  have np: "drResource ?p = NullPtr" by (simp add: new_resource_def)
  from mysql_query_resource [OF q [unfolded ok]] have "drResource rs = NullPtr"
  proof
    assume "\<exists>n rows. rows_loop n rows (Some selectCallback) ?p = Inr rs"
    then obtain n rows where "rows_loop n rows (Some selectCallback) ?p = Inr rs" by blast
    from rows_loop_resource [OF this] np show ?thesis by (rule trans)
  qed (simp add: np)
  then show "harmless (mysql_backend api C) (Some rs)" by (rule mysql_free_harmless)
qed

interpretation empty_inserting: inserting_backend empty_backend
  by unfold_locales (simp_all add: harmless_def empty_backend_def return_act_def)

interpretation pqxx_inserting: inserting_backend "pqxx_backend api" for api
  by unfold_locales (simp_all add: harmless_def pqxx_backend_def return_act_def)

interpretation built_releasing: releasing_backend "backend_of b" for b
proof (cases b)
  case Empty_Build
  then show "releasing_backend (backend_of b)" using empty_inserting.releasing_backend_axioms by simp
next
  case (Mysql_Build api)
  then show "releasing_backend (backend_of b)" using mysql_releasing.releasing_backend_axioms by simp
next
  case (Pqxx_Build api)
  then show "releasing_backend (backend_of b)" using pqxx_inserting.releasing_backend_axioms by simp
qed

fun is_mysql :: "'d build \<Rightarrow> bool" where
  "is_mysql (Mysql_Build _) = True"
| "is_mysql _ = False"

fun is_insert :: "tx_call \<Rightarrow> bool" where
  "is_insert (Insert _ _) = True"
| "is_insert _ = False"

lemma built_owning:
  assumes "\<not> is_mysql b \<or> \<not> is_insert c"
  shows "owning (backend_of b) (run_call (backend_of b) c)"
proof (rule built_releasing.owning_call)
  fix t vars s and db :: "'a db" and ro db'
  assume "c = Insert t vars" "be_insert (backend_of b) s ''id'' db = (Inr ro, db')"
  then show "harmless (backend_of b) ro"
    using assms empty_inserting.insert_harmless pqxx_inserting.insert_harmless by (cases b) auto
qed

text \<open>The state after a list of calls, each of which may have thrown to a caller that went on.\<close>

fun after_calls :: "'d backend \<Rightarrow> tx_call list \<Rightarrow> 'd tx \<Rightarrow> 'd tx" where
  "after_calls be [] tx = tx"
| "after_calls be (c # cs) tx = after_calls be cs (snd (run_call be c tx))"

lemma after_calls_owns:
  "\<not> is_mysql b \<or> (\<forall>c \<in> set cs. \<not> is_insert c) \<Longrightarrow> owns (backend_of b) h0 tx \<Longrightarrow>
   owns (backend_of b) h0 (after_calls (backend_of b) cs tx)"
proof (induction cs arbitrary: tx)
  case (Cons c cs)
  then have "owns (backend_of b) h0 (snd (run_call (backend_of b) c tx))"
    using built_owning [of b c] unfolding owning_def by auto
  then show ?case using Cons by auto
qed simp

lemma built_free: "be_free (backend_of b) db = (Inr (), db') \<Longrightarrow> dbHandles db' = dbHandles db"
  using keeps_layerD(2) [OF built.free_frame] by blast

lemma built_free_returns: "\<exists>db'. be_free (backend_of b) db = (Inr (), db')"
  by (cases b) (simp_all add: empty_backend_def mysql_backend_def pqxx_backend_def return_act_def pqxx_free_def)

end
