(* ===== verification/Db_Facts.thy ===== *)
theory Db_Facts
  imports Transaction_Facts String_Util
begin

text \<open>
  The properties of the database layer: the lock and the handles of a transaction, the statements
  it sends, what the MySQL handler makes of them, and the reading of its connection string.
\<close>

section \<open>Reading a statement back\<close>

text \<open>
  The quoted literals of an SQL text, as a server reads them: \<open>bs\<close> says whether a backslash
  escapes the next character (MySQL), and a doubled quote stays inside the literal (both).
\<close>

abbreviation QUOTE :: char where "QUOTE \<equiv> CHR 0x27"
abbreviation BACKSLASH :: char where "BACKSLASH \<equiv> CHR 0x5C"

fun literals :: "bool \<Rightarrow> string option \<Rightarrow> string \<Rightarrow> string list" where
  "literals bs None [] = []"
| "literals bs None (c # s) = (if c = QUOTE then literals bs (Some []) s else literals bs None s)"
| "literals bs (Some a) [] = []"
| "literals bs (Some a) [c] = (if c = QUOTE then [rev a] else [])"
| "literals bs (Some a) (c # d # s) =
    (if bs \<and> c = BACKSLASH then literals bs (Some (d # c # a)) s
     else if c = QUOTE then (if d = QUOTE then literals bs (Some (d # c # a)) s
                             else rev a # literals bs None (d # s))
     else literals bs (Some (c # a)) (d # s))"

text \<open>A text that can stand between quotes: it neither ends its literal nor escapes the closing quote.\<close>

fun closed_literal :: "bool \<Rightarrow> string \<Rightarrow> bool" where
  "closed_literal bs [] = True"
| "closed_literal bs [c] = (\<not> (bs \<and> c = BACKSLASH) \<and> c \<noteq> QUOTE)"
| "closed_literal bs (c # d # s) =
    (if bs \<and> c = BACKSLASH then closed_literal bs s
     else if c = QUOTE then d = QUOTE \<and> closed_literal bs s
     else closed_literal bs (d # s))"

lemma literals_outside: "QUOTE \<notin> set s \<Longrightarrow> literals bs None (s @ t) = literals bs None t"
  by (induction s) auto

lemma literals_closed:
  "closed_literal bs e \<Longrightarrow> d \<noteq> QUOTE \<Longrightarrow>
   literals bs (Some a) (e @ QUOTE # d # t) = (rev a @ e) # literals bs None (d # t)"
proof (induction bs e arbitrary: a rule: closed_literal.induct)
  case (2 bs c)
  then show ?case by auto
next
  case (3 bs c d' s)
  then show ?case by (auto split: if_splits)
qed auto

lemma literals_quoted:
  assumes "closed_literal bs e" "d \<noteq> QUOTE"
  shows "literals bs None (QUOTE # e @ QUOTE # d # t) = e # literals bs None (d # t)"
  using literals_closed [OF assms, of "[]" t] by simp

section \<open>Building a statement\<close>

definition quoted :: "string \<Rightarrow> string" where
  "quoted e = QUOTE # e @ [QUOTE]"

definition insert_statement :: "(string \<Rightarrow> string) \<Rightarrow> string \<Rightarrow> smap \<Rightarrow> string" where
  "insert_statement esc t vars = ''INSERT INTO '' @ t @ '' ('' @ join '','' (List.map fst vars) @ '') VALUES (''
    @ join '','' (List.map (\<lambda>(k, v). quoted (esc v)) vars) @ '')''"

definition conditions :: "(string \<Rightarrow> string) \<Rightarrow> string \<Rightarrow> smap \<Rightarrow> string" where
  "conditions esc sep vars = join sep (List.map (\<lambda>(k, v). k @ ''='' @ quoted (esc v)) vars)"

lemma join_grow:
  "xs \<noteq> [] \<Longrightarrow> join sep (x # xs) = x @ sep @ join sep xs"
  by (cases xs) auto

lemma esc_unlocked:
  assumes "\<And>v db. be_esc be v db = (Inr (esc v), db)" "\<not> locked tx"
  shows "tx_esc be v tx = (Inr (esc v), tx)"
  using assms by (simp add: tx_esc_def on_db_def with_lock_def)

lemma insert_loop_text:
  assumes e: "\<And>v db. be_esc be v db = (Inr (esc v), db)" and u: "\<not> locked tx"
  shows "(\<forall>(k, v) \<in> set m. k \<noteq> []) \<Longrightarrow> insert_loop be m acc vals tx =
    (Inr (if m = [] then acc else sep_if '','' acc @ join '','' (List.map fst m),
          if m = [] then vals else sep_if '','' vals @ join '','' (List.map (\<lambda>(k, v). quoted (esc v)) m)), tx)"
proof (induction m arbitrary: acc vals)
  case Nil
  then show ?case by (simp add: return_act_def)
next
  case (Cons a m)
  obtain k v where a: "a = (k, v)" by fastforce
  have k: "k \<noteq> []" using Cons.prems a by simp
  show ?case
    using Cons esc_unlocked [of be esc tx v, OF e u] a k
    by (cases "m = []") (auto simp: bind_act_def sep_if_def quoted_def join_grow)
qed

lemma set_loop_text:
  assumes e: "\<And>v db. be_esc be v db = (Inr (esc v), db)" and u: "\<not> locked tx"
  shows "set_loop be sep m acc tx =
    (Inr (if m = [] then acc else sep_if sep acc @ conditions esc sep m), tx)"
proof (induction m arbitrary: acc)
  case Nil
  then show ?case by (simp add: return_act_def)
next
  case (Cons a m)
  obtain k v where a: "a = (k, v)" by fastforce
  show ?case
    using Cons esc_unlocked [of be esc tx v, OF e u] a
    by (cases "m = []") (auto simp: bind_act_def sep_if_def quoted_def join_grow conditions_def)
qed

lemma literals_join_values:
  "vals \<noteq> [] \<Longrightarrow> \<forall>e \<in> set vals. closed_literal bs e \<Longrightarrow> d \<noteq> QUOTE \<Longrightarrow>
   literals bs None (join '','' (List.map quoted vals) @ d # t) = vals @ literals bs None (d # t)"
proof (induction vals)
  case (Cons e vals)
  show ?case
  proof (cases "vals = []")
    case True
    then show ?thesis using Cons.prems literals_quoted by (simp add: quoted_def)
  next
    case False
    then have "join '','' (List.map quoted (e # vals)) @ d # t
      = QUOTE # e @ QUOTE # CHR '','' # join '','' (List.map quoted vals) @ d # t"
      by (simp add: join_grow quoted_def)
    then show ?thesis using Cons False literals_quoted by auto
  qed
qed simp

lemma join_no_quote: "QUOTE \<notin> set sep \<Longrightarrow> \<forall>x \<in> set xs. QUOTE \<notin> set x \<Longrightarrow> QUOTE \<notin> set (join sep xs)"
  by (induction sep xs rule: join.induct) auto

lemma insert_statement_literals:
  assumes "vars \<noteq> []" "QUOTE \<notin> set t" "\<forall>(k, v) \<in> set vars. QUOTE \<notin> set k \<and> closed_literal bs (esc v)"
  shows "literals bs None (insert_statement esc t vars) = List.map (\<lambda>(k, v). esc v) vars"
proof -
  let ?head = "''INSERT INTO '' @ t @ '' ('' @ join '','' (List.map fst vars) @ '') VALUES (''"
  have "QUOTE \<notin> set (join '','' (List.map fst vars))"
    using assms(3) by (intro join_no_quote) auto
  then have h: "QUOTE \<notin> set ?head" using assms(2) by auto
  have m: "List.map (\<lambda>(k, v). quoted (esc v)) vars = List.map quoted (List.map (\<lambda>(k, v). esc v) vars)"
    by auto
  have "literals bs None (insert_statement esc t vars)
      = literals bs None (join '','' (List.map quoted (List.map (\<lambda>(k, v). esc v) vars)) @ '')'')"
    unfolding insert_statement_def m by (metis append.assoc literals_outside [OF h])
  also have "\<dots> = List.map (\<lambda>(k, v). esc v) vars @ literals bs None '')''"
    using assms by (intro literals_join_values) auto
  finally show ?thesis by simp
qed

section \<open>A sample library\<close>

text \<open>A MySQL library for the witnesses: every statement succeeds with the given result set.\<close>

fun sample_escape :: "string \<Rightarrow> string" where
  "sample_escape [] = []"
| "sample_escape (c # s) = (if c = QUOTE \<or> c = BACKSLASH then BACKSLASH # c # sample_escape s else c # sample_escape s)"

definition sample_mysql :: "result_set option \<Rightarrow> unit mysql_api" where
  "sample_mysql res = \<lparr>my_init = (\<lambda>d. (True, d)), my_connect = (\<lambda>h u p d. (True, d)),
    my_select_db = (\<lambda>n d. (0, d)), my_query = (\<lambda>s d. (0, d)), my_store = (\<lambda>d. (res, d)),
    my_insert_id = (\<lambda>d. 7), my_escape = sample_escape, my_close = (\<lambda>d. d)\<rparr>"

definition null_row :: "result_set" where
  "null_row = \<lparr>rsFields = 1, rsRows = [[None]]\<rparr>"

section \<open>The transaction\<close>

text \<open>C18 (invariant). The class-wide \<open>CTransaction::Lock\<close> is clear after every call that returns,
  in each of the three builds. A call that throws (a \<open>selectOne\<close> whose first column is NULL does, in
  the MySQL build) leaves it set, and then every later call of any transaction spins forever without
  touching anything.\<close>

theorem transaction_lock_discipline:
  assumes "\<not> dbLock (txDb tx)"
  shows "case run_call (backend_of b) c tx of
      (Inr _, tx1) \<Rightarrow> \<not> dbLock (txDb tx1)
    | (Inl _, tx1) \<Rightarrow> dbLock (txDb tx1) \<and>
        (\<forall>c2 tx2. dbLock (txDb tx2) \<longrightarrow> run_call (backend_of b) c2 tx2 = (Inl Diverges, tx2))"
proof -
  obtain r tx1 where r: "run_call (backend_of b) c tx = (r, tx1)" by fastforce
  from disciplinedD [OF built.call_disciplined assms r] have "dbLock (txDb tx1) = isl r" .
  with r built.call_blocked [of b] show ?thesis
    by (cases r) (simp_all add: blocked_def)
qed

lemma transaction_lock_discipline_witness:
  "let b = Mysql_Build (sample_mysql (Some null_row)); tx = new_CTransaction (fresh_db ());
       c = SelectOne ''users'' [''name''] [(''id'', ''1'')] []
   in fst (run_call (backend_of b) c tx) = Inl ThrowStd \<and> dbLock (txDb (snd (run_call (backend_of b) c tx)))
      \<and> fst (run_call (backend_of b) Commit (snd (run_call (backend_of b) c tx))) = Inl Diverges"
proof -
  let ?b = "Mysql_Build (sample_mysql (Some null_row))" and ?tx = "new_CTransaction (fresh_db ())"
  let ?c = "SelectOne ''users'' [''name''] [(''id'', ''1'')] []"
  have u: "\<not> dbLock (txDb ?tx)" by (simp add: new_CTransaction_def fresh_db_def)
  have t: "fst (run_call (backend_of ?b) ?c ?tx) = Inl ThrowStd" by code_simp
  show ?thesis
    using transaction_lock_discipline [OF u, of ?b ?c] t
    by (cases "run_call (backend_of ?b) ?c ?tx") (simp add: Let_def del: backend_of.simps run_call.simps)
qed

text \<open>C8 (safety). Whatever list of calls a transaction has run, calls that threw included,
  \<open>dispose\<close> deletes every handle they created, each exactly once and no other, and returns. The
  MySQL handler's \<open>insert\<close> is the one exception.\<close>

theorem transaction_releases_handles:
  assumes "handles_fresh db" and "\<not> is_mysql b \<or> (\<forall>c \<in> set cs. \<not> is_insert c)"
  shows "\<exists>tx. tx_dispose (backend_of b) (after_calls (backend_of b) cs (new_CTransaction db)) = (Inr (), tx)
    \<and> dbHandles (txDb tx) = dbHandles db \<and> txHandles tx = []"
proof -
  let ?tx = "after_calls (backend_of b) cs (new_CTransaction db)"
  have "owns (backend_of b) (dbHandles db) ?tx"
    using after_calls_owns [OF assms(2) owns_new [OF assms(1)]] .
  from built_releasing.dispose_owned [OF this] obtain tx1 where
    c: "tx_cleanup (backend_of b) ?tx = (Inr (), tx1)" "dbHandles (txDb tx1) = dbHandles db" "txHandles tx1 = []"
    by blast
  obtain db2 where f: "be_free (backend_of b) (txDb tx1) = (Inr (), db2)" using built_free_returns by blast
  from built_free [OF f] c f show ?thesis
    by (simp add: tx_dispose_def bind_act_def on_db_def)
qed

lemma transaction_releases_handles_witness:
  "let b = Mysql_Build (sample_mysql (Some null_row)); db = fresh_db ();
       cs = [SelectCustom ''select 1'', Select ''t'' [''a''] [] [] []]
   in length (txHandles (after_calls (backend_of b) cs (new_CTransaction db))) = 2 \<and>
     (\<exists>tx. tx_dispose (backend_of b) (after_calls (backend_of b) cs (new_CTransaction db)) = (Inr (), tx)
       \<and> dbHandles (txDb tx) = dbHandles db \<and> txHandles tx = [])"
proof -
  let ?b = "Mysql_Build (sample_mysql (Some null_row))"
  let ?cs = "[SelectCustom ''select 1'', Select ''t'' [''a''] [] [] []]"
  have "length (txHandles (after_calls (backend_of ?b) ?cs (new_CTransaction (fresh_db ())))) = 2"
    by code_simp
  moreover have "handles_fresh (fresh_db ())" by (simp add: handles_fresh_def fresh_db_def)
  ultimately show ?thesis
    using transaction_releases_handles [of "fresh_db ()" ?b ?cs]
    by (simp add: Let_def del: backend_of.simps after_calls.simps)
qed

context db_backend
begin

lemma delete_missing_faults:
  "dbHandles db p = None \<Longrightarrow> p \<in> set ps \<Longrightarrow> isl (fst (run_acts (List.map (delete_handle be) ps) db))"
proof (induction ps arbitrary: db)
  case (Cons q ps)
  obtain r db1 where d: "delete_handle be q db = (r, db1)" by fastforce
  show ?case
  proof (cases r)
    case (Inl e)
    then show ?thesis using d by simp
  next
    case (Inr u)
    have "q \<noteq> p" using d Inr Cons.prems(1) by (auto simp: delete_handle_def)
    moreover have "dbHandles db1 p = None"
      using delete_handle_outcome(1) [OF d] Inr Cons.prems(1) by simp
    ultimately show ?thesis using d Inr Cons.IH [of db1] Cons.prems by auto
  qed
qed simp

end

text \<open>A handle that the program disposes itself, as \<open>MDatabaseHandle::dispose\<close> and
  \<open>disposeAndGetID\<close> invite it to, stays in the transaction's list, so the end of the transaction
  deletes it a second time and cannot return normally.\<close>

theorem disposed_handle_deleted_again:
  assumes "p \<in> set (txHandles tx)" and "dh_dispose (backend_of b) p (txDb tx) = (Inr (), db)"
  shows "isl (fst (tx_dispose (backend_of b) (tx\<lparr>txDb := db\<rparr>)))"
proof -
  have "dbHandles db p = None"
    using built.delete_handle_outcome(1) [OF assms(2) [unfolded dh_dispose_def]] by simp
  from built.delete_missing_faults [OF this assms(1), of b] show ?thesis
    by (auto simp: tx_dispose_def tx_cleanup_def bind_act_def on_db_def Let_def split: prod.splits sum.splits)
qed

lemma disposed_handle_deleted_again_witness:
  "let b = (Mysql_Build (sample_mysql (Some null_row)));
       tx = after_calls (backend_of b) [SelectCustom ''select 1''] (new_CTransaction (fresh_db ()))
   in dh_dispose (backend_of b) 0 (txDb tx) = (Inr (), snd (dh_dispose (backend_of b) 0 (txDb tx))) \<and>
      isl (fst (tx_dispose (backend_of b) (tx\<lparr>txDb := snd (dh_dispose (backend_of b) 0 (txDb tx))\<rparr>)))"
proof -
  let ?b = "Mysql_Build (sample_mysql (Some null_row))"
  let ?tx = "after_calls (backend_of ?b) [SelectCustom ''select 1''] (new_CTransaction (fresh_db ()))"
  have l: "0 \<in> set (txHandles ?tx)" by code_simp
  have d: "fst (dh_dispose (backend_of ?b) 0 (txDb ?tx)) = Inr ()" by code_simp
  then have d': "dh_dispose (backend_of ?b) 0 (txDb ?tx) = (Inr (), snd (dh_dispose (backend_of ?b) 0 (txDb ?tx)))"
    by (metis prod.collapse)
  from disposed_handle_deleted_again [OF l d'] d' show ?thesis
    by (simp add: Let_def del: backend_of.simps after_calls.simps)
qed

section \<open>Statements\<close>

text \<open>C19 (functional). \<open>insert\<close> sends exactly one statement, \<open>INSERT INTO t (k1,...,kn) VALUES
  ('e1',...,'en')\<close> with the escaped values in key order, keeps the handle it gets, and, when the
  escaping leaves no unescaped quote, a server reads back from the statement exactly the escaped
  values.\<close>

theorem insert_sends_escaped_values:
  assumes "\<And>v db. be_esc be v db = (Inr (esc v), db)"
    and "\<not> dbLock (txDb tx)" and "vars \<noteq> []" and "QUOTE \<notin> set t"
    and "\<forall>(k, v) \<in> set vars. k \<noteq> [] \<and> QUOTE \<notin> set k \<and> closed_literal bs (esc v)"
  shows "tx_insert be t vars tx = handle_from (be_insert be (insert_statement esc t vars) ''id'') tx
    \<and> literals bs None (insert_statement esc t vars) = List.map (\<lambda>(k, v). esc v) vars"
proof
  have "\<forall>(k, v) \<in> set vars. k \<noteq> []" using assms(5) by auto
  from insert_loop_text [of be esc, OF assms(1,2) this, of "[]" "[]"]
  show "tx_insert be t vars tx = handle_from (be_insert be (insert_statement esc t vars) ''id'') tx"
    using assms(3) by (simp add: tx_insert_def bind_act_def insert_text_def insert_statement_def sep_if_def)
  show "literals bs None (insert_statement esc t vars) = List.map (\<lambda>(k, v). esc v) vars"
    using assms(3,4,5) by (intro insert_statement_literals) auto
qed

lemma insert_sends_escaped_values_witness:
  "let b = backend_of (Mysql_Build (sample_mysql None)); vars = [(''name'', [CHR ''O'', QUOTE, CHR ''x''])];
       e = (\<lambda>v. cstr (sample_escape v))
   in tx_insert b ''users'' vars (new_CTransaction (fresh_db ()))
      = handle_from (be_insert b (insert_statement e ''users'' vars) ''id'') (new_CTransaction (fresh_db ()))
    \<and> literals True None (insert_statement e ''users'' vars) = [[CHR ''O'', BACKSLASH, QUOTE, CHR ''x'']]"
proof -
  let ?b = "backend_of (Mysql_Build (sample_mysql None))" and ?e = "\<lambda>v. cstr (sample_escape v)"
  let ?vars = "[(''name'', [CHR ''O'', QUOTE, CHR ''x''])]"
  have e: "\<And>v db. be_esc ?b v db = (Inr (?e v), db)"
    by (simp add: mysql_backend_def mysql_esc_def sample_mysql_def)
  have u: "\<not> dbLock (txDb (new_CTransaction (fresh_db ())))" by (simp add: new_CTransaction_def fresh_db_def)
  have "?vars \<noteq> []" "QUOTE \<notin> set ''users''"
    "\<forall>(k, v) \<in> set ?vars. k \<noteq> [] \<and> QUOTE \<notin> set k \<and> closed_literal True (?e v)"
    by (simp, simp, code_simp)
  note p = insert_sends_escaped_values [of ?b ?e, OF e u this]
  have "List.map (\<lambda>(k, v). ?e v) ?vars = [[CHR ''O'', BACKSLASH, QUOTE, CHR ''x'']]" by code_simp
  with p show ?thesis by (simp only: Let_def)
qed

text \<open>The values of the WHERE clause of \<open>update\<close> are not escaped: one crafted
  value sends the same statement as two separate conditions, for every table and every pair of
  columns, so the statement does not determine the conditions the program asked for.\<close>

theorem update_where_not_escaped:
  assumes "a < b"
  shows "tx_update be t [(a, x @ [QUOTE] @ '' AND '' @ b @ ''='' @ [QUOTE] @ y)] vars
      = tx_update be t [(a, x), (b, y)] vars
    \<and> smap_wf [(a, x), (b, y)]"
  using assms by (simp_all add: tx_update_def sep_if_def smap_wf_def)

lemma update_where_not_escaped_witness:
  "tx_update empty_backend ''users'' [(''id'', ''1'' @ [QUOTE] @ '' AND '' @ ''name'' @ ''='' @ [QUOTE] @ ''x'')] []
    = tx_update empty_backend ''users'' [(''id'', ''1''), (''name'', ''x'')] [] \<and> smap_wf [(''id'', ''1''), (''name'', ''x'')]"
proof -
  have "''id'' < ''name''" by (simp add: less_char_def)
  from update_where_not_escaped [OF this] show ?thesis by blast
qed


section \<open>The MySQL handler\<close>

text \<open>No use of the MySQL handler's \<open>insert\<close> on a connected transaction ends well: a
  refused statement gives a handle whose error text is the statement itself; a statement that
  succeeds without a result set, as an INSERT does, runs off the end of the function; one with a
  result set gives a handle that the end of the transaction cannot delete, because its result set has
  been freed already.\<close>

theorem mysql_insert_outcome:
  assumes "\<not> dbLock (txDb tx)" and "handles_fresh (txDb tx)" and "txHandles tx = []"
  shows "case handle_from (be_insert (mysql_backend api True) s f) tx of
      (Inl e, tx1) \<Rightarrow> e = NoReturn \<and> fst (my_query api s (dbExt (txDb tx))) = 0
    | (Inr p, tx1) \<Rightarrow>
        (if fst (my_query api s (dbExt (txDb tx))) = 0
         then fst (tx_dispose (mysql_backend api True) tx1) = Inl DoubleFree
         else fst (dh_isError p (txDb tx1)) = Inr (s \<noteq> []) \<and> fst (dh_getError p (txDb tx1)) = Inr s)"
proof -
  obtain r d where q: "my_query api s (dbExt (txDb tx)) = (r, d)" by fastforce
  obtain sr d1 where st: "my_store api d = (sr, d1)" by fastforce
  note defs = handle_from_def bind_act_def on_db_def with_lock_def mysql_backend_def mysql_insert_def
    new_handle_def keep_handle_def Let_def
  show ?thesis
  proof (cases "r = 0")
    case False
    then show ?thesis using q assms
      by (simp add: defs dh_isError_def dh_getError_def the_handle_def through_RS_def res_isError_def error_resource_def)
  next
    case True
    show ?thesis
    proof (cases sr)
      case None
      then show ?thesis using q st True assms by (simp add: defs)
    next
      case (Some res)
      then show ?thesis using q st True assms
        by (simp add: defs alloc_result_def mysql_free_result_def tx_dispose_def tx_cleanup_def
            delete_handle_def new_resource_def)
    qed
  qed
qed

lemma mysql_insert_outcome_witness:
  "let be = mysql_backend (sample_mysql (Some null_row)) True; tx = new_CTransaction (fresh_db ())
   in \<exists>p tx1. handle_from (be_insert be ''INSERT'' ''id'') tx = (Inr p, tx1)
      \<and> fst (tx_dispose be tx1) = Inl DoubleFree"
proof -
  let ?api = "sample_mysql (Some null_row)" and ?tx = "new_CTransaction (fresh_db ())"
  have u: "\<not> dbLock (txDb ?tx)" "handles_fresh (txDb ?tx)" "txHandles ?tx = []"
    by (simp_all add: new_CTransaction_def fresh_db_def handles_fresh_def)
  have i: "fst (handle_from (be_insert (mysql_backend ?api True) ''INSERT'' ''id'') ?tx) = Inr 0" by code_simp
  have q: "fst (my_query ?api ''INSERT'' (dbExt (txDb ?tx))) = 0" by (simp add: sample_mysql_def)
  obtain tx1 where "handle_from (be_insert (mysql_backend ?api True) ''INSERT'' ''id'') ?tx = (Inr 0, tx1)"
    using i by (metis prod.collapse)
  with mysql_insert_outcome [OF u, of ?api "''INSERT''" "''id''"] q show ?thesis by (simp add: Let_def)
qed



lemma mysql_parse_split:
  assumes "CHR ''/'' \<notin> set p1"
  shows "mysql_parse (''mysql://'' @ p1 @ ''/'' @ n) = (case find_ch (CHR ''@'') p1 of
      Some j \<Rightarrow> (let (u, pw) = mysql_login (take j p1) in
        Some \<lparr>mtHost = drop (j + 1) p1, mtUser = u, mtPassword = pw, mtDatabase = n\<rparr>)
    | None \<Rightarrow> Some \<lparr>mtHost = p1, mtUser = [], mtPassword = [], mtDatabase = n\<rparr>)"
  using find_ch_append [OF assms, of n] by (simp add: mysql_parse_def)

lemma mysql_login_split: "CHR '':'' \<notin> set u \<Longrightarrow> mysql_login (u @ '':'' @ pw) = (u, pw)"
  using find_ch_append [of "CHR '':''" u pw] by (simp add: mysql_login_def)



end
