(* ===== verification/Db_Pool.thy ===== *)
theory Db_Pool
  imports Db_Facts
begin

text \<open>
  The connection pool: \<open>CDatabaseInstance\<close> and \<open>CDatabase\<close> (\<open>src/server/CDatabaseInstance.h\<close>,
  \<open>CDatabaseInstance.cpp\<close>, \<open>CDatabase.h\<close>, \<open>CDatabase.cpp\<close>). The pool is a vector of pointers; the
  instances are in \<open>poHeap\<close>. Each public operation, and each round of the pool thread, is one step,
  as the flag \<open>Hold\<close> means them to be; \<open>Spin_Lock\<close> has the steps of that flag itself. The clock is
  an argument of the operations that read it.
\<close>

record CDatabaseInstance =
  diID :: "64 word"
  diH :: db_handler
  diConnected :: bool
  diUsed :: bool
  diConnectionString :: string
  diT :: int

record 'd pool =
  poConnectionString :: string
  poInstances :: "nat list"
  poRunning :: bool
  poHold :: bool
  poExpireSeconds :: int
  poHeap :: "nat \<Rightarrow> CDatabaseInstance option"
  poNext :: nat
  poCounter :: "64 word"
  poExt :: 'd

definition SOLUSEK_DBPOOL_EXPIRESECONDS :: int where
  "SOLUSEK_DBPOOL_EXPIRESECONDS = 30"

definition new_CDatabase :: "'d \<Rightarrow> 'd pool" where
  "new_CDatabase d = \<lparr>poConnectionString = [], poInstances = [], poRunning = True, poHold = False,
    poExpireSeconds = SOLUSEK_DBPOOL_EXPIRESECONDS, poHeap = (\<lambda>_. None), poNext = 0, poCounter = 1, poExt = d\<rparr>"

section \<open>Instances\<close>

text \<open>The constructor connects; a failure clears \<open>Used\<close> and \<open>T\<close>.\<close>

definition new_CDatabaseInstance :: "'d build \<Rightarrow> int \<Rightarrow> string \<Rightarrow> 64 word \<Rightarrow> 'd \<Rightarrow> CDatabaseInstance \<times> 64 word \<times> 'd" where
  "new_CDatabaseInstance b now cs counter d =
    (let (ok, h, d1) = handler_open b (hd_setConnectionString cs new_handler) d in
     (\<lparr>diID = counter, diH = h, diConnected = ok, diUsed = ok, diConnectionString = cs,
       diT = (if ok then now else 0)\<rparr>, counter + 1, d1))"

definition delete_CDatabaseInstance :: "'d build \<Rightarrow> CDatabaseInstance \<Rightarrow> 'd \<Rightarrow> 'd" where
  "delete_CDatabaseInstance b i d = snd (handler_close b (diH i) d)"

definition putInUse :: "int \<Rightarrow> CDatabaseInstance \<Rightarrow> CDatabaseInstance" where
  "putInUse now i = i\<lparr>diUsed := True, diT := now\<rparr>"

definition di_dispose :: "CDatabaseInstance \<Rightarrow> CDatabaseInstance" where
  "di_dispose i = i\<lparr>diUsed := False\<rparr>"

definition di_begin :: "'d build \<Rightarrow> CDatabaseInstance \<Rightarrow> ('d db, 'd backend) act" where
  "di_begin b i = handler_begin b (diH i)"

section \<open>The pool\<close>

definition po_setConnectionString :: "string \<Rightarrow> 'd pool \<Rightarrow> 'd pool" where
  "po_setConnectionString cs po = po\<lparr>poConnectionString := cs\<rparr>"

text \<open>
  The loop of \<open>getUnusedInstance\<close>; it compares with the member \<open>ConnectionString\<close> and ignores
  its argument.
\<close>

fun unused_loop :: "string \<Rightarrow> (nat \<Rightarrow> CDatabaseInstance option) \<Rightarrow> nat list \<Rightarrow> nat option res" where
  "unused_loop conn h [] = Inr None"
| "unused_loop conn h (p # ps) = (case h p of
      None \<Rightarrow> Inl UseAfterFree
    | Some i \<Rightarrow> if \<not> diUsed i \<and> conn = diConnectionString i then Inr (Some p) else unused_loop conn h ps)"

definition getUnusedInstance :: "string \<Rightarrow> 'd pool \<Rightarrow> nat option res" where
  "getUnusedInstance cs po = unused_loop (poConnectionString po) (poHeap po) (poInstances po)"

definition pool_open :: "'d build \<Rightarrow> int \<Rightarrow> ('d pool, nat) act" where
  "pool_open b now po =
    (if poHold po then (Inl Diverges, po)
     else case getUnusedInstance (poConnectionString po) po of
       Inl e \<Rightarrow> (Inl e, po\<lparr>poHold := True\<rparr>)
     | Inr (Some p) \<Rightarrow> (Inr p, po)
     | Inr None \<Rightarrow>
        let (i, c, d) = new_CDatabaseInstance b now (poConnectionString po) (poCounter po) (poExt po);
            p = poNext po;
            po1 = po\<lparr>poHeap := (poHeap po)(p \<mapsto> i), poNext := Suc p, poCounter := c, poExt := d\<rparr>
        in if \<not> diConnected i then (Inl ThrowStd, po1)
           else (Inr p, po1\<lparr>poInstances := poInstances po @ [p]\<rparr>))"

definition pool_dispose :: "nat \<Rightarrow> ('d pool, unit) act" where
  "pool_dispose p po = (case poHeap po p of
      None \<Rightarrow> (Inl UseAfterFree, po)
    | Some i \<Rightarrow> (Inr (), po\<lparr>poHeap := (poHeap po)(p \<mapsto> di_dispose i)\<rparr>))"

text \<open>One instance of a round of \<open>_poolThread\<close>, and the loop over the vector, which erases as it goes.\<close>

definition expired :: "int \<Rightarrow> int \<Rightarrow> CDatabaseInstance \<Rightarrow> bool" where
  "expired limit now i \<longleftrightarrow> \<not> diUsed i \<and> now - diT i > limit"

fun sweep_loop :: "'d build \<Rightarrow> int \<Rightarrow> nat list \<Rightarrow> nat list \<Rightarrow> ('d pool, unit) act" where
  "sweep_loop b now kept [] po = (Inr (), po\<lparr>poInstances := kept\<rparr>)"
| "sweep_loop b now kept (p # ps) po = (case poHeap po p of
      None \<Rightarrow> (Inl UseAfterFree, po\<lparr>poInstances := kept @ p # ps\<rparr>)
    | Some i \<Rightarrow>
        if expired (poExpireSeconds po) now i
        then sweep_loop b now kept ps
          (po\<lparr>poHeap := (poHeap po)(p := None), poExt := delete_CDatabaseInstance b i (poExt po)\<rparr>)
        else sweep_loop b now (kept @ [p]) ps po)"

definition pool_sweep :: "'d build \<Rightarrow> int \<Rightarrow> ('d pool, unit) act" where
  "pool_sweep b now po =
    (if \<not> poRunning po then (Inr (), po)
     else if poHold po then (Inl Diverges, po)
     else case sweep_loop b now [] (poInstances po) (po\<lparr>poHold := True\<rparr>) of
       (Inl e, po1) \<Rightarrow> (Inl e, po1)
     | (Inr _, po1) \<Rightarrow> (Inr (), po1\<lparr>poHold := False\<rparr>))"

text \<open>The loop of \<open>closeAll\<close> takes the vector from its end.\<close>

fun close_loop :: "'d build \<Rightarrow> nat list \<Rightarrow> ('d pool, unit) act" where
  "close_loop b [] po = (Inr (), po\<lparr>poInstances := []\<rparr>)"
| "close_loop b (p # ps) po = (case poHeap po p of
      None \<Rightarrow> (Inl DoubleFree, po\<lparr>poInstances := rev (p # ps)\<rparr>)
    | Some i \<Rightarrow> close_loop b ps
        (po\<lparr>poHeap := (poHeap po)(p := None), poExt := delete_CDatabaseInstance b i (poExt po)\<rparr>))"

definition pool_closeAll :: "'d build \<Rightarrow> ('d pool, unit) act" where
  "pool_closeAll b po = (if poHold po then (Inl Diverges, po)
    else case close_loop b (rev (poInstances po)) (po\<lparr>poHold := True\<rparr>) of
      (Inl e, po1) \<Rightarrow> (Inl e, po1)
    | (Inr _, po1) \<Rightarrow> (Inr (), po1\<lparr>poHold := False\<rparr>))"

definition delete_CDatabase :: "'d build \<Rightarrow> ('d pool, unit) act" where
  "delete_CDatabase b = bind_act (pool_closeAll b) (\<lambda>_ po. (Inr (), po\<lparr>poRunning := False, poHold := False\<rparr>))"

definition removeInstance :: "nat \<Rightarrow> 'd pool \<Rightarrow> 'd pool" where
  "removeInstance p po = po\<lparr>poInstances := erase_first (\<lambda>q. q = p) (poInstances po)\<rparr>"

section \<open>The pool and its clients\<close>

text \<open>\<open>psHeld\<close> lists the instances \<open>open\<close> has returned and their callers have not disposed yet.\<close>

record 'd pool_sys =
  psPool :: "'d pool"
  psHeld :: "nat list"

inductive pool_step :: "'d build \<Rightarrow> 'd pool_sys \<Rightarrow> 'd pool_sys \<Rightarrow> bool" for b where
  opened: "pool_open b now (psPool s) = (Inr p, po) \<Longrightarrow>
    pool_step b s (s\<lparr>psPool := po, psHeld := p # psHeld s\<rparr>)"
| refused: "pool_open b now (psPool s) = (Inl e, po) \<Longrightarrow> pool_step b s (s\<lparr>psPool := po\<rparr>)"
| disposed: "p \<in> set (psHeld s) \<Longrightarrow> pool_dispose p (psPool s) = (r, po) \<Longrightarrow>
    pool_step b s (s\<lparr>psPool := po, psHeld := remove1 p (psHeld s)\<rparr>)"
| swept: "pool_sweep b now (psPool s) = (r, po) \<Longrightarrow> pool_step b s (s\<lparr>psPool := po\<rparr>)"
| closed: "pool_closeAll b (psPool s) = (r, po) \<Longrightarrow> pool_step b s (s\<lparr>psPool := po\<rparr>)"
| connection: "pool_step b s (s\<lparr>psPool := po_setConnectionString cs (psPool s)\<rparr>)"

definition pool_start :: "'d pool_sys \<Rightarrow> bool" where
  "pool_start s \<longleftrightarrow> psHeld s = [] \<and> (\<exists>d. psPool s = new_CDatabase d)"

text \<open>
  Between the operations the flag \<open>Hold\<close> is clear, the vector lists live connected instances, each
  once, and an instance marked used is in the hands of exactly one caller.
\<close>

definition pool_ok :: "'d pool \<Rightarrow> bool" where
  "pool_ok po \<longleftrightarrow> \<not> poHold po \<and> distinct (poInstances po) \<and>
    (\<forall>p \<in> set (poInstances po). \<exists>i. poHeap po p = Some i \<and> diConnected i) \<and>
    (\<forall>p. poHeap po p \<noteq> None \<longrightarrow> p < poNext po)"

definition pool_inv :: "'d pool_sys \<Rightarrow> bool" where
  "pool_inv s \<longleftrightarrow> pool_ok (psPool s) \<and> (\<forall>p \<in> set (psHeld s). p < poNext (psPool s)) \<and>
    (\<forall>p i. poHeap (psPool s) p = Some i \<longrightarrow> diUsed i \<longrightarrow> count_list (psHeld s) p = 1)"

lemma unused_loop_ok:
  "\<forall>p \<in> set ps. h p \<noteq> None \<Longrightarrow> unused_loop conn h ps = Inr (find
    (\<lambda>p. \<exists>i. h p = Some i \<and> \<not> diUsed i \<and> conn = diConnectionString i) ps)"
  by (induction ps) (auto split: option.split)

lemma sweep_loop_ok:
  "distinct ps \<Longrightarrow> \<forall>p \<in> set ps. poHeap po p \<noteq> None \<Longrightarrow>
   \<exists>d. sweep_loop b now kept ps po = (Inr (), po\<lparr>
     poInstances := kept @ filter (\<lambda>p. \<not> expired (poExpireSeconds po) now (the (poHeap po p))) ps,
     poHeap := (\<lambda>p. if p \<in> set ps \<and> expired (poExpireSeconds po) now (the (poHeap po p)) then None else poHeap po p),
     poExt := d\<rparr>)"
proof (induction ps arbitrary: kept po)
  case Nil
  show ?case by (rule exI [of _ "poExt po"]) simp
next
  case (Cons q ps)
  then obtain i where i: "poHeap po q = Some i" by auto
  show ?case
  proof (cases "expired (poExpireSeconds po) now i")
    case False
    from Cons.IH [of po "kept @ [q]"] Cons.prems obtain d where
      "sweep_loop b now (kept @ [q]) ps po = (Inr (), po\<lparr>
        poInstances := (kept @ [q]) @ filter (\<lambda>p. \<not> expired (poExpireSeconds po) now (the (poHeap po p))) ps,
        poHeap := (\<lambda>p. if p \<in> set ps \<and> expired (poExpireSeconds po) now (the (poHeap po p)) then None else poHeap po p),
        poExt := d\<rparr>)" by auto
    moreover have "(\<lambda>p. if p \<in> set ps \<and> expired (poExpireSeconds po) now (the (poHeap po p)) then None else poHeap po p)
      = (\<lambda>p. if p \<in> set (q # ps) \<and> expired (poExpireSeconds po) now (the (poHeap po p)) then None else poHeap po p)"
      using False i by auto
    ultimately show ?thesis using False i by (intro exI [of _ d]) simp
  next
    case True
    let ?po = "po\<lparr>poHeap := (poHeap po)(q := None), poExt := delete_CDatabaseInstance b i (poExt po)\<rparr>"
    have q: "q \<notin> set ps" using Cons.prems by simp
    have live: "distinct ps" "\<forall>p \<in> set ps. poHeap ?po p \<noteq> None" using Cons.prems by auto
    from Cons.IH [OF live, of kept] obtain d where
      d: "sweep_loop b now kept ps ?po = (Inr (), ?po\<lparr>
        poInstances := kept @ filter (\<lambda>p. \<not> expired (poExpireSeconds po) now (the (poHeap ?po p))) ps,
        poHeap := (\<lambda>p. if p \<in> set ps \<and> expired (poExpireSeconds po) now (the (poHeap ?po p)) then None else poHeap ?po p),
        poExt := d\<rparr>)" by simp blast
    have f: "filter (\<lambda>p. \<not> expired (poExpireSeconds po) now (the (poHeap ?po p))) ps
      = filter (\<lambda>p. \<not> expired (poExpireSeconds po) now (the (poHeap po p))) ps"
      using q by (intro filter_cong) auto
    have h: "(\<lambda>p. if p \<in> set ps \<and> expired (poExpireSeconds po) now (the (poHeap ?po p)) then None else poHeap ?po p)
      = (\<lambda>p. if p \<in> set (q # ps) \<and> expired (poExpireSeconds po) now (the (poHeap po p)) then None else poHeap po p)"
      using True i q by auto
    show ?thesis using True i d unfolding f h by (intro exI [of _ d]) simp
  qed
qed

lemma close_loop_ok:
  "distinct ps \<Longrightarrow> \<forall>p \<in> set ps. poHeap po p \<noteq> None \<Longrightarrow>
   \<exists>d. close_loop b ps po = (Inr (), po\<lparr>poInstances := [],
     poHeap := (\<lambda>p. if p \<in> set ps then None else poHeap po p), poExt := d\<rparr>)"
proof (induction ps arbitrary: po)
  case Nil
  show ?case by (rule exI [of _ "poExt po"]) simp
next
  case (Cons q ps)
  then obtain i where i: "poHeap po q = Some i" by auto
  let ?po = "po\<lparr>poHeap := (poHeap po)(q := None), poExt := delete_CDatabaseInstance b i (poExt po)\<rparr>"
  have live: "distinct ps" "\<forall>p \<in> set ps. poHeap ?po p \<noteq> None" using Cons.prems by auto
  from Cons.IH [OF live] obtain d where
    d: "close_loop b ps ?po = (Inr (), ?po\<lparr>poInstances := [],
      poHeap := (\<lambda>p. if p \<in> set ps then None else poHeap ?po p), poExt := d\<rparr>)" by simp blast
  have "(\<lambda>p. if p \<in> set ps then None else poHeap ?po p) = (\<lambda>p. if p \<in> set (q # ps) then None else poHeap po p)"
    by auto
  with d i show ?case by (intro exI [of _ d]) simp
qed

lemma pool_sweep_ok:
  assumes "pool_ok po" "poRunning po"
  obtains d where "pool_sweep b now po = (Inr (), po\<lparr>
     poInstances := filter (\<lambda>p. \<not> expired (poExpireSeconds po) now (the (poHeap po p))) (poInstances po),
     poHeap := (\<lambda>p. if p \<in> set (poInstances po) \<and> expired (poExpireSeconds po) now (the (poHeap po p)) then None else poHeap po p),
     poExt := d, poHold := False\<rparr>)"
proof -
  have "distinct (poInstances po)" "\<forall>p \<in> set (poInstances po). poHeap (po\<lparr>poHold := True\<rparr>) p \<noteq> None"
    "\<not> poHold po" using assms by (auto simp: pool_ok_def)
  from sweep_loop_ok [OF this(1,2), of b now "[]"] this(3) that assms(2) show thesis
    by (elim exE) (simp add: pool_sweep_def cong: if_cong)
qed

lemma pool_closeAll_ok:
  assumes "pool_ok po"
  obtains d where "pool_closeAll b po = (Inr (), po\<lparr>poInstances := [],
     poHeap := (\<lambda>p. if p \<in> set (poInstances po) then None else poHeap po p), poExt := d, poHold := False\<rparr>)"
proof -
  have "distinct (rev (poInstances po))" "\<forall>p \<in> set (rev (poInstances po)). poHeap (po\<lparr>poHold := True\<rparr>) p \<noteq> None"
    "\<not> poHold po" using assms by (auto simp: pool_ok_def)
  from close_loop_ok [OF this(1,2), of b] this(3) that show thesis
    by (elim exE) (simp add: pool_closeAll_def cong: if_cong)
qed

lemma getUnused_ok:
  assumes "pool_ok po"
  shows "getUnusedInstance cs po = Inr (find
    (\<lambda>p. \<exists>i. poHeap po p = Some i \<and> \<not> diUsed i \<and> poConnectionString po = diConnectionString i) (poInstances po))"
  unfolding getUnusedInstance_def using assms by (intro unused_loop_ok) (auto simp: pool_ok_def)

text \<open>The three outcomes of \<open>open\<close>: an instance of the pool, unchanged; a new one; an exception.\<close>

lemma pool_open_cases [consumes 2, case_names reuse fresh failed]:
  assumes ok: "pool_ok po" and o: "pool_open b now po = (r, po')"
  obtains (reuse) p i where "r = Inr p" "po' = po" "p \<in> set (poInstances po)" "poHeap po p = Some i" "\<not> diUsed i"
  | (fresh) i c d where "r = Inr (poNext po)" "diConnected i" "diUsed i" "diT i = now"
      "po' = po\<lparr>poHeap := (poHeap po)(poNext po \<mapsto> i), poNext := Suc (poNext po), poCounter := c, poExt := d,
        poInstances := poInstances po @ [poNext po]\<rparr>"
  | (failed) i c d where "r = Inl ThrowStd" "\<not> diUsed i"
      "po' = po\<lparr>poHeap := (poHeap po)(poNext po \<mapsto> i), poNext := Suc (poNext po), poCounter := c, poExt := d\<rparr>"
proof -
  let ?f = "find (\<lambda>p. \<exists>i. poHeap po p = Some i \<and> \<not> diUsed i \<and> poConnectionString po = diConnectionString i) (poInstances po)"
  have h: "\<not> poHold po" using ok by (simp add: pool_ok_def)
  note g = getUnused_ok [OF ok, of "poConnectionString po"]
  show thesis
  proof (cases ?f)
    case (Some p)
    then show thesis using o h g find_SomeD [OF Some] reuse by (auto simp: pool_open_def)
  next
    case None
    obtain k hd d where hd: "handler_open b (hd_setConnectionString (poConnectionString po) new_handler) (poExt po) = (k, hd, d)"
      by (metis prod.collapse)
    let ?i = "\<lparr>diID = poCounter po, diH = hd, diConnected = k, diUsed = k,
      diConnectionString = poConnectionString po, diT = (if k then now else 0)\<rparr>"
    show thesis
    proof (cases k)
      case True
      then show thesis using o h g None hd
        by (intro fresh [of ?i d "poCounter po + 1"]) (auto simp: pool_open_def new_CDatabaseInstance_def Let_def)
    next
      case False
      then show thesis using o h g None hd
        by (intro failed [of ?i d "poCounter po + 1"]) (auto simp: pool_open_def new_CDatabaseInstance_def Let_def)
    qed
  qed
qed

lemma pool_open_inv:
  assumes inv: "pool_inv s" and o: "pool_open b now (psPool s) = (r, po)"
  shows "pool_inv (s\<lparr>psPool := po, psHeld := (case r of Inr p \<Rightarrow> p # psHeld s | Inl _ \<Rightarrow> psHeld s)\<rparr>)"
proof -
  let ?n = "poNext (psPool s)"
  have ok: "pool_ok (psPool s)" using inv by (simp add: pool_inv_def)
  have n: "poHeap (psPool s) ?n = None" "?n \<notin> set (psHeld s)" "?n \<notin> set (poInstances (psPool s))"
    using inv by (auto simp: pool_inv_def pool_ok_def)
  then have c: "count_list (psHeld s) ?n = 0" by (simp add: count_list_0_iff)
  have lt: "poHeap (psPool s) q \<noteq> None \<Longrightarrow> q < ?n" for q using inv by (auto simp: pool_inv_def pool_ok_def)
  from ok o show ?thesis
  proof (cases rule: pool_open_cases)
    case (reuse p i)
    then show ?thesis using inv lt [of p] by (auto simp: pool_inv_def)
  next
    case (fresh i k d)
    then show ?thesis using inv n c by (auto simp: pool_inv_def pool_ok_def less_Suc_eq)
  next
    case (failed i k d)
    then show ?thesis using inv n by (auto simp: pool_inv_def pool_ok_def less_Suc_eq)
  qed
qed

lemma count_remove1_other: "q \<noteq> p \<Longrightarrow> count_list (remove1 p xs) q = count_list xs q"
  by (induction xs) auto

lemma pool_dispose_inv:
  assumes "pool_inv s" "pool_dispose p (psPool s) = (r, po)"
  shows "pool_inv (s\<lparr>psPool := po, psHeld := remove1 p (psHeld s)\<rparr>)"
proof (cases "poHeap (psPool s) p")
  case None
  then have "po = psPool s" using assms(2) by (simp add: pool_dispose_def)
  then show ?thesis using assms(1) None count_remove1_other
    by (auto simp: pool_inv_def dest: notin_set_remove1 [rotated])
next
  case (Some i)
  then have "po = (psPool s)\<lparr>poHeap := (poHeap (psPool s))(p \<mapsto> di_dispose i)\<rparr>"
    using assms(2) by (simp add: pool_dispose_def)
  then show ?thesis using assms(1) Some count_remove1_other [of _ p "psHeld s"]
    by (auto simp: pool_inv_def pool_ok_def di_dispose_def dest: notin_set_remove1 [rotated])
qed

lemma pool_sweep_inv:
  assumes inv: "pool_inv s" and w: "pool_sweep b now (psPool s) = (r, po)"
  shows "pool_inv (s\<lparr>psPool := po\<rparr>)"
proof (cases "poRunning (psPool s)")
  case False
  then show ?thesis using w inv by (cases s) (simp add: pool_sweep_def)
next
  case True
  have "pool_ok (psPool s)" using inv by (simp add: pool_inv_def)
  then obtain d where "pool_sweep b now (psPool s) = (Inr (), (psPool s)\<lparr>poInstances := filter (\<lambda>p. \<not> expired (poExpireSeconds (psPool s)) now (the (poHeap (psPool s) p))) (poInstances (psPool s)),
      poHeap := (\<lambda>p. if p \<in> set (poInstances (psPool s)) \<and> expired (poExpireSeconds (psPool s)) now (the (poHeap (psPool s) p)) then None else poHeap (psPool s) p),
      poExt := d, poHold := False\<rparr>)" by (rule pool_sweep_ok [OF _ True])
  with w have
    "po = (psPool s)\<lparr>poInstances := filter (\<lambda>p. \<not> expired (poExpireSeconds (psPool s)) now (the (poHeap (psPool s) p))) (poInstances (psPool s)),
      poHeap := (\<lambda>p. if p \<in> set (poInstances (psPool s)) \<and> expired (poExpireSeconds (psPool s)) now (the (poHeap (psPool s) p)) then None else poHeap (psPool s) p),
      poExt := d, poHold := False\<rparr>" by simp
  then show ?thesis using inv by (auto simp: pool_inv_def pool_ok_def)
qed

lemma pool_closeAll_inv:
  assumes inv: "pool_inv s" and w: "pool_closeAll b (psPool s) = (r, po)"
  shows "pool_inv (s\<lparr>psPool := po\<rparr>)"
proof -
  have "pool_ok (psPool s)" using inv by (simp add: pool_inv_def)
  then obtain d where "pool_closeAll b (psPool s) = (Inr (), (psPool s)\<lparr>poInstances := [],
      poHeap := (\<lambda>p. if p \<in> set (poInstances (psPool s)) then None else poHeap (psPool s) p), poExt := d, poHold := False\<rparr>)"
    by (rule pool_closeAll_ok)
  with w have
    "po = (psPool s)\<lparr>poInstances := [],
      poHeap := (\<lambda>p. if p \<in> set (poInstances (psPool s)) then None else poHeap (psPool s) p), poExt := d, poHold := False\<rparr>"
    by simp
  then show ?thesis using inv by (auto simp: pool_inv_def pool_ok_def)
qed

interpretation pool_machine: step_machine pool_start "pool_step b" pool_inv for b
proof unfold_locales
  fix s :: "'a pool_sys"
  assume "pool_start s"
  then show "pool_inv s" by (auto simp: pool_start_def pool_inv_def pool_ok_def new_CDatabase_def)
next
  fix s t :: "'a pool_sys"
  assume inv: "pool_inv s" and st: "pool_step b s t"
  from st inv show "pool_inv t"
  proof (induction rule: pool_step.induct)
    case (opened now s p po)
    then show ?case using pool_open_inv [of s b now "Inr p" po] by simp
  next
    case (refused now s e po)
    then show ?case using pool_open_inv [of s b now "Inl e" po] by simp
  next
    case (connection s cs)
    then show ?case by (simp add: pool_inv_def pool_ok_def po_setConnectionString_def)
  qed (use pool_dispose_inv pool_sweep_inv pool_closeAll_inv in blast)+
qed

section \<open>Properties\<close>



text \<open>\<open>open\<close> does not mark an instance it takes from the pool: the pool is unchanged,
  so the next caller gets the same connection, and more than thirty seconds after the connection was
  made the pool thread deletes it although both hold it.\<close>

theorem reused_instance_not_marked:
  assumes "pool_ok po" and "pool_open b now po = (Inr p, po1)" and "p \<in> set (poInstances po)"
  shows "po1 = po \<and> pool_open b later po1 = (Inr p, po1) \<and>
    (poRunning po \<and> later - diT (the (poHeap po p)) > poExpireSeconds po \<longrightarrow>
      poHeap (snd (pool_sweep b later po1)) p = None)"
proof -
  have fresh: "poNext po \<notin> set (poInstances po)" using assms(1) by (auto simp: pool_ok_def)
  from assms(1,2) obtain i where i: "po1 = po" "poHeap po p = Some i" "\<not> diUsed i"
    by (cases rule: pool_open_cases) (use assms(3) fresh in auto)
  have h: "\<not> poHold po" using assms(1) by (simp add: pool_ok_def)
  have g: "\<exists>q. getUnusedInstance (poConnectionString po) po = Inr (Some q) \<and> q = p"
  proof (rule ccontr)
    assume n: "\<not> ?thesis"
    note u = getUnused_ok [OF assms(1), of "poConnectionString po"]
    have "getUnusedInstance (poConnectionString po) po = Inr None"
      using n u assms(2) h by (auto simp: pool_open_def split: option.splits)
    then have "p = poNext po" using assms(2) h
      by (auto simp: pool_open_def Let_def split: if_splits prod.splits)
    then show False using fresh assms(3) by simp
  qed
  then have "pool_open b later po1 = (Inr p, po1)" using h i by (auto simp: pool_open_def)
  moreover have "poHeap (snd (pool_sweep b later po1)) p = None"
    if "poRunning po" "later - diT (the (poHeap po p)) > poExpireSeconds po"
    by (rule pool_sweep_ok [OF assms(1) that(1), of b later])
      (use that(2) i assms(3) in \<open>simp add: expired_def\<close>)
  ultimately show ?thesis using i by blast
qed

definition sample_pool :: "unit pool" where
  "sample_pool = snd (pool_dispose 0 (snd (pool_open (Mysql_Build (sample_mysql None)) 0
    (po_setConnectionString ''mysql://h/d'' (new_CDatabase ())))))"

lemma reused_instance_not_marked_witness:
  "let b = Mysql_Build (sample_mysql None)
   in pool_open b 20 sample_pool = (Inr 0, sample_pool) \<and> pool_open b 31 sample_pool = (Inr 0, sample_pool)
     \<and> poHeap (snd (pool_sweep b 31 sample_pool)) 0 = None"
proof -
  let ?b = "Mysql_Build (sample_mysql None)"
  have d: "poInstances sample_pool = [0]" "poNext sample_pool = 1" "\<not> poHold sample_pool" "poRunning sample_pool"
    "poExpireSeconds sample_pool = 30" "poHeap sample_pool 0 \<noteq> None"
    "diT (the (poHeap sample_pool 0)) = 0" "diConnected (the (poHeap sample_pool 0))"
    "fst (pool_open ?b 20 sample_pool) = Inr 0" by code_simp+
  have "poHeap sample_pool p = None" if "p \<noteq> 0" for p
    using that by (simp add: sample_pool_def pool_open_def new_CDatabase_def po_setConnectionString_def
        getUnusedInstance_def pool_dispose_def new_CDatabaseInstance_def Let_def split: prod.split option.split)
  then have "\<forall>p. poHeap sample_pool p \<noteq> None \<longrightarrow> p < poNext sample_pool" using d(2) by fastforce
  then have "pool_ok sample_pool" using d by (auto simp: pool_ok_def)
  moreover obtain po1 where o: "pool_open ?b 20 sample_pool = (Inr 0, po1)" using d(9) by (metis prod.collapse)
  ultimately have n: "po1 = sample_pool \<and> pool_open ?b 31 po1 = (Inr 0, po1) \<and>
    (poRunning sample_pool \<and> 31 - diT (the (poHeap sample_pool 0)) > poExpireSeconds sample_pool \<longrightarrow>
      poHeap (snd (pool_sweep ?b 31 po1)) 0 = None)"
    by (rule reused_instance_not_marked) (simp add: d)
  then have e: "po1 = sample_pool" by (rule conjunct1)
  have late: "poRunning sample_pool \<and> 31 - diT (the (poHeap sample_pool 0)) > poExpireSeconds sample_pool"
    using d by simp
  from n [unfolded e] o [unfolded e] late show ?thesis unfolding Let_def by blast
qed

end
