(* ===== verification/Sample_Server.thy ===== *)
theory Sample_Server
  imports Http_Handler Db_Pool
begin

text \<open>
  The program of \<open>sample-server/main.cpp\<close>: its four endpoints and the set-up its \<open>main\<close> does
  before \<open>run\<close>. An endpoint acts on the server object; a session it gets is a pointer into the
  server's heap. \<open>now\<close> is the clock.
\<close>

text \<open>\<open>ses->setStringValue\<close> and \<open>ses->getStringValue\<close> through a pointer.\<close>

definition at_setStringValue :: "nat \<Rightarrow> string \<Rightarrow> string \<Rightarrow> (server, unit) act" where
  "at_setStringValue p name v srv = (case srvHeap srv p of
      None \<Rightarrow> (Inl UseAfterFree, srv)
    | Some ses \<Rightarrow> (case setStringValue name v ses (srvMemory srv) of
        Inl e \<Rightarrow> (Inl e, srv)
      | Inr (ses1, m1) \<Rightarrow> (Inr (), srv\<lparr>srvHeap := (srvHeap srv)(p \<mapsto> ses1), srvMemory := m1\<rparr>)))"

definition at_getStringValue :: "nat \<Rightarrow> string \<Rightarrow> (server, string) act" where
  "at_getStringValue p name srv = (case srvHeap srv p of
      None \<Rightarrow> (Inl UseAfterFree, srv)
    | Some ses \<Rightarrow> (getStringValue ses name (srvMemory srv), srv))"

definition setCookieEndpoint :: "MRequest \<Rightarrow> (server, MResponse) act" where
  "setCookieEndpoint data srv =
    (let cookie = (new_MCookie ''test'' ''value'')\<lparr>ckPath := ''/''\<rparr>
     in (Inr (default_MResponse\<lparr>rsCookies := [cookie], rsBody := ''Cookie set!''\<rparr>), srv))"

definition getCookieEndpoint :: "MRequest \<Rightarrow> (server, MResponse) act" where
  "getCookieEndpoint data srv =
    (let c = getCookie data ''test''
     in if \<not> ckNone c then (Inr (default_MResponse\<lparr>rsBody := ''Cookie content: '' @ ckValue c\<rparr>), srv)
        else (Inr (default_MResponse\<lparr>rsBody := ''Cookie not found.''\<rparr>), srv))"

definition setSessionEndpoint :: "nat \<Rightarrow> MRequest \<Rightarrow> (server, MResponse) act" where
  "setSessionEndpoint now data srv =
    (let (ses, srv1) = startSession now srv in
     bind_act (at_setStringValue ses ''var1'' ''val1'') (\<lambda>_.
     bind_act (at_setStringValue ses ''var2'' ''val2'') (\<lambda>_ srv2.
       case srvHeap srv2 ses of
         None \<Rightarrow> (Inl UseAfterFree, srv2)
       | Some s \<Rightarrow> (Inr (new_MResponse 200 ''Session set.'' (sesID s)), srv2))) srv1)"

definition session_text :: "string \<Rightarrow> string \<Rightarrow> string" where
  "session_text v1 v2 = ''Session found!'' @ [LF, LF] @ ''var1 = '' @ v1 @ [LF] @ ''var2 = '' @ v2 @ [LF]"

definition getSessionEndpoint :: "MRequest \<Rightarrow> (server, MResponse) act" where
  "getSessionEndpoint data srv = (case getSession (rqSID data) srv of
      Inl e \<Rightarrow> (Inl e, srv)
    | Inr None \<Rightarrow> (Inr (new_MResponse 200 (''NO session found. Looking for ID: '' @ rqSID data) []), srv)
    | Inr (Some p) \<Rightarrow>
        bind_act (at_getStringValue p ''var1'') (\<lambda>v1.
        bind_act (at_getStringValue p ''var2'') (\<lambda>v2.
          return_act (new_MResponse 200 (session_text v1 v2) []))) srv)"

text \<open>The function pointers, numbered in the order of the file.\<close>

definition sample_callbacks :: "nat \<Rightarrow> callbacks" where
  "sample_callbacks now f = (if f = 0 then setCookieEndpoint else if f = 1 then getCookieEndpoint
    else if f = 2 then setSessionEndpoint now else getSessionEndpoint)"

text \<open>\<open>main\<close> up to \<open>run\<close>, in a build without a database.\<close>

definition sample_main :: "memory \<Rightarrow> nat \<Rightarrow> server" where
  "sample_main m incremental =
    setThreadLimit 50
    (registerEndpoint (new_MEndpoint ''/api/session/get'' 3 ''GET'')
    (registerEndpoint (new_MEndpoint ''/api/session/set'' 2 ''GET'')
    (registerEndpoint (new_MEndpoint ''/api/cookie/get'' 1 ''GET'')
    (registerEndpoint (new_MEndpoint ''/api/cookie/set'' 0 ''GET'')
    (registerStaticIndex ''index.html''
    (addStaticDirectory ''../static/'' None
    (addStaticDirectory ''../static/solusek/'' (Some ''solusek.com'')
    (setListenPort 8080 (new_CServer m incremental)))))))))"

text \<open>The block under \<open>USE_MYSQL\<close>: connecting, and disposing the instance at once.\<close>

definition sample_database :: "'d build \<Rightarrow> int \<Rightarrow> ('d pool, unit) act" where
  "sample_database b now po =
    bind_act (pool_open b now) (\<lambda>p. pool_dispose p) (po_setConnectionString ''mysql://root@localhost'' po)"

section \<open>Requests with a cookie\<close>

definition cookie_request :: "string \<Rightarrow> (string \<times> string) list \<Rightarrow> MRequest" where
  "cookie_request target nvs = request_of target [(''Cookie'', '' '' @ cookie_line nvs)] []"

lemma request_cookie_header:
  assumes "nvs \<noteq> []" "\<forall>nv \<in> set nvs. pair_ok nv" "trim (cookie_line nvs) = cookie_line nvs"
  shows "cookie_request target nvs = with_cookies nvs ((new_MRequest [])\<lparr>rqQueryString := query_of target\<rparr>)"
proof -
  have c: "stored_value [(''Cookie'', SP # cookie_line nvs)] ''Cookie'' = Some (cookie_line nvs)"
    using assms(3) by (simp add: stored_value_def trim_space is_space_def)
  have h: "stored_value [(''Cookie'', SP # cookie_line nvs)] ''Host'' = None"
    "stored_value [(''Cookie'', SP # cookie_line nvs)] ''X-SSL-Client-CN'' = None"
    by (simp_all add: stored_value_def) code_simp+
  have host: "(with_cookies nvs' r)\<lparr>rqHost := rqHost r\<rparr> = with_cookies nvs' r" for nvs' r
  proof (induction nvs' arbitrary: r)
    case (Cons nv nvs')
    have "rqHost (add_cookie (cookie_pair nv) r) = rqHost r" by (simp add: add_cookie_def Let_def)
    with Cons [where r = "add_cookie (cookie_pair nv) r"] show ?case by (simp add: with_cookies_def)
  qed (simp add: with_cookies_def)
  let ?r = "(new_MRequest [])\<lparr>rqQueryString := query_of target\<rparr>"
  have "cookie_loop (cookie_line nvs) ?r = with_cookies nvs ?r"
    using cookie_loop_space [OF assms(1,2), of "[]" ?r] by simp
  moreover have "?r\<lparr>rqSSLClientCN := []\<rparr> = ?r" by (simp add: new_MRequest_def)
  ultimately show ?thesis
    using host [where r = ?r and nvs' = nvs] by (simp add: cookie_request_def request_of_def Let_def c h) (simp add: new_MRequest_def)
qed

lemma one_cookie_request:
  assumes "pair_ok (n, v)"
  shows "rqSID (cookie_request target [(n, v)]) = (if n = ''SolusekSID'' then v else [])
    \<and> rqCookies (cookie_request target [(n, v)]) = [new_MCookie n v]"
proof -
  have l: "cookie_line [(n, v)] = cookie_pair (n, v)" by (simp add: cookie_line_def)
  have "cookie_request target [(n, v)] =
      add_cookie (n @ CHR ''='' # v) ((new_MRequest [])\<lparr>rqQueryString := query_of target\<rparr>)"
    using request_cookie_header [of "[(n, v)]" target] assms
    by (simp add: l pair_ok_def with_cookies_def cookie_pair_def)
  also have "\<dots> = ((new_MRequest [])\<lparr>rqQueryString := query_of target\<rparr>)
      \<lparr>rqSID := (if n = ''SolusekSID'' then v else []), rqCookies := [new_MCookie n v]\<rparr>"
    using assms by (subst add_cookie_pair) (auto simp: pair_ok_def cookie_pair_def new_MRequest_def)
  finally show ?thesis by simp
qed

section \<open>Properties\<close>

lemma empty_items_wf: "mem_ok m \<Longrightarrow> ses_wf \<lparr>sesID = i, Items = []\<rparr> m"
  by (simp add: ses_wf_def)

text \<open>What the session endpoint leaves behind: a listed session that holds the two values.\<close>

lemma setSessionEndpoint_facts:
  assumes ok: "sessions_ok srv" "length (dec_of_nat now) = 10" "srvIncremental srv < 4294967295" "mem_ok (srvMemory srv)"
  obtains p ses srv1 where
    "setSessionEndpoint now rq srv = (Inr (new_MResponse 200 ''Session set.'' (dec_of_nat now @ dec_of_nat (srvIncremental srv))), srv1)"
    "sessions_ok srv1" "getSession (dec_of_nat now @ dec_of_nat (srvIncremental srv)) srv1 = Inr (Some p)"
    "srvHeap srv1 p = Some ses" "ses_wf ses (srvMemory srv1)"
    "ses_abs ses (srvMemory srv1) ''var1'' = Some ''val1''" "ses_abs ses (srvMemory srv1) ''var2'' = Some ''val2''"
proof -
  let ?sid = "dec_of_nat now @ dec_of_nat (srvIncremental srv)"
  obtain p srv0 where st: "startSession now srv = (p, srv0)" by fastforce
  note sf = startSession_facts [OF ok(1-3) st]
  have s0: "srvHeap srv0 p = Some \<lparr>sesID = ?sid, Items = []\<rparr>" "srvMemory srv0 = srvMemory srv"
    using st ok(3) by (auto simp: startSession_def new_CSession_def Let_def)
  let ?s0 = "\<lparr>sesID = ?sid, Items = []\<rparr>"
  have w0: "ses_wf ?s0 (srvMemory srv0)" using ok(4) s0 by (simp add: empty_items_wf)
  obtain s1 m1 where v1: "setStringValue ''var1'' ''val1'' ?s0 (srvMemory srv0) = Inr (s1, m1)" "sesID s1 = ?sid"
    by (rule setStringValue_writes [OF w0, of "''var1''" "''val1''"]) simp
  note w1 = setStringValue_wf [OF w0 v1(1)]
  obtain s2 m2 where v2: "setStringValue ''var2'' ''val2'' s1 m1 = Inr (s2, m2)" "sesID s2 = ?sid"
    by (rule setStringValue_writes [OF w1, of "''var2''" "''val2''"]) (use v1(2) in simp)
  note w2 = setStringValue_wf [OF w1 v2(1)]
  have ab: "ses_abs s2 m2 = (ses_abs ?s0 (srvMemory srv0))(''var1'' \<mapsto> ''val1'', ''var2'' \<mapsto> ''val2'')"
    using setStringValue_abs [OF w0 v1(1)] setStringValue_abs [OF w1 v2(1)] by simp
  let ?srv1 = "srv0\<lparr>srvHeap := (srvHeap srv0)(p \<mapsto> s2), srvMemory := m2\<rparr>"
  have e: "setSessionEndpoint now rq srv = (Inr (new_MResponse 200 ''Session set.'' ?sid), ?srv1)"
    using st s0 v1 v2 by (simp add: setSessionEndpoint_def bind_act_def at_setStringValue_def)
  have sid: "sid_at ?srv1 = sid_at srv0"
    using s0 v2 by (simp add: sid_at_def fun_eq_iff)
  have "sessions_ok ?srv1" using sf(1) sid by (auto simp: sessions_ok_def)
  moreover have "getSession ?sid ?srv1 = Inr (Some p)"
    using getSession_own [OF calculation, of p] sf(2,5) sid by simp
  ultimately show thesis using e w2 ab by (intro that [of ?srv1 p s2]) simp_all
qed

lemma sid_pair_ok: "length (dec_of_nat n) = 10 \<Longrightarrow> i < 4294967295 \<Longrightarrow>
    pair_ok (''SolusekSID'', dec_of_nat n @ dec_of_nat i)"
proof -
  assume n: "length (dec_of_nat n) = 10" and i: "i < 4294967295"
  have len: "length (dec_of_nat j) \<le> j div 10 + 1" for j
  proof (induction j rule: less_induct)
    case (less j)
    show ?case
    proof (cases "j < 10")
      case False
      have "length (dec_of_nat j) = length (dec_of_nat (j div 10)) + 1" using False by (simp add: dec_of_nat.simps)
      also have "\<dots> \<le> j div 10 div 10 + 1 + 1" using less [of "j div 10"] False by simp
      also have "\<dots> \<le> j div 10 + 1" using False by linarith
      finally show ?thesis .
    qed (simp add: dec_of_nat.simps)
  qed
  let ?v = "dec_of_nat n @ dec_of_nat i"
  have nz: "c \<noteq> CHR ''='' \<and> c \<noteq> CHR '';'' \<and> \<not> is_space c" if "c \<in> set ?v" for c
  proof -
    have "is_digit c" using that dec_of_nat_digits by auto
    then show ?thesis using digit_not_space [of c] by (auto simp: is_digit_def)
  qed
  have sp: "list_all (\<lambda>c. \<not> is_space c) (''SolusekSID='' @ ?v)"
    using nz by (auto simp: list_all_iff is_space_def)
  have "trim (''SolusekSID='' @ ?v) = ''SolusekSID='' @ ?v"
    by (rule trim_id) (use sp in \<open>auto simp: list_all_iff\<close>)
  then show ?thesis using n nz len [of i] i by (auto simp: pair_ok_def cookie_pair_def)
qed

text \<open>A session survives from one request to the next: the session endpoint answers
  with the new session's identifier, and a later request whose Cookie header sends it back as
  \<open>SolusekSID\<close> reads both stored values. Another identifier that no session has is answered with
  the message that quotes it.\<close>

theorem session_kept_by_cookie:
  assumes "sessions_ok srv" and "length (dec_of_nat now) = 10" and "srvIncremental srv < 4294967295"
    and "mem_ok (srvMemory srv)"
  shows "\<exists>sid srv1. sample_callbacks now 2 rq srv = (Inr (new_MResponse 200 ''Session set.'' sid), srv1)
    \<and> sessions_ok srv1
    \<and> sample_callbacks later 3 (cookie_request target [(''SolusekSID'', sid)]) srv1
        = (Inr (new_MResponse 200 (session_text ''val1'' ''val2'') []), srv1)
    \<and> (\<forall>other. getSession (rqSID other) srv1 = Inr None \<longrightarrow> sample_callbacks later 3 other srv1
        = (Inr (new_MResponse 200 (''NO session found. Looking for ID: '' @ rqSID other) []), srv1))"
proof -
  let ?sid = "dec_of_nat now @ dec_of_nat (srvIncremental srv)"
  obtain p ses srv1 where
    s: "setSessionEndpoint now rq srv = (Inr (new_MResponse 200 ''Session set.'' ?sid), srv1)" "sessions_ok srv1"
      "getSession ?sid srv1 = Inr (Some p)" "srvHeap srv1 p = Some ses" "ses_wf ses (srvMemory srv1)"
      "ses_abs ses (srvMemory srv1) ''var1'' = Some ''val1''" "ses_abs ses (srvMemory srv1) ''var2'' = Some ''val2''"
    by (rule setSessionEndpoint_facts [OF assms, of rq])
  have "rqSID (cookie_request target [(''SolusekSID'', ?sid)]) = ?sid"
    using one_cookie_request [OF sid_pair_ok [OF assms(2,3)]] by simp
  then have "getSessionEndpoint (cookie_request target [(''SolusekSID'', ?sid)]) srv1
      = (Inr (new_MResponse 200 (session_text ''val1'' ''val2'') []), srv1)"
    using s(3-7) getStringValue_abs [OF s(5)]
    by (simp add: getSessionEndpoint_def at_getStringValue_def bind_act_def return_act_def)
  with s(1,2) show ?thesis by (intro exI [of _ ?sid] exI [of _ srv1]) (simp add: sample_callbacks_def getSessionEndpoint_def)
qed

lemma session_kept_by_cookie_witness:
  "\<exists>sid srv1. sample_callbacks 1700000000 2 (new_MRequest []) (sample_main no_memory 0)
      = (Inr (new_MResponse 200 ''Session set.'' sid), srv1)
    \<and> sample_callbacks 1700000009 3 (cookie_request ''/api/session/get'' [(''SolusekSID'', sid)]) srv1
        = (Inr (new_MResponse 200 (session_text ''val1'' ''val2'') []), srv1)"
proof -
  have srv: "srvSessions (sample_main no_memory 0) = []" "srvIncremental (sample_main no_memory 0) = 0"
    "srvMemory (sample_main no_memory 0) = no_memory"
    by (simp_all add: sample_main_def setThreadLimit_def registerEndpoint_def registerStaticIndex_def
        addStaticDirectory_def setListenPort_def new_CServer_def addDefaultMimeTypes_def default_mime_types_def
        addMimeType_def)
  have "sessions_ok (sample_main no_memory 0)" "srvIncremental (sample_main no_memory 0) < 4294967295"
    "mem_ok (srvMemory (sample_main no_memory 0))"
    using srv by (simp_all add: mem_ok_def no_memory_def)
  from session_kept_by_cookie [OF this(1) ten_digits this(2,3), of "new_MRequest []" 1700000009 "''/api/session/get''"]
  show ?thesis by blast
qed

text \<open>A MySQL build of the program stops in \<open>open\<close>: its connection string names no database.\<close>

lemma sample_database_throws:
  "fst (sample_database (Mysql_Build api) now (new_CDatabase d)) = Inl ThrowStd"
proof -
  have "mysql_parse ''mysql://root@localhost'' = None" by code_simp
  then show ?thesis
    by (simp add: sample_database_def bind_act_def pool_open_def po_setConnectionString_def new_CDatabase_def
        getUnusedInstance_def new_CDatabaseInstance_def mysql_open_def hd_setConnectionString_def new_handler_def)
qed

text \<open>The cookie endpoints: what the first one sets, the second one reads back.\<close>

lemma sample_cookie_read_back:
  "getCookieEndpoint (cookie_request target [(''test'', ''value'')]) srv
    = (Inr (default_MResponse\<lparr>rsBody := ''Cookie content: value''\<rparr>), srv)"
proof -
  have "pair_ok (''test'', ''value'')" by (simp add: pair_ok_def cookie_pair_def trim_id is_space_def)
  from one_cookie_request [OF this, of target] show ?thesis
    by (simp add: getCookieEndpoint_def getCookie_def new_MCookie_def)
qed

end
