(* ===== verification/Config_File.thy ===== *)
theory Config_File
  imports File_Util Contracts
begin

text \<open>
  Configuration files: \<open>CConfig\<close> of \<open>src/server/CConfig.h\<close> and \<open>CConfig.cpp\<close>, in the build without
  \<open>USE_YAML\<close> (the one the CMake file makes). A file is lines of \<open>name: value\<close>, nested by
  indentation. \<open>config_parse\<close> is the recursive loop of the code, as a
  \<^theory_text>\<open>partial_function (option)\<close>; the facts below show when it returns, and that it
  inverts the printing of a tree. The file size is an \<open>int\<close> there, so every position fits one.
  \<open>oob\<close> is the byte before the first of an empty string, which the trimming loops read.
\<close>

section \<open>Trees\<close>

datatype config_node =
  ConfigNode (cnName: string) (cnValue: string) (cnChildren: "config_node list")

text \<open>\<open>while(s[0] == ' ') s = s.substr(1)\<close>, and the loop at the other end.\<close>

definition trim_left :: "string \<Rightarrow> string" where
  "trim_left s = dropWhile (\<lambda>c. c = SP) s"

partial_function (option) trim_right :: "char \<Rightarrow> string \<Rightarrow> string option" where
  "trim_right oob s =
    (if (if s = [] then oob else last s) = SP then trim_right oob (butlast s) else Some s)"

text \<open>The indentation loop: how many blanks, and the line after them.\<close>

definition is_indent :: "char \<Rightarrow> bool" where
  "is_indent c \<longleftrightarrow> c = SP \<or> c = TAB"

definition inner_shift :: "string \<Rightarrow> nat" where
  "inner_shift line = length (takeWhile is_indent line)"

definition config_line :: "char \<Rightarrow> string \<Rightarrow> config_node option option" where
  "config_line oob line =
    (case find_ch (CHR '':'') line of
       None \<Rightarrow> Some None
     | Some pp \<Rightarrow>
         Option.bind (trim_right oob (trim_left (take pp line))) (\<lambda>var.
         Option.bind (trim_right oob (trim_left (drop (pp + 1) line))) (\<lambda>val.
           Some (Some (ConfigNode var val [])))))"

text \<open>
  \<open>ch\<close> are the children of \<open>parent\<close> so far, and \<open>child\<close> says whether \<open>lastNode\<close> is the last of
  them or \<open>parent\<close> itself. The recursive call appends to \<open>lastNode\<close>'s children.
\<close>

partial_function (option) config_parse ::
  "char \<Rightarrow> nat \<Rightarrow> config_node list \<Rightarrow> bool \<Rightarrow> string \<Rightarrow> (config_node list \<times> string) option" where
  "config_parse oob shift ch child body =
    (case find_ch LF body of
       None \<Rightarrow> Some (ch, body)
     | Some p \<Rightarrow>
         (let line = dropWhile is_indent (take p body); inner = inner_shift (take p body) in
          if shift < inner then
            (if child then
               Option.bind (config_parse oob inner (cnChildren (last ch)) False body) (\<lambda>(cc, body').
                 config_parse oob shift
                   (butlast ch @ [ConfigNode (cnName (last ch)) (cnValue (last ch)) cc]) True body')
             else
               Option.bind (config_parse oob inner ch False body) (\<lambda>(ch', body').
                 config_parse oob shift ch' False body'))
          else if inner < shift then Some (ch, body)
          else Option.bind (config_line oob line) (\<lambda>r.
            case r of
              None \<Rightarrow> config_parse oob shift ch child (drop (p + 1) body)
            | Some node \<Rightarrow> config_parse oob shift (ch @ [node]) True (drop (p + 1) body))))"

section \<open>The object\<close>

text \<open>\<open>BaseNode\<close> stays unassigned when the file cannot be opened: \<^const>\<open>None\<close>.\<close>

record CConfig =
  cfOK :: bool
  cfBase :: "config_node list option"

definition new_CConfig :: "char \<Rightarrow> string \<Rightarrow> os \<Rightarrow> CConfig res" where
  "new_CConfig oob fileName fs =
    (case files fs fileName of
       None \<Rightarrow> Inr \<lparr>cfOK = False, cfBase = None\<rparr>
     | Some content \<Rightarrow>
         bind_res (returned (config_parse oob 0 [] False (cstr content))) (\<lambda>(ch, body).
           Inr \<lparr>cfOK = True, cfBase = Some ch\<rparr>))"

text \<open>The destructor deletes \<open>BaseNode\<close>.\<close>

definition delete_CConfig :: "CConfig \<Rightarrow> unit res" where
  "delete_CConfig cf = (case cfBase cf of None \<Rightarrow> Inl WildFree | Some _ \<Rightarrow> Inr ())"

text \<open>\<open>CServer::loadConfig\<close>: the new \<open>Config\<close> member and the result.\<close>

definition loadConfig :: "char \<Rightarrow> string \<Rightarrow> os \<Rightarrow> (bool \<times> CConfig option) res" where
  "loadConfig oob fileName fs =
    bind_res (new_CConfig oob fileName fs) (\<lambda>cf.
      if \<not> cfOK cf then bind_res (delete_CConfig cf) (\<lambda>_. Inr (False, None))
      else Inr (True, Some cf))"

function config_get :: "config_node list \<Rightarrow> string \<Rightarrow> config_node option" where
  "config_get ch path =
    (let (var, rest) = (case find_ch (CHR ''/'') path of
        Some p \<Rightarrow> (take p path, drop (p + 1) path)
      | None \<Rightarrow> (path, []))
     in case find (\<lambda>n. cnName n = var) ch of
          None \<Rightarrow> None
        | Some n \<Rightarrow> (if 0 < length rest then config_get (cnChildren n) rest else Some n))"
  by pat_completeness auto
termination
  by (relation "measure (\<lambda>(ch, path). length path)") (auto split: option.splits dest: find_ch_less)

declare config_get.simps [simp del]

definition config_value :: "CConfig \<Rightarrow> string \<Rightarrow> string res" where
  "config_value cf path =
    (case cfBase cf of
       None \<Rightarrow> Inl WildAccess
     | Some ch \<Rightarrow>
         (case config_get ch path of
            None \<Rightarrow> Inr []
          | Some node \<Rightarrow>
              (let val = cnValue node in
               if val \<noteq> [] \<and> hd val = DQUOTE \<and> last val = DQUOTE
               then Inr (take (length val - 2) (drop 1 val)) else Inr val)))"

section \<open>Trimming\<close>

lemma trim_right_stop [simp]: "oob \<noteq> SP \<Longrightarrow> s = [] \<or> last s \<noteq> SP \<Longrightarrow> trim_right oob s = Some s"
  by (subst trim_right.simps) auto

lemma trim_right_returns: "oob \<noteq> SP \<Longrightarrow> \<exists>t. trim_right oob s = Some t"
proof (induction s rule: rev_induct)
  case (snoc c s)
  then show ?case by (cases "c = SP") (subst trim_right.simps, simp)+
qed simp

text \<open>On an empty string the loop tests the byte before it; a blank there is tested forever.\<close>

lemma trim_right_stuck: "trim_right SP [] = None"
proof -
  have "trim_right oob s = Some t \<Longrightarrow> \<not> (oob = SP \<and> s = [])" for oob s t
  proof (rule trim_right.raw_induct [where P = "\<lambda>oob s t. \<not> (oob = SP \<and> s = [])"])
    fix f :: "char \<Rightarrow> string \<Rightarrow> string option" and oob s t
    assume IH: "\<And>oob s t. f oob s = Some t \<Longrightarrow> \<not> (oob = SP \<and> s = [])"
      and eq: "(if (if s = [] then oob else last s) = SP then f oob (butlast s) else Some s) = Some t"
    show "\<not> (oob = SP \<and> s = [])" using IH [of oob "[]" t] eq by auto
  qed
  then show ?thesis by (cases "trim_right SP []") auto
qed

lemma config_line_returns: "oob \<noteq> SP \<Longrightarrow> \<exists>r. config_line oob line = Some r"
proof (cases "find_ch (CHR '':'') line")
  case (Some p)
  assume oob: "oob \<noteq> SP"
  obtain v where "trim_right oob (trim_left (take p line)) = Some v" using trim_right_returns [OF oob] by blast
  moreover obtain w where "trim_right oob (trim_left (drop (p + 1) line)) = Some w"
    using trim_right_returns [OF oob] by blast
  ultimately show ?thesis using Some by (simp add: config_line_def)
qed (simp add: config_line_def)

section \<open>Parsing returns\<close>

definition first_shift :: "string \<Rightarrow> nat" where
  "first_shift body = (case find_ch LF body of Some p \<Rightarrow> inner_shift (take p body) | None \<Rightarrow> 0)"

lemma parse_measure:
  assumes "find_ch LF body = Some p"
  shows "length (drop (p + 1) body) < length body"
  using find_ch_less [OF assms] by simp

text \<open>
  A call on a line of its own indentation consumes that line, so the loop around a nested call
  makes progress.
\<close>

lemma config_parse_returns_aux:
  assumes "oob \<noteq> SP"
  shows "\<exists>ch' body'. config_parse oob shift ch child body = Some (ch', body') \<and> length body' \<le> length body \<and>
    (find_ch LF body \<noteq> None \<and> first_shift body = shift \<longrightarrow> length body' < length body)"
proof (induction "2 * length body + (if shift < first_shift body then 1 else 0)"
    arbitrary: shift ch child body rule: less_induct)
  case less
  have smaller: "\<exists>c' b'. config_parse oob shift c k b1 = Some (c', b') \<and> length b' \<le> length b1"
    if "length b1 < length body" for b1 c k
  proof -
    have "2 * length b1 + (if shift < first_shift b1 then 1 else 0) <
        2 * length body + (if shift < first_shift body then 1 else 0)"
      using that by (cases "shift < first_shift b1") simp_all
    from less.hyps [OF this, of c k] show ?thesis by blast
  qed
  show ?case
  proof (cases "find_ch LF body")
    case None
    then show ?thesis by (subst config_parse.simps) simp
  next
    case (Some p)
    have fs: "first_shift body = inner_shift (take p body)" by (simp add: first_shift_def Some)
    consider (deeper) "shift < first_shift body" | (less) "first_shift body < shift" | (same) "first_shift body = shift"
      by linarith
    then show ?thesis
    proof cases
      case deeper
      let ?cc = "if child then cnChildren (last ch) else ch"
      obtain cc body1 where n: "config_parse oob (first_shift body) ?cc False body = Some (cc, body1)"
          "length body1 < length body"
        using less.hyps [of body "first_shift body" ?cc False] deeper Some by auto
      define ch1 where "ch1 = (if child then butlast ch @ [ConfigNode (cnName (last ch)) (cnValue (last ch)) cc] else cc)"
      obtain ch2 body2 where r: "config_parse oob shift ch1 child body1 = Some (ch2, body2)" "length body2 \<le> length body1"
        using smaller [OF n(2)] by blast
      have "config_parse oob shift ch child body = Some (ch2, body2)"
        using n(1) r(1) deeper Some unfolding fs ch1_def
        by (subst config_parse.simps) (cases child; simp add: Let_def)
      with n(2) r(2) deeper show ?thesis by simp
    next
      case less
      then show ?thesis using Some unfolding fs by (subst config_parse.simps) (simp add: Let_def)
    next
      case same
      obtain r where l: "config_line oob (dropWhile is_indent (take p body)) = Some r"
        using config_line_returns [OF assms] by blast
      define ch1 where "ch1 = (case r of None \<Rightarrow> ch | Some node \<Rightarrow> ch @ [node])"
      define child1 where "child1 = (case r of None \<Rightarrow> child | Some _ \<Rightarrow> True)"
      have sh: "length (drop (p + 1) body) < length body" by (rule parse_measure [OF Some])
      obtain ch2 body2 where rr: "config_parse oob shift ch1 child1 (drop (p + 1) body) = Some (ch2, body2)"
          "length body2 \<le> length (drop (p + 1) body)"
        using smaller [OF sh] by blast
      have "config_parse oob shift ch child body = Some (ch2, body2)"
        using rr(1) same Some l unfolding fs ch1_def child1_def
        by (subst config_parse.simps) (cases r; simp add: Let_def)
      with rr(2) sh show ?thesis by simp
    qed
  qed
qed

section \<open>Printing and parsing\<close>

fun node_text :: "nat \<Rightarrow> config_node \<Rightarrow> string" where
  "node_text d (ConfigNode n v cs) =
    (replicate d SP @ n @ '': '' @ v) @ LF # concat (map (node_text (Suc d)) cs)"

definition forest_text :: "nat \<Rightarrow> config_node list \<Rightarrow> string" where
  "forest_text d ns = concat (map (node_text d) ns)"

definition name_ok :: "string \<Rightarrow> bool" where
  "name_ok n \<longleftrightarrow> n \<noteq> [] \<and> CHR '':'' \<notin> set n \<and> LF \<notin> set n \<and> \<not> is_indent (hd n) \<and> last n \<noteq> SP"

definition value_ok :: "string \<Rightarrow> bool" where
  "value_ok v \<longleftrightarrow> LF \<notin> set v \<and> (v = [] \<or> (hd v \<noteq> SP \<and> last v \<noteq> SP))"

fun node_ok :: "config_node \<Rightarrow> bool" where
  "node_ok (ConfigNode n v cs) \<longleftrightarrow> name_ok n \<and> value_ok v \<and> list_all node_ok cs"

text \<open>The text after a forest: its first line, if it has one, is not deeper.\<close>

definition stops :: "nat \<Rightarrow> string \<Rightarrow> bool" where
  "stops d rest \<longleftrightarrow> find_ch LF rest = None \<or> first_shift rest \<le> d"

lemma node_line_facts:
  assumes "name_ok n" "value_ok v" "oob \<noteq> SP"
  shows "LF \<notin> set (replicate d SP @ n @ '': '' @ v)"
    and "inner_shift (replicate d SP @ n @ '': '' @ v) = d"
    and "dropWhile is_indent (replicate d SP @ n @ '': '' @ v) = n @ '': '' @ v"
    and "config_line oob (n @ '': '' @ v) = Some (Some (ConfigNode n v []))"
proof -
  obtain c m where n: "n = c # m" "\<not> is_indent c" using assms(1) by (cases n) (auto simp: name_ok_def)
  show "LF \<notin> set (replicate d SP @ n @ '': '' @ v)" using assms by (auto simp: name_ok_def value_ok_def)
  have sp: "is_indent SP" by (simp add: is_indent_def)
  show "inner_shift (replicate d SP @ n @ '': '' @ v) = d"
    using n by (induction d) (simp_all add: inner_shift_def sp)
  show "dropWhile is_indent (replicate d SP @ n @ '': '' @ v) = n @ '': '' @ v"
    using n by (induction d) (simp_all add: sp)
  have colon: "find_ch (CHR '':'') (n @ '': '' @ v) = Some (length n)"
    using assms(1) by (simp add: name_ok_def str_simps)
  have "c \<noteq> SP" using n(2) by (auto simp: is_indent_def)
  then have "trim_left n = n" using n(1) by (simp add: trim_left_def)
  then have "trim_right oob (trim_left n) = Some n" using assms(1,3) by (simp add: name_ok_def)
  moreover have "trim_left (SP # v) = v" using assms(2) by (cases v) (auto simp: trim_left_def value_ok_def)
  then have "trim_right oob (trim_left (SP # v)) = Some v" using assms(2,3) by (auto simp: value_ok_def)
  ultimately show "config_line oob (n @ '': '' @ v) = Some (Some (ConfigNode n v []))"
    unfolding config_line_def colon by simp
qed

lemma parse_node_line:
  assumes "name_ok n" "value_ok v" "oob \<noteq> SP"
  shows "config_parse oob d ch child ((replicate d SP @ n @ '': '' @ v) @ LF # rest) =
      config_parse oob d (ch @ [ConfigNode n v []]) True rest"
    and "first_shift ((replicate d SP @ n @ '': '' @ v) @ LF # rest) = d"
    and "find_ch LF ((replicate d SP @ n @ '': '' @ v) @ LF # rest) \<noteq> None"
proof -
  note facts = node_line_facts(1-3) [OF assms, of d] node_line_facts(4) [OF assms]
  let ?l = "replicate d SP @ n @ '': '' @ v"
  have lf: "find_ch LF (?l @ LF # rest) = Some (length ?l)" by (rule find_ch_append [OF facts(1)])
  then show "find_ch LF (?l @ LF # rest) \<noteq> None" by simp
  have cut: "take (length ?l) (?l @ LF # rest) = ?l" "drop (length ?l + 1) (?l @ LF # rest) = rest"
  proof -
    have "take (length l) (l @ LF # rest) = l" "drop (length l + 1) (l @ LF # rest) = rest" for l by simp_all
    then show "take (length ?l) (?l @ LF # rest) = ?l" "drop (length ?l + 1) (?l @ LF # rest) = rest" by blast+
  qed
  show "first_shift (?l @ LF # rest) = d" unfolding first_shift_def lf option.case cut facts(2) ..
  show "config_parse oob d ch child (?l @ LF # rest) = config_parse oob d (ch @ [ConfigNode n v []]) True rest"
    by (subst config_parse.simps) (simp only: lf option.case cut Let_def facts(2-4) less_irrefl if_False bind.bind_lunit)
qed

lemma parse_stop:
  assumes "stops d rest"
  shows "config_parse oob (Suc d) ch child rest = Some (ch, rest)"
proof (cases "find_ch LF rest")
  case None
  then show ?thesis by (subst config_parse.simps) simp
next
  case (Some p)
  then have "inner_shift (take p rest) < Suc d" using assms by (simp add: stops_def first_shift_def)
  with Some show ?thesis by (subst config_parse.simps) (simp add: Let_def)
qed

lemma forest_text_Cons:
  "forest_text d (ConfigNode n v cs # ns) @ rest =
    (replicate d SP @ n @ '': '' @ v) @ LF # (forest_text (Suc d) cs @ forest_text d ns @ rest)"
  by (simp add: forest_text_def)

lemma forest_stops:
  assumes "list_all node_ok ns" "stops d rest"
  shows "stops d (forest_text d ns @ rest)"
proof (cases ns)
  case (Cons x ns')
  obtain n v cs where x: "x = ConfigNode n v cs" by (cases x)
  have ok: "name_ok n" "value_ok v" using assms(1) Cons x by simp_all
  have "NUL \<noteq> SP" by simp
  from parse_node_line(2) [OF ok this, of d] show ?thesis
    unfolding Cons x forest_text_Cons stops_def by simp
qed (use assms in \<open>simp add: forest_text_def\<close>)

lemma parse_forest:
  assumes "list_all node_ok ns" "oob \<noteq> SP" "stops d rest"
  shows "config_parse oob d ch child (forest_text d ns @ rest) = config_parse oob d (ch @ ns) (child \<or> ns \<noteq> []) rest"
  using assms
proof (induction "length (forest_text d ns)" arbitrary: d ns ch child rest rule: less_induct)
  case less
  show ?case
  proof (cases ns)
    case (Cons x ns')
    obtain n v cs where x: "x = ConfigNode n v cs" by (cases x)
    have ok: "name_ok n" "value_ok v" "list_all node_ok cs" "list_all node_ok ns'"
      using less.prems(1) Cons x by simp_all
    let ?r = "forest_text d ns' @ rest"
    have len: "length (forest_text (Suc d) cs) < length (forest_text d ns)" "length (forest_text d ns') < length (forest_text d ns)"
      unfolding Cons x using forest_text_Cons [of d n v cs ns' "[]"] by simp_all
    have stop: "stops d ?r" by (rule forest_stops [OF ok(4) less.prems(3)])
    then have stop': "stops (Suc d) ?r" by (auto simp: stops_def)
    have line: "config_parse oob d ch child (forest_text d ns @ rest) =
        config_parse oob d (ch @ [ConfigNode n v []]) True (forest_text (Suc d) cs @ ?r)"
      unfolding Cons x forest_text_Cons by (rule parse_node_line(1) [OF ok(1,2) less.prems(2)])
    have "config_parse oob d (ch @ [ConfigNode n v []]) True (forest_text (Suc d) cs @ ?r) =
        config_parse oob d (ch @ [ConfigNode n v cs]) True ?r"
    proof (cases cs)
      case Nil
      then show ?thesis by (simp add: forest_text_def)
    next
      case inner: (Cons y cs')
      obtain yn yv yc where y: "y = ConfigNode yn yv yc" by (cases y)
      have yok: "name_ok yn" "value_ok yv" using ok(3) inner y by simp_all
      let ?b = "forest_text (Suc d) cs @ ?r"
      have b: "first_shift ?b = Suc d" "find_ch LF ?b \<noteq> None"
        unfolding inner y forest_text_Cons by (rule parse_node_line(2,3) [OF yok less.prems(2)])+
      have "config_parse oob (Suc d) [] False ?b = config_parse oob (Suc d) ([] @ cs) (False \<or> cs \<noteq> []) ?r"
        by (rule less.hyps [OF len(1) ok(3) less.prems(2) stop'])
      then have sub: "config_parse oob (Suc d) [] False ?b = Some (cs, ?r)" by (simp add: parse_stop [OF stop])
      obtain p where p: "find_ch LF ?b = Some p" using b(2) by blast
      with b(1) have "inner_shift (take p ?b) = Suc d" by (simp add: first_shift_def)
      then show ?thesis
        using p sub by (subst config_parse.simps) (simp add: Let_def)
    qed
    moreover have "config_parse oob d (ch @ [x]) True ?r = config_parse oob d ((ch @ [x]) @ ns') (True \<or> ns' \<noteq> []) rest"
      by (rule less.hyps [OF len(2) ok(4) less.prems(2,3)])
    ultimately show ?thesis using line Cons x by simp
  qed (simp add: forest_text_def)
qed

section \<open>The contracts of configuration files\<close>

text \<open>C16 (roundtrip). Parsing the printed form of a tree gives the tree back, at any nesting
  depth; what follows the last newline of the file is not read.\<close>
theorem config_parse_print:
  assumes "list_all node_ok ns" "oob \<noteq> SP" "LF \<notin> set junk"
  shows "config_parse oob 0 [] False (forest_text 0 ns @ junk) = Some (ns, junk)"
proof -
  have none: "find_ch LF junk = None" using assms(3) by (simp add: find_ch_None)
  then have "stops 0 junk" by (simp add: stops_def)
  from parse_forest [OF assms(1,2) this, of "[]" False] show ?thesis
    by (simp add: config_parse.simps [of oob 0 ns _ junk] none)
qed

definition sample_config :: "config_node list" where
  "sample_config =
    [ConfigNode ''db'' [] [ConfigNode ''host'' ''a:b'' [], ConfigNode ''user'' ''me'' [ConfigNode ''x'' ''1'' []]],
     ConfigNode ''port'' ''80'' []]"

lemma config_parse_print_witness:
  "config_parse NUL 0 [] False (forest_text 0 sample_config @ ''port: 81'') = Some (sample_config, ''port: 81'')"
  using config_parse_print [of sample_config NUL "''port: 81''"]
  by (simp add: sample_config_def name_ok_def value_ok_def is_indent_def)



text \<open>Walking a tree by names, first match at each level.\<close>

fun walk :: "config_node list \<Rightarrow> string list \<Rightarrow> config_node option" where
  "walk ns [] = None"
| "walk ns [x] = find (\<lambda>n. cnName n = x) ns"
| "walk ns (x # y # zs) =
    (case find (\<lambda>n. cnName n = x) ns of None \<Rightarrow> None | Some n \<Rightarrow> walk (cnChildren n) (y # zs))"

fun slash_path :: "string list \<Rightarrow> string" where
  "slash_path [] = []"
| "slash_path [x] = x"
| "slash_path (x # y # zs) = x @ CHR ''/'' # slash_path (y # zs)"

lemma slash_path_nonempty: "xs \<noteq> [] \<Longrightarrow> last xs \<noteq> [] \<Longrightarrow> slash_path xs \<noteq> []"
  by (induction xs rule: slash_path.induct) auto

text \<open>\<open>get\<close> of a slash-separated path walks the tree name by name, taking the
  first child of each name, and gives the value without a pair of enclosing quotation marks;
  a path that leads nowhere gives the empty string.\<close>
theorem config_value_walks:
  assumes "xs \<noteq> []" "list_all (\<lambda>x. CHR ''/'' \<notin> set x) xs" "last xs \<noteq> []"
  shows "config_value \<lparr>cfOK = ok, cfBase = Some ns\<rparr> (slash_path xs) =
    Inr (case walk ns xs of
       None \<Rightarrow> []
     | Some n \<Rightarrow>
         (if cnValue n \<noteq> [] \<and> hd (cnValue n) = DQUOTE \<and> last (cnValue n) = DQUOTE
          then take (length (cnValue n) - 2) (drop 1 (cnValue n)) else cnValue n))"
proof -
  have "config_get ns (slash_path xs) = walk ns xs"
    using assms
  proof (induction ns xs rule: walk.induct)
    case (2 ns x)
    then have "find_ch (CHR ''/'') x = None" by (simp add: find_ch_None)
    then show ?case by (subst config_get.simps) (simp split: option.split)
  next
    case (3 ns x y zs)
    have "find_ch (CHR ''/'') (slash_path (x # y # zs)) = Some (length x)"
      using "3.prems"(2) by (simp add: str_simps)
    moreover have "slash_path (y # zs) \<noteq> []" using "3.prems"(3) slash_path_nonempty [of "y # zs"] by simp
    moreover have "config_get (cnChildren n) (slash_path (y # zs)) = walk (cnChildren n) (y # zs)"
      if "find (\<lambda>n. cnName n = x) ns = Some n" for n
      using "3.IH" [OF that] "3.prems" by simp
    ultimately show ?case by (subst config_get.simps) (simp split: option.split)
  qed simp
  then show ?thesis by (simp add: config_value_def Let_def split: option.split)
qed

lemma config_value_walks_witness:
  "config_value \<lparr>cfOK = True, cfBase = Some sample_config\<rparr> ''db/user/x'' = Inr ''1''"
  using config_value_walks [of "[''db'', ''user'', ''x'']" True sample_config] by (simp add: sample_config_def)

text \<open>\<open>loadConfig\<close> of a file that cannot be opened deletes the object, whose
  destructor deletes the \<open>BaseNode\<close> pointer that the constructor never set.\<close>
theorem loadConfig_missing_file:
  assumes "files fs fname = None"
  shows "loadConfig oob fname fs = Inl WildFree"
  using assms by (simp add: loadConfig_def new_CConfig_def delete_CConfig_def)

lemma loadConfig_missing_file_witness:
  "loadConfig NUL ''c'' \<lparr>files = Map.empty, mtimes = (\<lambda>_. []), handles = 0\<rparr> = Inl WildFree"
  using loadConfig_missing_file [of "\<lparr>files = Map.empty, mtimes = (\<lambda>_. []), handles = 0\<rparr>" "''c''" NUL] by simp

end
