(* ===== verification/Tls_Socket.thy ===== *)
theory Tls_Socket
  imports Net_Socket Std_Numbers
begin

text \<open>
  The TLS half of \<open>CNetHandlerSocket\<close> (\<open>src/handlers/CNetHandler_openssl.cpp\<close>, the TLS members of
  \<open>CNetHandler.h\<close>). OpenSSL is not code of the repository. What a call reads (a file, the peer's
  certificate, the client's server name) and whether it succeeds are arguments; what is kept of it is
  its memory as documented: certificates and keys have reference counts (\<open>SSL_CTX_use_certificate\<close>
  and \<open>SSL_CTX_use_PrivateKey\<close> take one, \<open>SSL_CTX_add_extra_chain_cert\<close> takes over the
  caller's), contexts are objects with the settings the code makes, and freeing an object whose
  count is zero is a fault.
\<close>

record ssl_ctx =
  ctxVerifyPeer :: bool
  ctxVerifyDepth :: int
  ctxCert :: "nat option"
  ctxKey :: "nat option"
  ctxChain :: "nat list"
  ctxServerName :: bool
  ctxPasswdCb :: bool

definition fresh_ctx :: ssl_ctx where
  "fresh_ctx = \<lparr>ctxVerifyPeer = False, ctxVerifyDepth = 100, ctxCert = None, ctxKey = None, ctxChain = [],
    ctxServerName = False, ctxPasswdCb = False\<rparr>"

text \<open>\<open>osPasswd\<close> is the file's global \<open>passwd\<close>.\<close>

record ossl =
  osRefs :: "nat \<Rightarrow> nat"
  osNext :: nat
  osCtx :: "nat \<Rightarrow> ssl_ctx option"
  osNextCtx :: nat
  osPasswd :: "string option"

record SNIObj =
  sniHost :: string
  sniCert :: nat
  sniKey :: nat
  sniAux :: "nat list"
  sniMutual :: bool

record tls =
  tlSock :: sock
  tlCTX :: "nat option"
  tlChildCTX :: "nat option"
  tlSSL :: bool
  tlCTXRoot :: bool
  tlSNIEnabled :: bool
  tlSNIList :: "SNIObj list"
  tlClientCertificate :: "nat option"
  tlCertificateFileName :: string
  tlPrivateKeyFileName :: string
  tlCertificatePassword :: string
  tlClientCAFileName :: string

type_synonym 'a tls_act = "(tls \<times> ossl, 'a) act"

section \<open>OpenSSL's memory\<close>

definition new_object :: "nat tls_act" where
  "new_object s = (case s of (t, os) \<Rightarrow> (Inr (osNext os),
    (t, os\<lparr>osRefs := (osRefs os)(osNext os := 1), osNext := Suc (osNext os)\<rparr>)))"

definition free_object :: "nat \<Rightarrow> unit tls_act" where
  "free_object x s = (case s of (t, os) \<Rightarrow>
    if osRefs os x = 0 then (Inl DoubleFree, (t, os))
    else (Inr (), (t, os\<lparr>osRefs := (osRefs os)(x := osRefs os x - 1)\<rparr>)))"

definition up_ref :: "nat \<Rightarrow> ossl \<Rightarrow> ossl" where
  "up_ref x os = os\<lparr>osRefs := (osRefs os)(x := osRefs os x + 1)\<rparr>"

text \<open>A call on the socket's own context, which is a null pointer on a plain socket.\<close>

definition on_ctx :: "(ssl_ctx \<Rightarrow> ssl_ctx) \<Rightarrow> unit tls_act" where
  "on_ctx f s = (case s of (t, os) \<Rightarrow>
    (case tlCTX t of
       None \<Rightarrow> (Inl NullDeref, (t, os))
     | Some c \<Rightarrow> (case osCtx os c of
          None \<Rightarrow> (Inl UseAfterFree, (t, os))
        | Some x \<Rightarrow> (Inr (), (t, os\<lparr>osCtx := (osCtx os)(c \<mapsto> f x)\<rparr>)))))"

definition on_tls :: "(tls \<Rightarrow> tls) \<Rightarrow> unit tls_act" where
  "on_tls f s = (case s of (t, os) \<Rightarrow> (Inr (), (f t, os)))"

section \<open>Settings of the context\<close>

definition verify_settings :: "bool \<Rightarrow> ssl_ctx \<Rightarrow> ssl_ctx" where
  "verify_settings mutual x = (if mutual then x\<lparr>ctxVerifyPeer := True, ctxVerifyDepth := 1\<rparr>
    else x\<lparr>ctxVerifyPeer := False, ctxVerifyDepth := 0\<rparr>)"

definition setSSLMutual :: "bool \<Rightarrow> unit tls_act" where
  "setSSLMutual enabled = then_act (on_tls (\<lambda>t. t\<lparr>tlSock := (tlSock t)\<lparr>SSLMutual := enabled\<rparr>\<rparr>))
    (on_ctx (verify_settings enabled))"

text \<open>The callback given to \<open>SSL_CTX_set_verify\<close>: every peer certificate is accepted.\<close>

definition verify_callback :: "int \<Rightarrow> int" where
  "verify_callback preverify_ok = 1"

definition setSSLCertificatePassword :: "string \<Rightarrow> unit tls_act" where
  "setSSLCertificatePassword password = then_act
    (\<lambda>(t, os). (Inr (), (t\<lparr>tlCertificatePassword := password\<rparr>, os\<lparr>osPasswd := Some password\<rparr>)))
    (on_ctx (\<lambda>x. x\<lparr>ctxPasswdCb := True\<rparr>))"

text \<open>
  The password callback: \<open>strncpy\<close> into a buffer of \<open>size\<close> (\<open>len\<close> here) bytes and a terminating NUL; the
  result is the password in the buffer and its length.
\<close>

definition pem_passwd_cb :: "string option \<Rightarrow> nat \<Rightarrow> (string \<times> nat) res" where
  "pem_passwd_cb passwd len = (case passwd of
      None \<Rightarrow> Inl NullDeref
    | Some pw \<Rightarrow> if len = 0 then Inl WildAccess
        else let buf = take (len - 1) (cstr pw) in Inr (buf, length buf))"

text \<open>
  Whether the library took the file or object is an argument (\<open>r <= 0\<close> is a failure). A file it takes
  becomes a new object of the context; an object given by the caller gets one reference more.
\<close>

definition load_object :: "(nat \<Rightarrow> ssl_ctx \<Rightarrow> ssl_ctx) \<Rightarrow> int \<Rightarrow> bool tls_act" where
  "load_object put r = then_act (on_ctx (\<lambda>x. x))
    (if r > 0 then bind_act new_object (\<lambda>ob. then_act (on_ctx (put ob)) (return_act True)) else return_act False)"

definition share_object :: "(nat \<Rightarrow> ssl_ctx \<Rightarrow> ssl_ctx) \<Rightarrow> int \<Rightarrow> nat \<Rightarrow> bool tls_act" where
  "share_object put r ob = then_act (on_ctx (\<lambda>x. x))
    (if r > 0 then then_act (on_ctx (put ob)) (\<lambda>(t, os). (Inr True, (t, up_ref ob os))) else return_act False)"

definition put_cert :: "nat \<Rightarrow> ssl_ctx \<Rightarrow> ssl_ctx" where
  "put_cert ob x = x\<lparr>ctxCert := Some ob\<rparr>"

definition put_key :: "nat \<Rightarrow> ssl_ctx \<Rightarrow> ssl_ctx" where
  "put_key ob x = x\<lparr>ctxKey := Some ob\<rparr>"

definition setSSLCertificate :: "int \<Rightarrow> string \<Rightarrow> bool tls_act" where
  "setSSLCertificate r filename = then_act (on_tls (\<lambda>t. t\<lparr>tlCertificateFileName := filename\<rparr>)) (load_object put_cert r)"

definition setSSLCertificateMem :: "int \<Rightarrow> nat \<Rightarrow> bool tls_act" where
  "setSSLCertificateMem r data = share_object put_cert r data"

definition setSSLPrivateKeyFile :: "int \<Rightarrow> string \<Rightarrow> bool tls_act" where
  "setSSLPrivateKeyFile r filename = then_act (on_tls (\<lambda>t. t\<lparr>tlPrivateKeyFileName := filename\<rparr>)) (load_object put_key r)"

definition setSSLPrivateKeyFileMem :: "int \<Rightarrow> nat \<Rightarrow> bool tls_act" where
  "setSSLPrivateKeyFileMem r data = share_object put_key r data"

definition setSSLClientCAFile :: "int \<Rightarrow> bool \<Rightarrow> string \<Rightarrow> bool tls_act" where
  "setSSLClientCAFile r caList filename = then_act (on_tls (\<lambda>t. t\<lparr>tlClientCAFileName := filename\<rparr>))
    (then_act (on_ctx (\<lambda>x. x))
      (if r \<noteq> 1 \<or> \<not> caList then return_act False
       else then_act (on_ctx (\<lambda>x. x\<lparr>ctxVerifyDepth := 1\<rparr>)) (return_act True)))"

definition setSNIEnabled :: "bool \<Rightarrow> unit tls_act" where
  "setSNIEnabled enabled = then_act (on_tls (\<lambda>t. t\<lparr>tlSNIEnabled := enabled\<rparr>))
    (on_ctx (\<lambda>x. x\<lparr>ctxServerName := enabled\<rparr>))"

definition setCTX :: "nat option \<Rightarrow> tls \<Rightarrow> tls" where
  "setCTX c t = t\<lparr>tlCTX := c\<rparr>"

definition setChildCTX :: "nat option \<Rightarrow> tls \<Rightarrow> tls" where
  "setChildCTX c t = t\<lparr>tlChildCTX := c\<rparr>"

definition setSNIHostName :: "string \<Rightarrow> tls \<Rightarrow> tls" where
  "setSNIHostName name t = t\<lparr>tlSock := (tlSock t)\<lparr>SNIHostName := name\<rparr>\<rparr>"

text \<open>
  \<open>setupSSL\<close> with its default argument; \<open>made\<close> is whether \<open>SSL_CTX_new\<close> succeeded, and its
  result is used before it is tested.
\<close>

definition setupSSL :: "bool \<Rightarrow> unit tls_act" where
  "setupSSL made s = (case s of (t, os) \<Rightarrow>
    if \<not> made then (Inl NullDeref, (t\<lparr>tlCTX := None\<rparr>, os))
    else (Inr (), (t\<lparr>tlCTX := Some (osNextCtx os), tlChildCTX := None\<rparr>,
      os\<lparr>osCtx := (osCtx os)(osNextCtx os \<mapsto> fresh_ctx), osNextCtx := Suc (osNextCtx os)\<rparr>)))"

text \<open>With its argument true, which no caller gives, the settings remembered in the socket are repeated.\<close>

definition setupSSL_re :: "bool \<Rightarrow> bool \<Rightarrow> int \<Rightarrow> int \<Rightarrow> unit tls_act" where
  "setupSSL_re re made rc rk = then_act (setupSSL made)
    (if \<not> re then return_act ()
     else (\<lambda>(t, os).
       then_act (setSSLMutual (SSLMutual (tlSock t)))
         (then_act (setSSLCertificatePassword (tlCertificatePassword t))
           (then_act (setSSLCertificate rc (tlCertificateFileName t))
             (then_act (setSSLPrivateKeyFile rk (tlPrivateKeyFileName t)) (return_act ())))) (t, os)))"

lemma setupSSL_re_default: "setupSSL_re False made rc rk s = setupSSL made s"
  by (cases s) (simp add: setupSSL_re_def setupSSL_def then_act_def bind_act_def return_act_def)

text \<open>The socket gets a context with the same settings; the one it had is not freed.\<close>

lemma setupSSL_re_leaks:
  assumes "tlCTX t = Some c" "c < osNextCtx os" "osCtx os c = Some x" "rc > 0" "rk > 0"
  obtains t1 os1 n y where "setupSSL_re True True rc rk (t, os) = (Inr (), (t1, os1))"
    "tlCTX t1 = Some n" "n \<noteq> c" "osCtx os1 n = Some y" "ctxVerifyPeer y = SSLMutual (tlSock t)"
    "ctxCert y \<noteq> None" "ctxKey y \<noteq> None" "osPasswd os1 = Some (tlCertificatePassword t)" "osCtx os1 c = Some x"
  using assms
  by (auto simp: setupSSL_re_def setupSSL_def then_act_def bind_act_def return_act_def setSSLMutual_def on_tls_def on_ctx_def
      setSSLCertificatePassword_def setSSLCertificate_def setSSLPrivateKeyFile_def load_object_def new_object_def put_cert_def
      put_key_def verify_settings_def fresh_ctx_def)

section \<open>Server name indication\<close>

text \<open>
  What \<open>fopen\<close> and the successive \<open>PEM_read_X509\<close> calls find in the certificate file (one flag per
  call until end of file), and what the key file holds.
\<close>

type_synonym cert_file = "bool list option"
type_synonym key_file = "bool option"

fun read_chain :: "bool list \<Rightarrow> nat list tls_act" where
  "read_chain [] = return_act []"
| "read_chain (False # rs) = read_chain rs"
| "read_chain (True # rs) = bind_act new_object (\<lambda>x. bind_act (read_chain rs) (\<lambda>xs. return_act (x # xs)))"

definition addSSLCertificateToSNI :: "cert_file \<Rightarrow> key_file \<Rightarrow> string \<Rightarrow> bool \<Rightarrow> unit tls_act" where
  "addSSLCertificateToSNI cf kf host mutual = (case cf of
      None \<Rightarrow> return_act ()
    | Some [] \<Rightarrow> return_act ()
    | Some (False # _) \<Rightarrow> return_act ()
    | Some (True # rest) \<Rightarrow> bind_act new_object (\<lambda>cert. bind_act (read_chain rest) (\<lambda>aux.
        (case kf of
           None \<Rightarrow> return_act ()
         | Some False \<Rightarrow> free_object cert
         | Some True \<Rightarrow> bind_act new_object (\<lambda>key. on_tls (\<lambda>t. t\<lparr>tlSNIList := tlSNIList t @
              [\<lparr>sniHost = host, sniCert = cert, sniKey = key, sniAux = aux, sniMutual = mutual\<rparr>]\<rparr>))))))"

text \<open>
  The callback of a handshake: \<open>cname\<close> is the server name the client sent. A match makes a new
  context, which nothing frees, and changes the listening socket's own fields.
\<close>

datatype sni_result = SNI_OK | SNI_NOACK

definition sni_ctx :: "SNIObj \<Rightarrow> ssl_ctx" where
  "sni_ctx ob = verify_settings (sniMutual ob)
    (fresh_ctx\<lparr>ctxCert := Some (sniCert ob), ctxKey := Some (sniKey ob), ctxChain := sniAux ob\<rparr>)"

definition sni_callback :: "string option \<Rightarrow> sni_result tls_act" where
  "sni_callback cname s = (case s of (t, os) \<Rightarrow>
    (case cname of
       None \<Rightarrow> (Inr SNI_NOACK, (t, os))
     | Some name \<Rightarrow> (case find (\<lambda>ob. name = sniHost ob) (tlSNIList t) of
          None \<Rightarrow> (Inr SNI_NOACK, (t, os))
        | Some ob \<Rightarrow>
            let c = osNextCtx os;
                os1 = (up_ref (sniKey ob) (up_ref (sniCert ob) os))\<lparr>osCtx := (osCtx os)(c \<mapsto> sni_ctx ob), osNextCtx := Suc c\<rparr>
            in (Inr SNI_OK, (setSNIHostName name (setChildCTX (Some c) t), os1)))))"

definition sni_objects :: "SNIObj \<Rightarrow> nat list" where
  "sni_objects ob = sniCert ob # sniKey ob # sniAux ob"

text \<open>\<open>SNIList.empty()\<close> at the end asks whether the vector is empty; it does not clear it.\<close>

definition cleanupSNI :: "unit tls_act" where
  "cleanupSNI s = (case s of (t, os) \<Rightarrow>
    run_acts (List.map free_object (concat (List.map sni_objects (tlSNIList t)))) (t, os))"

definition cleanupSSL :: "unit tls_act" where
  "cleanupSSL = then_act cleanupSNI (\<lambda>(t, os). (Inr (),
    (t\<lparr>tlSSL := False, tlCTX := None\<rparr>,
     (case tlCTX t of Some c \<Rightarrow> if tlCTXRoot t then os\<lparr>osCtx := (osCtx os)(c := None)\<rparr> else os | None \<Rightarrow> os))))"

section \<open>The client's certificate\<close>

record CertificateInfo =
  ciSubject :: string
  ciIssuer :: string
  ciPublicKey :: string

text \<open>The loop of \<open>uc2hexstr\<close>.\<close>

definition uc2hexstr :: "8 word list \<Rightarrow> string" where
  "uc2hexstr buf = foldl (\<lambda>ret b. ret @ hex2 b) [] buf"

text \<open>\<open>pubkey\<close> is the encoding of the certificate's public key, \<^const>\<open>None\<close> when it has none.\<close>

definition getSSLClientCertificatePublicKey :: "8 word list option \<Rightarrow> string" where
  "getSSLClientCertificatePublicKey pubkey = (case pubkey of None \<Rightarrow> [] | Some der \<Rightarrow> uc2hexstr der)"

definition openClientCertificateX509 :: "bool \<Rightarrow> nat option tls_act" where
  "openClientCertificateX509 present = bind_act
    (if present then bind_act new_object (\<lambda>x. return_act (Some x)) else return_act None)
    (\<lambda>c. then_act (on_tls (\<lambda>t. t\<lparr>tlClientCertificate := c\<rparr>)) (return_act c))"

definition closeClientCertificateX509 :: "unit tls_act" where
  "closeClientCertificateX509 s = (case s of (t, os) \<Rightarrow>
    (case tlClientCertificate t of None \<Rightarrow> (Inr (), (t, os)) | Some x \<Rightarrow> free_object x (t, os)))"

text \<open>The certificate is freed and the member keeps the pointer.\<close>

definition getClientCertificate :: "bool \<Rightarrow> string \<Rightarrow> string \<Rightarrow> 8 word list option \<Rightarrow> CertificateInfo tls_act" where
  "getClientCertificate present subject issuer pubkey s =
    (let none = \<lparr>ciSubject = [], ciIssuer = [], ciPublicKey = []\<rparr> in
     if \<not> SSLMutual (tlSock (fst s)) then (Inr none, s)
     else bind_act (openClientCertificateX509 present) (\<lambda>c. case c of
        None \<Rightarrow> return_act none
      | Some x \<Rightarrow> then_act (free_object x) (return_act
          \<lparr>ciSubject = subject, ciIssuer = issuer, ciPublicKey = getSSLClientCertificatePublicKey pubkey\<rparr>)) s)"


section \<open>Ownership of the certificates\<close>

definition sni_all :: "tls \<Rightarrow> nat list" where
  "sni_all t = concat (List.map sni_objects (tlSNIList t))"

definition refs_fresh :: "ossl \<Rightarrow> bool" where
  "refs_fresh os \<longleftrightarrow> (\<forall>x \<ge> osNext os. osRefs os x = 0)"

text \<open>The SNI list holds the only reference to each of its certificates and keys.\<close>

definition sni_owned :: "tls \<times> ossl \<Rightarrow> bool" where
  "sni_owned s \<longleftrightarrow> distinct (sni_all (fst s)) \<and> (\<forall>x \<in> set (sni_all (fst s)). osRefs (snd s) x = 1)
    \<and> refs_fresh (snd s)"

lemma free_all:
  "distinct xs \<Longrightarrow> \<forall>x \<in> set xs. osRefs os x = 1 \<Longrightarrow> run_acts (List.map free_object xs) (t, os) =
    (Inr (), (t, os\<lparr>osRefs := (\<lambda>x. if x \<in> set xs then 0 else osRefs os x)\<rparr>))"
proof (induction xs arbitrary: os)
  case (Cons y xs)
  let ?os = "os\<lparr>osRefs := (osRefs os)(y := 0)\<rparr>"
  have "run_acts (List.map free_object xs) (t, ?os) =
      (Inr (), (t, ?os\<lparr>osRefs := (\<lambda>x. if x \<in> set xs then 0 else osRefs ?os x)\<rparr>))"
    by (rule Cons.IH) (use Cons.prems in auto)
  moreover have "(\<lambda>x. if x \<in> set xs then 0 else osRefs ?os x) = (\<lambda>x. if x \<in> set (y # xs) then 0 else osRefs os x)"
    by auto
  moreover have "free_object y (t, os) = (Inr (), (t, ?os))"
    using Cons.prems(2) by (simp add: free_object_def)
  ultimately show ?case by simp
qed simp

lemma read_chain_new:
  "\<exists>xs os1. read_chain rs (t, os) = (Inr xs, (t, os1)) \<and> distinct xs \<and> osNext os \<le> osNext os1
    \<and> (\<forall>x \<in> set xs. osNext os \<le> x \<and> x < osNext os1 \<and> osRefs os1 x = 1)
    \<and> (\<forall>x. x \<notin> set xs \<longrightarrow> osRefs os1 x = osRefs os x)"
proof (induction rs arbitrary: os)
  case Nil
  then show ?case by (auto simp: return_act_def)
next
  case (Cons r rs)
  show ?case
  proof (cases r)
    case False
    then show ?thesis using Cons by simp
  next
    case True
    let ?x = "osNext os"
    let ?os = "os\<lparr>osRefs := (osRefs os)(?x := 1), osNext := Suc ?x\<rparr>"
    from Cons.IH [of ?os] obtain xs os1 where IH: "read_chain rs (t, ?os) = (Inr xs, (t, os1))" "distinct xs"
      "Suc ?x \<le> osNext os1" "\<forall>x \<in> set xs. Suc ?x \<le> x \<and> x < osNext os1 \<and> osRefs os1 x = 1"
      "\<forall>x. x \<notin> set xs \<longrightarrow> osRefs os1 x = ((osRefs os)(?x := 1)) x" by auto
    have n: "?x \<notin> set xs" using IH(4) by fastforce
    have "read_chain (r # rs) (t, os) = (Inr (?x # xs), (t, os1))"
      using True IH(1) by (simp add: bind_act_def new_object_def return_act_def)
    moreover have "\<forall>x \<in> set (?x # xs). ?x \<le> x \<and> x < osNext os1 \<and> osRefs os1 x = 1"
      using IH(3,4,5) n by auto
    ultimately show ?thesis using IH n by (intro exI [of _ "?x # xs"] exI [of _ os1]) auto
  qed
qed

lemma sni_all_add: "sni_all (t\<lparr>tlSNIList := tlSNIList t @ [ob]\<rparr>) = sni_all t @ sni_objects ob"
  by (simp add: sni_all_def)

lemma add_sni_owned:
  assumes o: "sni_owned (t, os)"
  shows "\<exists>t1 os1. addSSLCertificateToSNI cf kf host mutual (t, os) = (Inr (), (t1, os1)) \<and> sni_owned (t1, os1)
    \<and> (tlSNIList t1 = tlSNIList t \<or> (\<exists>ob. tlSNIList t1 = tlSNIList t @ [ob] \<and> sniHost ob = host \<and> sniMutual ob = mutual))"
proof (cases "\<exists>rest. cf = Some (True # rest)")
  case False
  then have "addSSLCertificateToSNI cf kf host mutual = return_act ()"
    by (auto simp: addSSLCertificateToSNI_def split: option.split list.split bool.split)
  then show ?thesis using o by (auto simp: return_act_def)
next
  case True
  then obtain rest where cf: "cf = Some (True # rest)" by blast
  let ?c = "osNext os"
  let ?os = "os\<lparr>osRefs := (osRefs os)(?c := 1), osNext := Suc ?c\<rparr>"
  obtain xs os1 where ch: "read_chain rest (t, ?os) = (Inr xs, (t, os1))" "distinct xs" "Suc ?c \<le> osNext os1"
    "\<forall>x \<in> set xs. Suc ?c \<le> x \<and> x < osNext os1 \<and> osRefs os1 x = 1"
    "\<forall>x. x \<notin> set xs \<longrightarrow> osRefs os1 x = osRefs ?os x"
    using read_chain_new [of rest t ?os] by auto
  have c: "?c \<notin> set xs" "osRefs os1 ?c = 1" using ch(4,5) by fastforce+
  have L: "\<forall>x \<in> set (sni_all t). x < ?c \<and> osRefs os x = 1" "distinct (sni_all t)" "\<forall>x \<ge> ?c. osRefs os x = 0"
  proof -
    show "distinct (sni_all t)" "\<forall>x \<ge> ?c. osRefs os x = 0" using o by (auto simp: sni_owned_def refs_fresh_def)
    then show "\<forall>x \<in> set (sni_all t). x < ?c \<and> osRefs os x = 1"
      using o unfolding sni_owned_def by (metis fst_conv snd_conv linorder_not_less zero_neq_one)
  qed
  have L1: "\<forall>x \<in> set (sni_all t). osRefs os1 x = 1 \<and> x \<notin> set xs"
  proof
    fix x assume x: "x \<in> set (sni_all t)"
    then have "x < ?c" using L by blast
    then have "x \<notin> set xs" using ch(4) by force
    with L(1) x \<open>x < ?c\<close> ch(5) show "osRefs os1 x = 1 \<and> x \<notin> set xs" by simp
  qed
  have fr: "refs_fresh os1"
    unfolding refs_fresh_def
  proof (intro allI impI)
    fix x assume x: "osNext os1 \<le> x"
    then have "x \<notin> set xs" using ch(4) by force
    with ch(5) have "osRefs os1 x = osRefs ?os x" by blast
    also have "\<dots> = 0" using L(3) ch(3) x by simp
    finally show "osRefs os1 x = 0" .
  qed
  note run = addSSLCertificateToSNI_def cf bind_act_def new_object_def ch(1) [unfolded One_nat_def] return_act_def on_tls_def
    free_object_def
  consider "kf = None" | "kf = Some False" | "kf = Some True" by (cases kf) auto
  then show ?thesis
  proof cases
    case 1
    then have "addSSLCertificateToSNI cf kf host mutual (t, os) = (Inr (), (t, os1))" by (simp add: run)
    moreover have "sni_owned (t, os1)" using L L1 fr by (simp add: sni_owned_def)
    ultimately show ?thesis by blast
  next
    case 2
    let ?os1 = "os1\<lparr>osRefs := (osRefs os1)(?c := 0)\<rparr>"
    have "addSSLCertificateToSNI cf kf host mutual (t, os) = (Inr (), (t, ?os1))" using 2 c by (simp add: run)
    moreover have "sni_owned (t, ?os1)" using L L1 fr by (auto simp: sni_owned_def refs_fresh_def)
    ultimately show ?thesis by blast
  next
    case 3
    let ?k = "osNext os1" and ?os1 = "os1\<lparr>osRefs := (osRefs os1)(osNext os1 := 1), osNext := Suc (osNext os1)\<rparr>"
    let ?ob = "\<lparr>sniHost = host, sniCert = ?c, sniKey = ?k, sniAux = xs, sniMutual = mutual\<rparr>"
    let ?t1 = "t\<lparr>tlSNIList := tlSNIList t @ [?ob]\<rparr>"
    have r: "addSSLCertificateToSNI cf kf host mutual (t, os) = (Inr (), (?t1, ?os1))" using 3 by (simp add: run)
    have a: "sni_all ?t1 = sni_all t @ [?c, ?k] @ xs" by (simp add: sni_all_add sni_objects_def)
    have k: "?k \<notin> set xs" "?k \<noteq> ?c" "?k \<notin> set (sni_all t)" using ch(3,4) L(1) by fastforce+
    have cc: "?c \<notin> set (sni_all t)" using L(1) by blast
    have "distinct (sni_all ?t1)" unfolding a using L(2) ch(2) c(1) k cc L1 by auto
    moreover have "\<forall>x \<in> set (sni_all ?t1). osRefs ?os1 x = 1" unfolding a using L1 c(2) ch(4) k by auto
    moreover have "refs_fresh ?os1" using fr by (auto simp: refs_fresh_def)
    ultimately have "sni_owned (?t1, ?os1)" by (simp add: sni_owned_def)
    with r show ?thesis by (intro exI [of _ ?t1] exI [of _ ?os1]) auto
  qed
qed


section \<open>Properties\<close>

type_synonym sni_call = "cert_file \<times> key_file \<times> string \<times> bool"

fun add_all_sni :: "sni_call list \<Rightarrow> unit tls_act" where
  "add_all_sni [] = return_act ()"
| "add_all_sni ((cf, kf, host, mutual) # cs) = then_act (addSSLCertificateToSNI cf kf host mutual) (add_all_sni cs)"

lemma add_all_owned:
  "sni_owned (t, os) \<Longrightarrow> \<exists>t1 os1. add_all_sni cs (t, os) = (Inr (), (t1, os1)) \<and> sni_owned (t1, os1)"
proof (induction cs arbitrary: t os)
  case Nil
  then show ?case by (auto simp: return_act_def)
next
  case (Cons c cs)
  obtain cf kf host mutual where c: "c = (cf, kf, host, mutual)" by (cases c) auto
  from add_sni_owned [OF Cons.prems, of cf kf host mutual] obtain t1 os1 where
    a: "addSSLCertificateToSNI cf kf host mutual (t, os) = (Inr (), (t1, os1))" "sni_owned (t1, os1)" by blast
  from Cons.IH [OF a(2)] a(1) c show ?case by (simp add: then_act_Inr)
qed

text \<open>C22 (safety). Whatever certificate and key files are added, unreadable ones included,
  \<open>cleanupSNI\<close> frees each certificate and key of the SNI list exactly once. It does not empty the
  list (\<open>SNIList.empty()\<close> only asks), so a second cleanup, such as the destructor's, frees them
  again.\<close>

theorem sni_certificates_freed:
  assumes "refs_fresh os" and "tlSNIList t = []" and "add_all_sni cs (t, os) = (Inr (), (t1, os1))"
  shows "\<exists>os2. cleanupSNI (t1, os1) = (Inr (), (t1, os2)) \<and>
    (\<forall>x \<in> set (sni_all t1). osRefs os1 x = 1 \<and> osRefs os2 x = 0) \<and>
    (\<forall>x. x \<notin> set (sni_all t1) \<longrightarrow> osRefs os2 x = osRefs os1 x) \<and>
    (tlSNIList t1 \<noteq> [] \<longrightarrow> fst (cleanupSNI (t1, os2)) = Inl DoubleFree)"
proof -
  have "sni_owned (t, os)" using assms(1,2) by (simp add: sni_owned_def sni_all_def)
  from add_all_owned [OF this, of cs] assms(3) have o: "sni_owned (t1, os1)" by simp
  let ?os2 = "os1\<lparr>osRefs := (\<lambda>x. if x \<in> set (sni_all t1) then 0 else osRefs os1 x)\<rparr>"
  have "cleanupSNI (t1, os1) = (Inr (), (t1, ?os2))"
    using free_all [of "sni_all t1" os1 t1] o by (simp add: cleanupSNI_def sni_owned_def sni_all_def)
  moreover have "fst (cleanupSNI (t1, ?os2)) = Inl DoubleFree" if ne: "tlSNIList t1 \<noteq> []"
  proof -
    obtain ob obs where "tlSNIList t1 = ob # obs" using ne by (cases "tlSNIList t1") auto
    then have "sni_all t1 = sniCert ob # sniKey ob # sniAux ob @ concat (List.map sni_objects obs)"
      by (simp add: sni_all_def sni_objects_def)
    then show ?thesis by (simp add: cleanupSNI_def sni_all_def [symmetric] free_object_def)
  qed
  ultimately show ?thesis using o by (intro exI [of _ ?os2]) (simp add: sni_owned_def)
qed

definition sample_tls :: "tls \<times> ossl" where
  "sample_tls = (\<lparr>tlSock = new_sock 3 True 0 True False [] idle_channel idle_channel, tlCTX = Some 0, tlChildCTX = None,
     tlSSL = False, tlCTXRoot = True, tlSNIEnabled = True, tlSNIList = [], tlClientCertificate = None,
     tlCertificateFileName = [], tlPrivateKeyFileName = [], tlCertificatePassword = [], tlClientCAFileName = []\<rparr>,
   \<lparr>osRefs = (\<lambda>_. 0), osNext = 0, osCtx = (\<lambda>_. None), osNextCtx = 1, osPasswd = None\<rparr>)"

lemma sni_certificates_freed_witness:
  "let s = snd (add_all_sni [(Some [True, True, False], Some True, ''a.org'', True), (Some [True], None, ''b.org'', False)] sample_tls)
   in sni_all (fst s) = [0, 2, 1] \<and> (\<exists>os2. cleanupSNI s = (Inr (), (fst s, os2))
     \<and> fst (cleanupSNI (fst s, os2)) = Inl DoubleFree)"
proof -
  let ?cs = "[(Some [True, True, False], Some True, ''a.org'', True), (Some [True], None, ''b.org'', False)]"
  obtain t os where s: "sample_tls = (t, os)" by fastforce
  have f: "refs_fresh os" "tlSNIList t = []" using s by (auto simp: sample_tls_def refs_fresh_def)
  have "sni_owned (t, os)" using f by (simp add: sni_owned_def sni_all_def)
  from add_all_owned [OF this, of ?cs] obtain t1 os1 where
    a: "add_all_sni ?cs (t, os) = (Inr (), (t1, os1))" by blast
  have l: "sni_all (fst (snd (add_all_sni ?cs sample_tls))) = [0, 2, 1]" by code_simp
  then have "tlSNIList t1 \<noteq> []" using a s by (auto simp: sni_all_def)
  with sni_certificates_freed [OF f a] l a s show ?thesis by (auto simp: Let_def)
qed

text \<open>The host name a handshake's callback finds stays on the listening socket:
  after a client that named a known host, the connection of a client that sends no server name, or an
  unknown one, is accepted with that earlier client's host name.\<close>

theorem sni_host_name_stays:
  assumes "sni_callback (Some name) s = (Inr SNI_OK, s1)" and "sni_callback other s1 = (Inr SNI_NOACK, s2)"
    and "SSLEnabled (tlSock (fst s2))"
    and "sock_accept sids ipaddr r t new_fd ready0 (tlSock (fst s2)) = Inr (Some c)"
  shows "SNIHostName c = name"
proof -
  obtain t0 os0 where s: "s = (t0, os0)" by fastforce
  have "SNIHostName (tlSock (fst s1)) = name"
    using assms(1) s by (auto simp: sni_callback_def setSNIHostName_def Let_def split: option.splits)
  moreover have "s2 = s1"
    using assms(2) by (cases s1) (auto simp: sni_callback_def Let_def split: option.splits)
  ultimately show ?thesis using assms(3,4)
    by (auto simp: sock_accept_def Let_def bind_res_def split: list.splits sum.splits if_splits)
qed

lemma sni_host_name_stays_witness:
  "let s = snd (add_all_sni [(Some [True], Some True, ''a.org'', False)] sample_tls);
       s1 = snd (sni_callback (Some ''a.org'') s); s2 = snd (sni_callback None s1)
   in \<exists>c. sock_accept [7] ''10.0.0.1'' idle_channel idle_channel 7 True (tlSock (fst s2)) = Inr (Some c)
     \<and> SNIHostName c = ''a.org''"
proof -
  let ?s = "snd (add_all_sni [(Some [True], Some True, ''a.org'', False)] sample_tls)"
  let ?s1 = "snd (sni_callback (Some ''a.org'') ?s)" and ?s2 = "snd (sni_callback None (snd (sni_callback (Some ''a.org'') ?s)))"
  have h: "fst (sni_callback (Some ''a.org'') ?s) = Inr SNI_OK" "fst (sni_callback None ?s1) = Inr SNI_NOACK"
    "SSLEnabled (tlSock (fst ?s2))" by code_simp+
  have "Whitelist (tlSock (fst ?s2)) = []" "Blacklist (tlSock (fst ?s2)) = []" by code_simp+
  then have "\<exists>c. sock_accept [7] ''10.0.0.1'' idle_channel idle_channel 7 True (tlSock (fst ?s2)) = Inr (Some c)"
    by (simp add: sock_accept_def isWhitelisted_def isBlacklisted_def)
  then obtain c where c: "sock_accept [7] ''10.0.0.1'' idle_channel idle_channel 7 True (tlSock (fst ?s2)) = Inr (Some c)" ..
  have "sni_callback (Some ''a.org'') ?s = (Inr SNI_OK, ?s1)" "sni_callback None ?s1 = (Inr SNI_NOACK, ?s2)"
    using h(1,2) by (metis prod.collapse)+
  from sni_host_name_stays [OF this h(3) c] c show ?thesis unfolding Let_def by blast
qed

end
