(* ===== verification/Http_Client.thy ===== *)
theory Http_Client
  imports Net_Socket Std_Map
begin

text \<open>
  The HTTP client: \<open>CClient\<close> of \<open>src/client/CClient.h\<close> and \<open>CClient.cpp\<close>. Here are its settings,
  the splitting of the endpoint URL, the text of the request and its chunked body, the reading
  of the response (header, body by length, chunked body) and \<open>runRequest\<close> with its two levels of
  \<open>catch (int)\<close>. What the network answers to a connection is an argument, the channel \<open>net\<close> gives
  for host and port; so are the certificate stores, which only change how TLS is set up.
\<close>

section \<open>Settings\<close>

record CClient =
  clEndpoint :: string
  clMethod :: string
  clUseSSL :: bool
  clVerbose :: bool
  clCertFileName :: string
  clKeyFileName :: string
  clKeyPassword :: string
  clPKCS12FileName :: string
  clPKCS12Password :: string
  clCertMem :: nat
  clKeyMem :: nat
  clAdditionalHeaders :: smap
  clTimeout :: int

definition new_CClient :: CClient where
  "new_CClient =
    \<lparr>clEndpoint = [], clMethod = ''POST'', clUseSSL = False, clVerbose = False, clCertFileName = [],
     clKeyFileName = [], clKeyPassword = [], clPKCS12FileName = [], clPKCS12Password = [],
     clCertMem = 0, clKeyMem = 0,
     clAdditionalHeaders = smap_set ''Content-type'' ''application/json'' [], clTimeout = 30000\<rparr>"

definition cl_setTimeout :: "int \<Rightarrow> CClient \<Rightarrow> CClient" where
  "cl_setTimeout timeout cl = cl\<lparr>clTimeout := timeout\<rparr>"

definition cl_setVerbose :: "bool \<Rightarrow> CClient \<Rightarrow> CClient" where
  "cl_setVerbose b cl = cl\<lparr>clVerbose := b\<rparr>"

definition cl_setMethod :: "string \<Rightarrow> CClient \<Rightarrow> CClient" where
  "cl_setMethod s cl = cl\<lparr>clMethod := s\<rparr>"

definition cl_setUseSSL :: "bool \<Rightarrow> CClient \<Rightarrow> CClient" where
  "cl_setUseSSL b cl = cl\<lparr>clUseSSL := b\<rparr>"

definition cl_setEndpoint :: "string \<Rightarrow> CClient \<Rightarrow> CClient" where
  "cl_setEndpoint s cl = cl\<lparr>clEndpoint := s\<rparr>"

definition cl_setHeader :: "string \<Rightarrow> string \<Rightarrow> CClient \<Rightarrow> CClient" where
  "cl_setHeader name val cl = cl\<lparr>clAdditionalHeaders := smap_set name val (clAdditionalHeaders cl)\<rparr>"

definition cl_removeHeader :: "string \<Rightarrow> CClient \<Rightarrow> CClient" where
  "cl_removeHeader name cl = cl\<lparr>clAdditionalHeaders := smap_erase name (clAdditionalHeaders cl)\<rparr>"

definition cl_setSSLCertificate :: "string \<Rightarrow> CClient \<Rightarrow> CClient" where
  "cl_setSSLCertificate fn cl = cl\<lparr>clCertFileName := fn\<rparr>"

definition cl_setSSLKeyFile :: "string \<Rightarrow> string \<Rightarrow> CClient \<Rightarrow> CClient" where
  "cl_setSSLKeyFile fn password cl = cl\<lparr>clKeyFileName := fn, clKeyPassword := password\<rparr>"

text \<open>The two setters of in-memory objects free the one they replace: \<open>X509_free\<close>, \<open>EVP_PKEY_free\<close>.\<close>

definition cl_setSSLCertificateMem :: "nat \<Rightarrow> CClient \<Rightarrow> nat list \<times> CClient" where
  "cl_setSSLCertificateMem fn cl =
    ((if clCertMem cl \<noteq> 0 then [clCertMem cl] else []), cl\<lparr>clCertMem := fn\<rparr>)"

definition cl_setSSLKeyFileMem :: "nat \<Rightarrow> string \<Rightarrow> CClient \<Rightarrow> nat list \<times> CClient" where
  "cl_setSSLKeyFileMem fn password cl =
    ((if clKeyMem cl \<noteq> 0 then [clKeyMem cl] else []), cl\<lparr>clKeyMem := fn, clKeyPassword := password\<rparr>)"

definition cl_setSSLPKCS12 :: "string \<Rightarrow> string \<Rightarrow> CClient \<Rightarrow> CClient" where
  "cl_setSSLPKCS12 fn password cl = cl\<lparr>clPKCS12FileName := fn, clPKCS12Password := password\<rparr>"

section \<open>The endpoint\<close>

text \<open>Protocol, host, port and path; \<^const>\<open>None\<close> without \<open>://\<close>.\<close>

definition drop_auth :: "string \<Rightarrow> string" where
  "drop_auth host =
    (case find_ch (CHR ''@'') host of
       Some n1 \<Rightarrow> (if n1 < as_size (find_ch (CHR ''/'') host) then drop (n1 + 1) host else host)
     | None \<Rightarrow> host)"

definition parse_endpoint :: "string \<Rightarrow> (string \<times> string \<times> int \<times> string) option" where
  "parse_endpoint endpoint =
    (case find_str ''://'' endpoint of
       None \<Rightarrow> None
     | Some n1 \<Rightarrow>
         (let protocol = take n1 endpoint;
              port = (if protocol = ''https'' then 443 else 80);
              host = drop_auth (drop (n1 + 3) endpoint) in
          case find_ch (CHR '':'') host of
            Some n2 \<Rightarrow>
              (let sport = drop (n2 + 1) host; host' = take n2 host in
               case find_ch (CHR ''/'') sport of
                 Some n3 \<Rightarrow> Some (protocol, host', atoi (take n3 sport), drop n3 sport)
               | None \<Rightarrow> Some (protocol, host', atoi sport, ''/''))
          | None \<Rightarrow>
              (case find_ch (CHR ''/'') host of
                 Some n2 \<Rightarrow> Some (protocol, take n2 host, port, drop n2 host)
               | None \<Rightarrow> Some (protocol, host, port, ''/''))))"

section \<open>The request\<close>

definition header_text :: "string \<times> string \<Rightarrow> string" where
  "header_text h = fst h @ '': '' @ snd h @ CRLF"

definition request_text :: "CClient \<Rightarrow> string \<Rightarrow> string \<Rightarrow> string \<Rightarrow> string" where
  "request_text cl host path body =
    clMethod cl @ '' '' @ path @ '' HTTP/1.1'' @ CRLF @ ''Host: '' @ host @ CRLF @
    concat (map header_text (clAdditionalHeaders cl)) @
    (if 0 < length body then ''Content-length: '' @ dec_of_nat (length body) @ CRLF else []) @ CRLF"

function body_chunks :: "string \<Rightarrow> nat \<Rightarrow> nat \<Rightarrow> string list" where
  "body_chunks body chunk sent_so_far =
    (if sent_so_far < length body \<and> 0 < chunk then
       (let chunk' = (if sent_so_far + chunk > length body then length body - sent_so_far else chunk)
        in take chunk' (drop sent_so_far body) # body_chunks body chunk' (sent_so_far + chunk'))
     else [])"
  by pat_completeness auto
termination
  by (relation "measure (\<lambda>(body, chunk, n). length body - n)") auto

declare body_chunks.simps [simp del]

definition client_write :: "string \<Rightarrow> (sock, unit) act" where
  "client_write str s =
    (case writeBuffer str (i32 (int (length str))) s of
       (Inl e, s') \<Rightarrow> (Inl e, s')
     | (Inr _, s') \<Rightarrow> (Inr (), s'))"

definition send_request :: "string \<Rightarrow> string \<Rightarrow> (sock, unit) act" where
  "send_request data body = run_acts (map client_write (data # body_chunks body 1024 0))"

section \<open>The response header\<close>

record exchange =
  exSock :: sock
  exCode :: int
  exResp :: string
  exHeaders :: smap
  exContentType :: string
  exLocation :: string

text \<open>A \<open>find\<close> result stored in an \<open>int\<close>, and an \<open>int\<close> passed as a \<open>size_t\<close>.\<close>

definition as_int :: "nat option \<Rightarrow> int" where
  "as_int p = i32 (int (as_size p))"

definition size_of_int :: "int \<Rightarrow> nat" where
  "size_of_int v = nat (v mod 2 ^ 64)"

definition client_line :: "string \<Rightarrow> (exchange, unit) act" where
  "client_line line ex =
    (if find_str ''HTTP/1.1'' line \<noteq> None then
       (let i1 = as_int (find_ch SP line) in
        case substr_from line (size_of_int (i1 + 1)) of
          Inl e \<Rightarrow> (Inl e, ex)
        | Inr scode \<Rightarrow>
            (let i2 = as_int (find_ch SP scode) in
             case substr scode 0 (size_of_int i2) of
               Inl e \<Rightarrow> (Inl e, ex)
             | Inr s \<Rightarrow> (Inr (), ex\<lparr>exCode := atoi s\<rparr>)))
     else
       (let i1 = as_int (find_ch (CHR '':'') line) in
        case substr line 0 (size_of_int i1) of
          Inl e \<Rightarrow> (Inl e, ex)
        | Inr var \<Rightarrow>
            (case substr_from line (size_of_int (i1 + 1)) of
               Inl e \<Rightarrow> (Inl e, ex)
             | Inr val \<Rightarrow>
                 (Inr (), ex\<lparr>exHeaders := smap_set (trim (strtolower var)) (trim val) (exHeaders ex)\<rparr>))))"

text \<open>
  The loop. \<open>line += retBuf\<close> appends a C string, so a NUL adds nothing (and still resets \<open>ex\<close>).
  \<open>b0\<close> is what \<open>retBuf[0]\<close> holds when a read returns nothing.
\<close>

partial_function (option) client_header_loop ::
  "char \<Rightarrow> string \<Rightarrow> nat \<Rightarrow> exchange \<Rightarrow> (unit res \<times> exchange) option" where
  "client_header_loop b0 line ex st =
    (case readBuffer 1 (exSock st) of
       (Inl e, s) \<Rightarrow> Some (Inl e, st\<lparr>exSock := s\<rparr>)
     | (Inr (r, d), s) \<Rightarrow>
         (let b = (if d = [] then b0 else hd d); st1 = st\<lparr>exSock := s\<rparr> in
          if b = CR then client_header_loop b line ex st1
          else if b = LF then
            (case client_line line st1 of
               (Inl e, st2) \<Rightarrow> Some (Inl e, st2)
             | (Inr _, st2) \<Rightarrow>
                 (if ex + 1 = 2 then Some (Inr (), st2) else client_header_loop b [] (ex + 1) st2))
          else client_header_loop b (line @ cstr [b]) 0 st1))"

section \<open>The response body\<close>

text \<open>\<open>n\<close> reads of one byte; what was read before a fault stays in \<open>exResp\<close>.\<close>

fun read_bytes :: "nat \<Rightarrow> (exchange, unit) act" where
  "read_bytes 0 st = (Inr (), st)"
| "read_bytes (Suc n) st =
    (case readBuffer 1 (exSock st) of
       (Inl e, s) \<Rightarrow> (Inl e, st\<lparr>exSock := s\<rparr>)
     | (Inr (r, d), s) \<Rightarrow> read_bytes n (st\<lparr>exSock := s, exResp := exResp st @ take 1 d\<rparr>))"

text \<open>One line of the chunked encoding, up to CR LF; \<open>prev\<close> is the byte before.\<close>

partial_function (option) chunk_line ::
  "char \<Rightarrow> char \<Rightarrow> string \<Rightarrow> sock \<Rightarrow> (string res \<times> sock) option" where
  "chunk_line b0 prev acc s =
    (case readBuffer 1 s of
       (Inl e, s') \<Rightarrow> Some (Inl e, s')
     | (Inr (r, d), s') \<Rightarrow>
         (if r < 1 then Some (Inl (ThrowInt (-1)), s')
          else let b = (if d = [] then b0 else hd d) in
            if prev = CR \<and> b = LF then Some (Inr acc, s')
            else chunk_line b b (if b \<noteq> CR then acc @ [b] else acc) s'))"

text \<open>
  The loop over chunks ends only by an exception, which the inner \<open>catch (int)\<close> takes. When
  \<open>sscanf\<close> reads no number, \<open>chunkSize\<close> keeps its old value, at first an indeterminate one.
\<close>

partial_function (option) chunked_loop ::
  "char \<Rightarrow> 32 word \<Rightarrow> exchange \<Rightarrow> (fault \<times> exchange) option" where
  "chunked_loop b0 chunkSize st =
    (case chunk_line b0 NUL [] (exSock st) of
       None \<Rightarrow> None
     | Some (Inl e, s) \<Rightarrow> Some (e, st\<lparr>exSock := s\<rparr>)
     | Some (Inr acc, s) \<Rightarrow>
         (let st1 = st\<lparr>exSock := s\<rparr>;
              size' = (case sscanf_x acc of Some v \<Rightarrow> v | None \<Rightarrow> chunkSize) in
          if size' = 0 then Some (ThrowInt (-1), st1)
          else case read_bytes (unat size') st1 of
            (Inl e, st2) \<Rightarrow> Some (e, st2)
          | (Inr _, st2) \<Rightarrow>
              (case readBuffer 2 (exSock st2) of
                 (Inl e, s2) \<Rightarrow> Some (e, st2\<lparr>exSock := s2\<rparr>)
               | (Inr (r, d), s2) \<Rightarrow> chunked_loop (if d = [] then b0 else hd d) size' (st2\<lparr>exSock := s2\<rparr>))))"

fun is_int_fault :: "fault \<Rightarrow> bool" where
  "is_int_fault (ThrowInt r) = True"
| "is_int_fault e = False"

definition read_chunked :: "char \<Rightarrow> 32 word \<Rightarrow> int \<Rightarrow> exchange \<Rightarrow> (unit res \<times> exchange) option" where
  "read_chunked b0 chunkSize0 timeout st =
    (case chunked_loop b0 chunkSize0 st of
       None \<Rightarrow> None
     | Some (e, st1) \<Rightarrow>
         (if is_int_fault e then Some (Inr (), st1\<lparr>exSock := setTimeout timeout (exSock st1)\<rparr>)
          else Some (Inl e, st1)))"

definition read_response_body :: "char \<Rightarrow> 32 word \<Rightarrow> int \<Rightarrow> exchange \<Rightarrow> (unit res \<times> exchange) option" where
  "read_response_body b0 chunkSize0 timeout st =
    (let h = smap_index (exHeaders st);
         st1 = (if 0 < length (h ''content-type'') then st\<lparr>exContentType := h ''content-type''\<rparr> else st)
     in if 0 < length (h ''content-length'') then
          Some (read_bytes (unat (uint_of_int (atoi (h ''content-length'')))) st1)
        else if 0 < length (h ''transfer-encoding'') then read_chunked b0 chunkSize0 timeout st1
        else Some (Inr (), st1))"

definition read_response :: "char \<Rightarrow> 32 word \<Rightarrow> int \<Rightarrow> exchange \<Rightarrow> (unit res \<times> exchange) option" where
  "read_response b0 chunkSize0 timeout st =
    (case client_header_loop b0 [] 0 st of
       None \<Rightarrow> None
     | Some (Inl e, st1) \<Rightarrow> Some (Inl e, st1)
     | Some (Inr _, st1) \<Rightarrow>
         (case read_response_body b0 chunkSize0 timeout st1 of
            None \<Rightarrow> None
          | Some (Inl e, st2) \<Rightarrow> Some (Inl e, st2)
          | Some (Inr _, st2) \<Rightarrow>
              Some (Inr (),
                if 0 < length (smap_index (exHeaders st2) ''location'')
                then st2\<lparr>exLocation := smap_index (exHeaders st2) ''location''\<rparr> else st2)))"

section \<open>\<open>runRequest\<close>\<close>

text \<open>
  \<open>new_fd\<close> is the descriptor \<open>socket(2)\<close> returns. The response is built from whatever the
  exchange reached before a socket error; \<open>UseSSL\<close> stays set after an \<open>https\<close> endpoint. This is the
  request on a connection that has been set up; \<open>Tls_Connection\<close> has the set-up as well.
\<close>

definition client_exchange ::
  "char \<Rightarrow> 32 word \<Rightarrow> CClient \<Rightarrow> string \<Rightarrow> string \<Rightarrow> string \<Rightarrow> bool \<Rightarrow> sock \<Rightarrow> (unit res \<times> exchange) option" where
  "client_exchange b0 chunkSize0 cl host path body ignoreResult s =
    (let st = \<lparr>exSock = setTimeout (clTimeout cl) s, exCode = 0, exResp = [], exHeaders = [],
               exContentType = ''application/json'', exLocation = []\<rparr>
     in case send_request (request_text cl host path body) body (exSock st) of
          (Inl e, s1) \<Rightarrow> Some (Inl e, st\<lparr>exSock := s1\<rparr>)
        | (Inr _, s1) \<Rightarrow>
            (if ignoreResult then Some (Inr (), st\<lparr>exSock := s1\<rparr>)
             else read_response b0 chunkSize0 (clTimeout cl) (st\<lparr>exSock := s1\<rparr>)))"

definition exchange_response :: "exchange \<Rightarrow> MResponse" where
  "exchange_response st =
    (new_MResponse (exCode st) (exResp st) [])\<lparr>rsContentType := exContentType st, rsLocation := exLocation st\<rparr>"

definition runRequest ::
  "(bool \<Rightarrow> string \<Rightarrow> int \<Rightarrow> channel) \<Rightarrow> int \<Rightarrow> char \<Rightarrow> 32 word \<Rightarrow> string \<Rightarrow> bool \<Rightarrow> CClient \<Rightarrow>
    (MResponse res \<times> CClient \<times> channel option) option" where
  "runRequest net new_fd b0 chunkSize0 body ignoreResult cl =
    (case parse_endpoint (clEndpoint cl) of
       None \<Rightarrow> Some (Inr default_MResponse, cl, None)
     | Some (protocol, host, port, path) \<Rightarrow>
         (let cl1 = (if protocol = ''https'' then cl\<lparr>clUseSSL := True\<rparr> else cl);
              c = net (clUseSSL cl1) host port;
              s = setThrowExceptions True ((new_sock new_fd True 0 (clUseSSL cl1) False [] c c)\<lparr>SSLMutual := clUseSSL cl1\<rparr>) in
          case client_exchange b0 chunkSize0 cl1 host path body ignoreResult s of
            None \<Rightarrow> None
          | Some (r, st) \<Rightarrow>
              Some
                ((case r of
                    Inl e \<Rightarrow> (if is_int_fault e then Inr (exchange_response st) else Inl e)
                  | Inr _ \<Rightarrow> Inr (exchange_response st)),
                 cl1, Some (chan (exSock st)))))"

end
