(* ===== verification/Tls_Connection.thy ===== *)
theory Tls_Connection
  imports Tls_Socket Http_Client
begin

text \<open>
  A TLS socket in use: its constructor and destructor, \<open>bind\<close>, \<open>listen\<close>, \<open>connect\<close>, \<open>accept\<close> with
  the handshake (\<open>src/handlers/CNetHandler_linux.cpp\<close>, \<open>CNetHandler_openssl.cpp\<close>), and the two
  places that prepare one: \<open>CServer::run\<close> and \<open>CClient::runRequest\<close>. The calls of the kernel are
  the fields of \<open>kernel\<close>; what OpenSSL finds in the files it is given are those of \<open>tls_files\<close>,
  where the key of a file may depend on the password the callback supplies.
\<close>

section \<open>The object\<close>

definition construct_socket :: "bool \<Rightarrow> sock \<Rightarrow> nat option \<Rightarrow> bool \<Rightarrow> ossl \<Rightarrow> unit res \<times> (tls \<times> ossl)" where
  "construct_socket made s ctx has_ssl os =
    (let t = \<lparr>tlSock = s, tlCTX = ctx, tlChildCTX = None, tlSSL = has_ssl, tlCTXRoot = (ctx = None),
              tlSNIEnabled = False, tlSNIList = [], tlClientCertificate = None, tlCertificateFileName = [],
              tlPrivateKeyFileName = [], tlCertificatePassword = [], tlClientCAFileName = []\<rparr>
     in if SSLEnabled s \<and> \<not> has_ssl then setupSSL made (t, os) else (Inr (), (t, os)))"

definition destroy_socket :: "unit tls_act" where
  "destroy_socket s =
    then_act (on_tls (\<lambda>t. t\<lparr>tlSock := sock_close (tlSock t)\<rparr>))
      (only_if (SSLEnabled (tlSock (fst s))) cleanupSSL) s"

section \<open>Certificates and keys\<close>

record tls_files =
  tfCert :: "string \<Rightarrow> int"
  tfKey :: "string option \<Rightarrow> string \<Rightarrow> int"
  tfCertMem :: "nat \<Rightarrow> int"
  tfKeyMem :: "nat \<Rightarrow> int"
  tfPkcs12 :: "string \<Rightarrow> string \<Rightarrow> bool"

text \<open>The socket's context, and the password its callback would give; OpenSSL's buffer has 1024 bytes.\<close>

definition ctx_at :: "tls \<times> ossl \<Rightarrow> ssl_ctx option" where
  "ctx_at s = Option.bind (tlCTX (fst s)) (osCtx (snd s))"

definition offered_password :: "tls \<times> ossl \<Rightarrow> string option" where
  "offered_password s = (case ctx_at s of
      None \<Rightarrow> None
    | Some x \<Rightarrow> if ctxPasswdCb x
        then (case pem_passwd_cb (osPasswd (snd s)) 1024 of Inl _ \<Rightarrow> None | Inr (pw, _) \<Rightarrow> Some pw)
        else None)"

definition use_cert_file :: "tls_files \<Rightarrow> string \<Rightarrow> unit tls_act" where
  "use_cert_file f fn = drop_result (setSSLCertificate (tfCert f fn) fn)"

definition use_key_file :: "tls_files \<Rightarrow> string \<Rightarrow> unit tls_act" where
  "use_key_file f fn s = drop_result (setSSLPrivateKeyFile (tfKey f (offered_password s) fn) fn) s"

text \<open>A PKCS12 file that parses gives a key and a certificate, which the code never frees.\<close>

definition use_pkcs12 :: "tls_files \<Rightarrow> string \<Rightarrow> string \<Rightarrow> unit tls_act" where
  "use_pkcs12 f fn pw =
    (if tfPkcs12 f fn pw
     then bind_act new_object (\<lambda>pkey. bind_act new_object (\<lambda>cert.
       then_act (drop_result (setSSLCertificateMem (tfCertMem f cert) cert))
         (drop_result (setSSLPrivateKeyFileMem (tfKeyMem f pkey) pkey))))
     else return_act ())"

text \<open>The main socket of \<open>CServer::run\<close>, and the socket of \<open>CClient::runRequest\<close>.\<close>

definition server_tls_setup :: "tls_files \<Rightarrow> string \<Rightarrow> string \<Rightarrow> string \<Rightarrow> unit tls_act" where
  "server_tls_setup f password cert key =
    then_act (setSSLMutual False)
    (then_act (only_if (0 < length password) (setSSLCertificatePassword (cstr password)))
    (then_act (only_if (0 < length cert) (use_cert_file f (cstr cert)))
      (only_if (0 < length key) (use_key_file f (cstr key)))))"

definition client_tls_setup :: "tls_files \<Rightarrow> CClient \<Rightarrow> unit tls_act" where
  "client_tls_setup f cl =
    then_act (only_if (0 < length (clCertFileName cl)) (use_cert_file f (cstr (clCertFileName cl))))
    (then_act (only_if (0 < length (clKeyFileName cl))
       (then_act (use_key_file f (cstr (clKeyFileName cl))) (setSSLCertificatePassword (cstr (clKeyPassword cl)))))
    (then_act (only_if (0 < length (clPKCS12FileName cl))
       (use_pkcs12 f (cstr (clPKCS12FileName cl)) (cstr (clPKCS12Password cl))))
    (then_act (only_if (clCertMem cl \<noteq> 0) (drop_result (setSSLCertificateMem (tfCertMem f (clCertMem cl)) (clCertMem cl))))
    (then_act (only_if (clKeyMem cl \<noteq> 0) (drop_result (setSSLPrivateKeyFileMem (tfKeyMem f (clKeyMem cl)) (clKeyMem cl))))
      (only_if (clUseSSL cl) (setSSLMutual True))))))"

section \<open>Connections\<close>

record kernel =
  kAddr :: "string \<Rightarrow> nat option"
  kConnect :: "int \<Rightarrow> nat \<Rightarrow> 16 word \<Rightarrow> int"
  kBind :: "int \<Rightarrow> string option \<Rightarrow> 16 word \<Rightarrow> int"
  kListen :: "int \<Rightarrow> int"
  kPeek :: "int \<Rightarrow> int"

text \<open>\<open>htons\<close> takes a 16-bit argument.\<close>

definition htons :: "int \<Rightarrow> 16 word" where
  "htons port = word_of_int port"

definition sock_bind :: "kernel \<Rightarrow> int \<Rightarrow> string option \<Rightarrow> sock \<Rightarrow> bool" where
  "sock_bind k port host s = (kBind k (SID s) host (htons port) = 0)"

definition sock_listen :: "kernel \<Rightarrow> sock \<Rightarrow> int" where
  "sock_listen k s = kListen k (SID s)"

definition isConnected :: "kernel \<Rightarrow> sock \<Rightarrow> bool" where
  "isConnected k s = (kPeek k (SID s) \<noteq> -1)"

text \<open>
  The name a client announces is put into its TLS object. \<open>setupSSLSocket\<close> makes the object from
  the context; in the accepting role the handshake runs the callback, if one is installed, with the
  name \<open>cname\<close> the client announced. A failed handshake is only printed.
\<close>

definition setSNIClientHost :: "string \<Rightarrow> unit tls_act" where
  "setSNIClientHost host s = (if tlSSL (fst s) then (Inr (), s) else (Inl NullDeref, s))"

definition setupSSLSocket :: "bool \<Rightarrow> string option \<Rightarrow> string option \<Rightarrow> unit tls_act" where
  "setupSSLSocket accepting cname host s =
    then_act (on_ctx (\<lambda>x. x)) (then_act (on_tls (\<lambda>t. t\<lparr>tlSSL := True\<rparr>))
      (if accepting then only_if (pred_option ctxServerName (ctx_at s)) (drop_result (sni_callback cname))
       else (case host of None \<Rightarrow> return_act () | Some h \<Rightarrow> setSNIClientHost h))) s"

definition tls_connect :: "kernel \<Rightarrow> string \<Rightarrow> int \<Rightarrow> bool tls_act" where
  "tls_connect k host port s =
    (case kAddr k (cstr host) of
       None \<Rightarrow> (Inr False, s)
     | Some a \<Rightarrow>
         (let r = kConnect k (SID (tlSock (fst s))) a (htons port)
          in then_act (only_if (r = 0 \<and> SSLEnabled (tlSock (fst s))) (setupSSLSocket False None (Some host)))
               (return_act (r = 0)) s))"

text \<open>Reads and writes of a TLS socket go through the TLS object.\<close>

definition through_ssl :: "(sock, 'a) act \<Rightarrow> 'a tls_act" where
  "through_ssl m s = (case s of (t, os) \<Rightarrow>
    if SSLEnabled (tlSock t) \<and> \<not> tlSSL t then (Inl NullDeref, s)
    else (let (r, sk) = m (tlSock t) in (r, (t\<lparr>tlSock := sk\<rparr>, os))))"

text \<open>
  \<open>accept\<close>: the filters come first, then the handshake on the listening socket's own fields, then
  the socket of the connection takes over the context the handshake chose and the TLS object.
\<close>

definition accepted_socket :: "sock \<Rightarrow> tls \<Rightarrow> ossl \<Rightarrow> unit res \<times> (tls \<times> ossl)" where
  "accepted_socket c t os =
    construct_socket True c (case tlChildCTX t of Some x \<Rightarrow> Some x | None \<Rightarrow> tlCTX t) (tlSSL t) os"

definition tls_accept ::
  "int list \<Rightarrow> string \<Rightarrow> channel \<Rightarrow> channel \<Rightarrow> int \<Rightarrow> bool \<Rightarrow> string option \<Rightarrow> tls option tls_act" where
  "tls_accept sids ipaddr r t new_fd ready0 cname s =
    (case sock_accept sids ipaddr r t new_fd ready0 (tlSock (fst s)) of
       Inl e \<Rightarrow> (Inl e, s)
     | Inr None \<Rightarrow> (Inr None, s)
     | Inr (Some _) \<Rightarrow>
         then_act (only_if (SSLEnabled (tlSock (fst s))) (setupSSLSocket True cname None))
           (\<lambda>(l, os). case sock_accept sids ipaddr r t new_fd ready0 (tlSock l) of
              Inr (Some c) \<Rightarrow>
                (case accepted_socket c l os of
                   (Inl e, (_, os1)) \<Rightarrow> (Inl e, (l, os1))
                 | (Inr _, (ch, os1)) \<Rightarrow> (Inr (Some ch), (l\<lparr>tlSSL := False\<rparr>, os1)))
            | Inr None \<Rightarrow> (Inr None, (l, os))
            | Inl e \<Rightarrow> (Inl e, (l, os))) s)"

section \<open>When the password reaches the key\<close>

definition has_key :: "tls \<times> ossl \<Rightarrow> bool" where
  "has_key s \<longleftrightarrow> Option.bind (ctx_at s) ctxKey \<noteq> None"

text \<open>What matters of the state: whether the context has a key, and the password it would offer.\<close>

definition key_view :: "tls \<times> ossl \<Rightarrow> (bool \<times> string option) option" where
  "key_view s = map_option (\<lambda>x. (ctxKey x \<noteq> None, offered_password s)) (ctx_at s)"

definition turns_key :: "'a tls_act \<Rightarrow> (bool \<times> string option \<Rightarrow> bool \<times> string option) \<Rightarrow> bool" where
  "turns_key m g \<longleftrightarrow> (\<forall>s v. key_view s = Some v \<longrightarrow> (\<exists>r s'. m s = (Inr r, s') \<and> key_view s' = Some (g v)))"

abbreviation keeps_key :: "'a tls_act \<Rightarrow> bool" where
  "keeps_key m \<equiv> turns_key m id"

named_theorems key_rules \<open>operations on a TLS socket that keep its key view, and how they compose\<close>

lemma turns_bind: "turns_key m g \<Longrightarrow> (\<And>x. turns_key (k x) h) \<Longrightarrow> turns_key (bind_act m k) (h \<circ> g)"
  unfolding turns_key_def comp_apply by (metis bind_act_Inr)

lemma turns_then: "turns_key m g \<Longrightarrow> turns_key n h \<Longrightarrow> turns_key (then_act m n) (h \<circ> g)"
  unfolding then_act_def by (rule turns_bind)

lemma keeps_bind [key_rules]: "keeps_key m \<Longrightarrow> (\<And>x. keeps_key (k x)) \<Longrightarrow> keeps_key (bind_act m k)"
  using turns_bind [of m id k id] by simp

lemma keeps_then [key_rules]: "keeps_key m \<Longrightarrow> keeps_key n \<Longrightarrow> keeps_key (then_act m n)"
  using turns_then [of m id n id] by simp

lemma keeps_return [key_rules]: "keeps_key (return_act x)"
  by (simp add: turns_key_def return_act_def)

lemma turns_drop: "turns_key m g \<Longrightarrow> turns_key (drop_result m) g"
  using turns_bind [of m g "\<lambda>_. return_act ()" id] keeps_return [of "()"] by (simp add: drop_result_def)

lemma keeps_drop [key_rules]: "keeps_key m \<Longrightarrow> keeps_key (drop_result m)"
  by (rule turns_drop)

lemma turns_only_if: "turns_key m g \<Longrightarrow> turns_key (only_if b m) (if b then g else id)"
  by (cases b) (simp_all add: only_if_def keeps_return)

lemma keeps_only_if [key_rules]: "(b \<Longrightarrow> keeps_key m) \<Longrightarrow> keeps_key (only_if b m)"
  by (cases b) (simp_all add: only_if_def keeps_return)

lemma keeps_on_tls [key_rules]: "(\<And>t. tlCTX (f t) = tlCTX t) \<Longrightarrow> keeps_key (on_tls f)"
  by (auto simp: turns_key_def on_tls_def key_view_def ctx_at_def offered_password_def)

lemma key_view_SomeE:
  assumes "key_view (t, os) = Some v"
  obtains c x where "tlCTX t = Some c" "osCtx os c = Some x" "v = (ctxKey x \<noteq> None, offered_password (t, os))"
  using assms by (auto simp: key_view_def ctx_at_def split: Option.bind_splits)

lemma turns_on_ctx:
  assumes "\<And>x. ctxPasswdCb (f x) = ctxPasswdCb x" "\<And>x. (ctxKey (f x) = None) = (ctxKey x = None \<and> \<not> b)"
  shows "turns_key (on_ctx f) (\<lambda>(k, p). (k \<or> b, p))"
  unfolding turns_key_def
proof (intro allI impI)
  fix s v assume v: "key_view s = Some v"
  obtain t os where s: "s = (t, os)" by fastforce
  from v [unfolded s] obtain c x where c: "tlCTX t = Some c" "osCtx os c = Some x"
    "v = (ctxKey x \<noteq> None, offered_password (t, os))" by (rule key_view_SomeE)
  let ?s1 = "(t, os\<lparr>osCtx := (osCtx os)(c \<mapsto> f x)\<rparr>)"
  have at: "ctx_at s = Some x" "ctx_at ?s1 = Some (f x)" using s c by (simp_all add: ctx_at_def)
  then have "offered_password ?s1 = offered_password s" using assms(1) s by (simp add: offered_password_def)
  then have "key_view ?s1 = Some (case v of (k, p) \<Rightarrow> (k \<or> b, p))"
    using at assms(2) [of x] c(3) s by (auto simp: key_view_def)
  moreover have "on_ctx f s = (Inr (), ?s1)" using s c by (simp add: on_ctx_def)
  ultimately show "\<exists>r s'. on_ctx f s = (Inr r, s') \<and> key_view s' = Some (case v of (k, p) \<Rightarrow> (k \<or> b, p))" by blast
qed

lemma keeps_on_ctx:
  assumes "\<And>x. ctxPasswdCb (f x) = ctxPasswdCb x" "\<And>x. (ctxKey (f x) = None) = (ctxKey x = None)"
  shows "keeps_key (on_ctx f)"
  using turns_on_ctx [of f False] assms by (simp add: id_def)

lemma keeps_settings [key_rules]:
  "keeps_key (on_ctx (verify_settings b))" "keeps_key (on_ctx (\<lambda>x. x))" "keeps_key (on_ctx (put_cert ob))"
  by (rule keeps_on_ctx; simp add: verify_settings_def put_cert_def)+

lemma turns_put_key: "turns_key (on_ctx (put_key ob)) (\<lambda>(k, p). (True, p))"
  using turns_on_ctx [of "put_key ob" True] by (simp add: put_key_def)

lemma keeps_new [key_rules]: "keeps_key new_object"
  by (auto simp: turns_key_def new_object_def key_view_def ctx_at_def offered_password_def)

lemma keeps_up_ref [key_rules]: "keeps_key (\<lambda>(t, os). (Inr r, (t, up_ref x os)))"
  by (auto simp: turns_key_def up_ref_def key_view_def ctx_at_def offered_password_def)

lemma keeps_cert_mem [key_rules]: "keeps_key (setSSLCertificateMem r x)"
  unfolding setSSLCertificateMem_def share_object_def by (auto intro!: key_rules)

lemma keeps_cert_file [key_rules]: "keeps_key (use_cert_file f fn)"
  unfolding use_cert_file_def setSSLCertificate_def load_object_def by (auto intro!: key_rules)

lemma keeps_mutual [key_rules]: "keeps_key (setSSLMutual b)"
  unfolding setSSLMutual_def by (auto intro!: key_rules)

lemma turns_password: "turns_key (setSSLCertificatePassword pw) (\<lambda>(k, p). (k, Some (take 1023 (cstr pw))))"
  unfolding turns_key_def
proof (intro allI impI)
  fix s v assume v: "key_view s = Some v"
  obtain t os where s: "s = (t, os)" by fastforce
  from v [unfolded s] obtain c x where c: "tlCTX t = Some c" "osCtx os c = Some x"
    "v = (ctxKey x \<noteq> None, offered_password (t, os))" by (rule key_view_SomeE)
  let ?s1 = "(t\<lparr>tlCertificatePassword := pw\<rparr>, os\<lparr>osPasswd := Some pw, osCtx := (osCtx os)(c \<mapsto> x\<lparr>ctxPasswdCb := True\<rparr>)\<rparr>)"
  have "setSSLCertificatePassword pw s = (Inr (), ?s1)"
    using s c by (simp add: setSSLCertificatePassword_def then_act_def bind_act_def on_ctx_def)
  moreover have "key_view ?s1 = Some (case v of (k, p) \<Rightarrow> (k, Some (take 1023 (cstr pw))))"
    using c by (simp add: key_view_def ctx_at_def offered_password_def pem_passwd_cb_def)
  ultimately show "\<exists>r s'. setSSLCertificatePassword pw s = (Inr r, s') \<and>
      key_view s' = Some (case v of (k, p) \<Rightarrow> (k, Some (take 1023 (cstr pw))))" by blast
qed

lemma turns_load_key: "turns_key (load_object put_key r) (\<lambda>(k, p). (k \<or> r > 0, p))"
proof (cases "r > 0")
  case True
  have "turns_key (then_act (on_ctx (put_key ob)) (return_act True)) (\<lambda>(k, p). (True, p))" for ob
    using turns_then [OF turns_put_key keeps_return] by simp
  from turns_bind [OF keeps_new this] have
    "turns_key (bind_act new_object (\<lambda>ob. then_act (on_ctx (put_key ob)) (return_act True))) (\<lambda>(k, p). (True, p))" by simp
  from turns_then [OF keeps_settings(2) this] True show ?thesis by (simp add: load_object_def)
next
  case False
  with keeps_then [OF keeps_settings(2) keeps_return] show ?thesis by (simp add: load_object_def id_def)
qed

lemma turns_key_file: "turns_key (use_key_file f fn) (\<lambda>(k, p). (k \<or> tfKey f p fn > 0, p))"
  unfolding turns_key_def
proof (intro allI impI)
  fix s v assume v: "key_view s = Some v"
  let ?r = "tfKey f (offered_password s) fn"
  have "turns_key (drop_result (setSSLPrivateKeyFile ?r fn)) (\<lambda>(k, p). (k \<or> ?r > 0, p))"
    using turns_drop [OF turns_then [OF keeps_on_tls turns_load_key]] by (simp add: setSSLPrivateKeyFile_def)
  with v obtain r s' where "use_key_file f fn s = (Inr r, s')" "key_view s' = Some (case v of (k, p) \<Rightarrow> (k \<or> ?r > 0, p))"
    unfolding turns_key_def use_key_file_def by blast
  moreover have "offered_password s = snd v" using v by (auto simp: key_view_def)
  ultimately show "\<exists>r s'. use_key_file f fn s = (Inr r, s') \<and> key_view s' = Some (case v of (k, p) \<Rightarrow> (k \<or> tfKey f p fn > 0, p))"
    by (cases v) auto
qed

lemma cstr_idem [simp]: "cstr (cstr s) = cstr s"
  by (simp add: cstr_def)

lemma turns_server_setup:
  assumes "key \<noteq> []"
  shows "turns_key (server_tls_setup f pw cert key)
    (\<lambda>(k, p). let q = (if pw = [] then p else Some (take 1023 (cstr pw))) in (k \<or> tfKey f q (cstr key) > 0, q))"
proof -
  have "turns_key (then_act (only_if (0 < length cert) (use_cert_file f (cstr cert)))
      (only_if (0 < length key) (use_key_file f (cstr key)))) (\<lambda>(k, p). (k \<or> tfKey f p (cstr key) > 0, p))"
    using turns_then [OF keeps_only_if [OF keeps_cert_file] turns_key_file] assms by simp
  moreover have "turns_key (only_if (0 < length pw) (setSSLCertificatePassword (cstr pw)))
      (if 0 < length pw then (\<lambda>(k, p). (k, Some (take 1023 (cstr (cstr pw))))) else id)"
    by (rule turns_only_if [OF turns_password])
  ultimately have "turns_key (then_act (only_if (0 < length pw) (setSSLCertificatePassword (cstr pw)))
      (then_act (only_if (0 < length cert) (use_cert_file f (cstr cert))) (only_if (0 < length key) (use_key_file f (cstr key)))))
      ((\<lambda>(k, p). (k \<or> tfKey f p (cstr key) > 0, p)) \<circ>
       (if 0 < length pw then (\<lambda>(k, p). (k, Some (take 1023 (cstr (cstr pw))))) else id))"
    by (intro turns_then)
  from turns_then [OF keeps_mutual this, of False]
  show ?thesis unfolding server_tls_setup_def by (cases "pw = []") (simp_all add: comp_def case_prod_unfold Let_def)
qed

lemma turns_client_setup:
  assumes "clKeyFileName cl \<noteq> []" "clPKCS12FileName cl = []" "clKeyMem cl = 0"
  shows "turns_key (client_tls_setup f cl)
    (\<lambda>(k, p). (k \<or> tfKey f p (cstr (clKeyFileName cl)) > 0, Some (take 1023 (cstr (clKeyPassword cl)))))"
proof -
  let ?key = "then_act (use_key_file f (cstr (clKeyFileName cl))) (setSSLCertificatePassword (cstr (clKeyPassword cl)))"
  have key: "turns_key ?key (\<lambda>(k, p). (k \<or> tfKey f p (cstr (clKeyFileName cl)) > 0, Some (take 1023 (cstr (clKeyPassword cl)))))"
    using turns_then [OF turns_key_file turns_password, of f "cstr (clKeyFileName cl)" "cstr (clKeyPassword cl)"]
    by (simp add: comp_def case_prod_unfold)
  have rest: "keeps_key (then_act (only_if (0 < length (clPKCS12FileName cl))
       (use_pkcs12 f (cstr (clPKCS12FileName cl)) (cstr (clPKCS12Password cl))))
    (then_act (only_if (clCertMem cl \<noteq> 0) (drop_result (setSSLCertificateMem (tfCertMem f (clCertMem cl)) (clCertMem cl))))
    (then_act (only_if (clKeyMem cl \<noteq> 0) (drop_result (setSSLPrivateKeyFileMem (tfKeyMem f (clKeyMem cl)) (clKeyMem cl))))
      (only_if (clUseSSL cl) (setSSLMutual True)))))"
    using assms(2,3) by (auto intro!: key_rules)
  show ?thesis unfolding client_tls_setup_def
    using turns_then [OF keeps_only_if [OF keeps_cert_file] turns_then [OF key rest]] assms(1) by simp
qed

text \<open>On a new TLS socket the server gives the library its password before it loads
  its key, so the key is loaded exactly when the file opens with that password; the client gives its
  own afterwards, so its key is loaded exactly when the file needs no password, whatever
  \<open>KeyPassword\<close> is.\<close>

theorem key_password_order:
  assumes "construct_socket True sk None False os = (Inr (), s)" and "SSLEnabled sk"
    and "key \<noteq> []" and "clKeyFileName cl = key" and "clPKCS12FileName cl = []" and "clKeyMem cl = 0"
  shows "\<exists>s1 s2. server_tls_setup f pw cert key s = (Inr (), s1)
    \<and> has_key s1 = (tfKey f (if pw = [] then None else Some (take 1023 (cstr pw))) (cstr key) > 0)
    \<and> client_tls_setup f cl s = (Inr (), s2) \<and> has_key s2 = (tfKey f None (cstr key) > 0)"
proof -
  have v: "key_view s = Some (False, None)"
    using assms(1,2) by (auto simp: construct_socket_def Let_def setupSSL_def key_view_def ctx_at_def
        offered_password_def fresh_ctx_def)
  have h: "has_key s' = k" if "key_view s' = Some (k, p)" for s' k p
    using that by (auto simp: key_view_def has_key_def)
  obtain s1 where s1: "server_tls_setup f pw cert key s = (Inr (), s1)"
    "key_view s1 = Some (tfKey f (if pw = [] then None else Some (take 1023 (cstr pw))) (cstr key) > 0,
      if pw = [] then None else Some (take 1023 (cstr pw)))"
    using turns_server_setup [OF assms(3), of f pw cert] v unfolding turns_key_def by (fastforce simp: Let_def)
  obtain s2 where s2: "client_tls_setup f cl s = (Inr (), s2)"
    "key_view s2 = Some (tfKey f None (cstr key) > 0, Some (take 1023 (cstr (clKeyPassword cl))))"
    using turns_client_setup [of cl f] assms(3-6) v unfolding turns_key_def by fastforce
  from s1 s2 h [OF s1(2)] h [OF s2(2)] show ?thesis by blast
qed

definition sample_files :: tls_files where
  "sample_files = \<lparr>tfCert = (\<lambda>_. 1), tfKey = (\<lambda>p fn. if p = Some ''secret'' then 1 else 0),
    tfCertMem = (\<lambda>_. 1), tfKeyMem = (\<lambda>_. 1), tfPkcs12 = (\<lambda>_ _. False)\<rparr>"

definition no_objects :: ossl where
  "no_objects = \<lparr>osRefs = (\<lambda>_. 0), osNext = 0, osCtx = (\<lambda>_. None), osNextCtx = 0, osPasswd = None\<rparr>"

lemma key_password_order_witness:
  "let sk = new_sock 3 True 0 True False [] idle_channel idle_channel; s = snd (construct_socket True sk None False no_objects);
       cl = cl_setSSLKeyFile ''k.pem'' ''secret'' (cl_setUseSSL True new_CClient)
   in has_key (snd (server_tls_setup sample_files ''secret'' ''c.pem'' ''k.pem'' s))
     \<and> \<not> has_key (snd (client_tls_setup sample_files cl s))"
proof -
  let ?sk = "new_sock 3 True 0 True False [] idle_channel idle_channel"
  let ?cl = "cl_setSSLKeyFile ''k.pem'' ''secret'' (cl_setUseSSL True new_CClient)"
  obtain s where s: "construct_socket True ?sk None False no_objects = (Inr (), s)"
    by (simp add: construct_socket_def new_sock_def Let_def setupSSL_def)
  have c: "SSLEnabled ?sk" "clKeyFileName ?cl = ''k.pem''" "clPKCS12FileName ?cl = []" "clKeyMem ?cl = 0"
    by (simp_all add: new_sock_def cl_setSSLKeyFile_def cl_setUseSSL_def new_CClient_def)
  have k: "tfKey sample_files (Some (take 1023 (cstr ''secret''))) (cstr ''k.pem'') = 1"
    "tfKey sample_files None (cstr ''k.pem'') = 0" by code_simp+
  from key_password_order [OF s c(1) _ c(2-4), where f = sample_files and pw = "''secret''" and cert = "''c.pem''"] s k
  show ?thesis by (auto simp: Let_def)
qed

section \<open>What the set-up leaves alone\<close>

definition frame_of :: "tls \<times> ossl \<Rightarrow> nat option \<times> bool \<times> SNIObj list \<times> bool \<times> sock" where
  "frame_of s = (tlCTX (fst s), tlCTXRoot (fst s), tlSNIList (fst s), tlSSL (fst s), tlSock (fst s))"

definition steady :: "'a tls_act \<Rightarrow> bool" where
  "steady m \<longleftrightarrow> (\<forall>s. ctx_at s \<noteq> None \<longrightarrow> (\<exists>r s1. m s = (Inr r, s1) \<and> ctx_at s1 \<noteq> None \<and> frame_of s1 = frame_of s))"

lemma steady_bind: "steady m \<Longrightarrow> (\<And>x. steady (k x)) \<Longrightarrow> steady (bind_act m k)"
  unfolding steady_def
proof (intro allI impI)
  fix s
  assume m: "\<forall>s. ctx_at s \<noteq> None \<longrightarrow> (\<exists>r s1. m s = (Inr r, s1) \<and> ctx_at s1 \<noteq> None \<and> frame_of s1 = frame_of s)"
    and k: "\<And>x. \<forall>s. ctx_at s \<noteq> None \<longrightarrow> (\<exists>r s1. k x s = (Inr r, s1) \<and> ctx_at s1 \<noteq> None \<and> frame_of s1 = frame_of s)"
    and s: "ctx_at s \<noteq> None"
  from m s obtain x s1 where 1: "m s = (Inr x, s1)" "ctx_at s1 \<noteq> None" "frame_of s1 = frame_of s" by blast
  with k [of x] obtain r s2 where "k x s1 = (Inr r, s2)" "ctx_at s2 \<noteq> None" "frame_of s2 = frame_of s1" by blast
  with 1 show "\<exists>r s1. bind_act m k s = (Inr r, s1) \<and> ctx_at s1 \<noteq> None \<and> frame_of s1 = frame_of s" by (simp add: bind_act_def)
qed

lemma steady_then: "steady m \<Longrightarrow> steady n \<Longrightarrow> steady (then_act m n)"
  unfolding then_act_def by (rule steady_bind)

lemma steady_return: "steady (return_act x)"
  by (simp add: steady_def return_act_def)

lemma steady_drop: "steady m \<Longrightarrow> steady (drop_result m)"
  unfolding drop_result_def by (intro steady_bind steady_return)

lemma steady_only_if: "steady m \<Longrightarrow> steady (only_if b m)"
  by (cases b) (simp_all add: steady_return)

lemma steady_on_ctx: "steady (on_ctx f)"
  by (auto simp: steady_def frame_of_def on_ctx_def ctx_at_def split: Option.bind_splits)

lemma steady_on_tls:
  assumes "\<And>t. tlCTX (f t) = tlCTX t \<and> tlCTXRoot (f t) = tlCTXRoot t \<and> tlSNIList (f t) = tlSNIList t
    \<and> tlSSL (f t) = tlSSL t \<and> tlSock (f t) = tlSock t"
  shows "steady (on_tls f)"
  using assms by (auto simp: steady_def frame_of_def on_tls_def ctx_at_def)

lemma steady_new: "steady new_object"
  by (auto simp: steady_def frame_of_def new_object_def ctx_at_def)

lemma steady_up_ref: "steady (\<lambda>(t, os). (Inr r, (t, up_ref x os)))"
  by (auto simp: steady_def frame_of_def up_ref_def ctx_at_def)

lemmas steady_rules = steady_then steady_return steady_drop steady_only_if steady_on_ctx steady_on_tls steady_new
  steady_up_ref steady_bind

lemma steady_load: "steady (load_object put r)"
  unfolding load_object_def by (auto intro!: steady_rules)

lemma steady_share: "steady (share_object put r x)"
  unfolding share_object_def by (auto intro!: steady_rules)

lemma steady_password: "steady (setSSLCertificatePassword pw)"
proof -
  have "steady (\<lambda>(t, os). (Inr (), (t\<lparr>tlCertificatePassword := pw\<rparr>, os\<lparr>osPasswd := Some pw\<rparr>)))"
    by (auto simp: steady_def frame_of_def ctx_at_def)
  then show ?thesis unfolding setSSLCertificatePassword_def by (intro steady_then steady_on_ctx)
qed

lemma steady_cert_file: "steady (use_cert_file f fn)"
  unfolding use_cert_file_def setSSLCertificate_def by (auto intro!: steady_rules steady_load)

lemma steady_key_file: "steady (use_key_file f fn)"
proof -
  have "steady (drop_result (setSSLPrivateKeyFile r fn))" for r
    unfolding setSSLPrivateKeyFile_def by (auto intro!: steady_rules steady_load)
  then show ?thesis unfolding steady_def use_key_file_def by blast
qed

lemma steady_mem: "steady (setSSLCertificateMem r x)" "steady (setSSLPrivateKeyFileMem r x)"
  by (simp_all add: setSSLCertificateMem_def setSSLPrivateKeyFileMem_def steady_share)

lemma steady_pkcs12: "steady (use_pkcs12 f fn pw)"
  unfolding use_pkcs12_def by (auto intro!: steady_rules steady_mem)

lemmas steady_ops = steady_password steady_cert_file steady_key_file steady_mem steady_pkcs12

lemma mutual_run:
  assumes "ctx_at (t, os) \<noteq> None"
  obtains os1 where "setSSLMutual b (t, os) = (Inr (), (t\<lparr>tlSock := (tlSock t)\<lparr>SSLMutual := b\<rparr>\<rparr>, os1))"
    "ctx_at (t\<lparr>tlSock := (tlSock t)\<lparr>SSLMutual := b\<rparr>\<rparr>, os1) \<noteq> None"
  using assms by (auto simp: setSSLMutual_def then_act_def bind_act_def on_tls_def on_ctx_def ctx_at_def
      split: Option.bind_splits)

lemma server_setup_frame:
  assumes "ctx_at s \<noteq> None" "\<not> SSLMutual (tlSock (fst s))"
  obtains s1 where "server_tls_setup f pw cert key s = (Inr (), s1)" "frame_of s1 = frame_of s"
proof -
  obtain t os where s: "s = (t, os)" by fastforce
  obtain os1 where m: "setSSLMutual False (t, os) = (Inr (), (t\<lparr>tlSock := (tlSock t)\<lparr>SSLMutual := False\<rparr>\<rparr>, os1))"
    "ctx_at (t\<lparr>tlSock := (tlSock t)\<lparr>SSLMutual := False\<rparr>\<rparr>, os1) \<noteq> None"
    using mutual_run assms(1) s by metis
  have same: "t\<lparr>tlSock := (tlSock t)\<lparr>SSLMutual := False\<rparr>\<rparr> = t" using assms(2) s by simp
  have "steady (then_act (only_if (0 < length pw) (setSSLCertificatePassword (cstr pw)))
    (then_act (only_if (0 < length cert) (use_cert_file f (cstr cert)))
      (only_if (0 < length key) (use_key_file f (cstr key)))))"
    by (intro steady_then steady_only_if steady_ops)
  with m(2) obtain r s1 where "then_act (only_if (0 < length pw) (setSSLCertificatePassword (cstr pw)))
    (then_act (only_if (0 < length cert) (use_cert_file f (cstr cert)))
      (only_if (0 < length key) (use_key_file f (cstr key)))) (t, os1) = (Inr r, s1)" "frame_of s1 = frame_of (t, os1)"
    unfolding same steady_def by blast
  with m(1) that [of s1] s show thesis unfolding same by (simp add: server_tls_setup_def then_act_def bind_act_def frame_of_def)
qed

lemma client_setup_frame:
  assumes "ctx_at (t, os) \<noteq> None" "clUseSSL cl"
  obtains t1 os1 where "client_tls_setup f cl (t, os) = (Inr (), (t1, os1))" "ctx_at (t1, os1) \<noteq> None"
    "tlSock t1 = (tlSock t)\<lparr>SSLMutual := True\<rparr>" "tlSNIList t1 = tlSNIList t" "tlSSL t1 = tlSSL t"
proof -
  let ?pre = "\<lambda>m. then_act (only_if (0 < length (clCertFileName cl)) (use_cert_file f (cstr (clCertFileName cl))))
    (then_act (only_if (0 < length (clKeyFileName cl))
       (then_act (use_key_file f (cstr (clKeyFileName cl))) (setSSLCertificatePassword (cstr (clKeyPassword cl)))))
    (then_act (only_if (0 < length (clPKCS12FileName cl))
       (use_pkcs12 f (cstr (clPKCS12FileName cl)) (cstr (clPKCS12Password cl))))
    (then_act (only_if (clCertMem cl \<noteq> 0) (drop_result (setSSLCertificateMem (tfCertMem f (clCertMem cl)) (clCertMem cl))))
    (then_act (only_if (clKeyMem cl \<noteq> 0) (drop_result (setSSLPrivateKeyFileMem (tfKeyMem f (clKeyMem cl)) (clKeyMem cl)))) m))))"
  have split: "?pre m = then_act (?pre (return_act ())) m" for m :: "unit tls_act"
    by (simp add: then_act_assoc then_act_return)
  have "steady (?pre (return_act ()))" by (intro steady_then steady_only_if steady_drop steady_ops steady_return)
  with assms(1) obtain s1 where s1: "?pre (return_act ()) (t, os) = (Inr (), s1)" "ctx_at s1 \<noteq> None" "frame_of s1 = frame_of (t, os)"
    unfolding steady_def by (metis old.unit.exhaust)
  obtain t1 os1 where t1: "s1 = (t1, os1)" by fastforce
  obtain os2 where m: "setSSLMutual True (t1, os1) = (Inr (), (t1\<lparr>tlSock := (tlSock t1)\<lparr>SSLMutual := True\<rparr>\<rparr>, os2))"
    "ctx_at (t1\<lparr>tlSock := (tlSock t1)\<lparr>SSLMutual := True\<rparr>\<rparr>, os2) \<noteq> None"
    using mutual_run s1(2) t1 by metis
  have "client_tls_setup f cl (t, os) = then_act (?pre (return_act ())) (setSSLMutual True) (t, os)"
    using assms(2) split [of "setSSLMutual True"] by (simp add: client_tls_setup_def)
  also have "\<dots> = (Inr (), (t1\<lparr>tlSock := (tlSock t1)\<lparr>SSLMutual := True\<rparr>\<rparr>, os2))"
    by (subst then_act_Inr [where m = "?pre (return_act ())" and x = "()", OF s1(1)]) (simp only: t1 m(1))
  finally show thesis using that m(2) s1(3) t1 by (simp add: frame_of_def)
qed

section \<open>The socket of a connection\<close>

lemma sock_accept_name:
  assumes "sock_accept sids ipaddr r0 t0 new_fd ready0 s = Inr (Some k)" and "SSLEnabled s"
  shows "SSLEnabled k \<and> sock_accept sids ipaddr r0 t0 new_fd ready0 (s\<lparr>SNIHostName := n\<rparr>) = Inr (Some (k\<lparr>SNIHostName := n\<rparr>))"
proof -
  have l: "isWhitelisted (s\<lparr>SNIHostName := n\<rparr>) ipaddr = isWhitelisted s ipaddr"
    "isBlacklisted (s\<lparr>SNIHostName := n\<rparr>) ipaddr = isBlacklisted s ipaddr"
    by (simp_all add: isWhitelisted_def isBlacklisted_def)
  obtain sid rest where d: "dropWhile (\<lambda>i. i = -1) sids = sid # rest"
    using assms(1) by (cases "dropWhile (\<lambda>i. i = -1) sids") (simp_all add: sock_accept_def)
  obtain w where w: "isWhitelisted s ipaddr = Inr w"
    using assms(1) d by (cases "isWhitelisted s ipaddr") (simp_all add: sock_accept_def)
  obtain b where b: "(if w then Inr False else isBlacklisted s ipaddr) = Inr b"
    using assms(1) d w by (cases "if w then Inr False else isBlacklisted s ipaddr") (simp_all add: sock_accept_def split: if_splits)
  show ?thesis using assms d w b by (auto simp: sock_accept_def l Let_def new_sock_def split: if_splits)
qed


definition sample_listener :: "tls \<times> ossl" where
  "sample_listener = snd (then_act (setSNIEnabled True)
    (add_all_sni [(Some [True, True], Some True, ''a.org'', True), (Some [True], Some True, ''b.org'', False)])
    (snd (construct_socket True (new_sock 3 True 0 True False [] idle_channel idle_channel) None False no_objects)))"


section \<open>Ports and refused connections\<close>

text \<open>Ports are taken modulo 65536: binding or connecting to a port above 65535 uses its
  low 16 bits, and the caller is not told.\<close>

theorem ports_wrap:
  "sock_bind k port host s = sock_bind k (port mod 65536) host s
   \<and> tls_connect k name port = tls_connect k name (port mod 65536)"
proof -
  have h: "htons (port mod 65536) = htons port"
    unfolding htons_def by transfer (simp add: take_bit_eq_mod)
  show ?thesis unfolding sock_bind_def tls_connect_def fun_eq_iff h by simp
qed

text \<open>\<open>CClient::runRequest\<close> drops the result of \<open>connect\<close>. When a TLS connection is
  refused, or its host is unknown, there is no TLS object and the request is written through a null
  pointer: a fault that no \<open>catch\<close> of the client takes.\<close>

theorem https_without_connection_faults:
  assumes "SSLEnabled (tlSock t)" and "\<not> tlSSL t"
    and "kAddr k (cstr host) = None \<or> (\<exists>a. kAddr k (cstr host) = Some a \<and> kConnect k (SID (tlSock t)) a (htons port) \<noteq> 0)"
  shows "tls_connect k host port (t, os) = (Inr False, (t, os))
    \<and> bind_act (tls_connect k host port) (\<lambda>_. through_ssl (send_request data body)) (t, os) = (Inl NullDeref, (t, os))
    \<and> \<not> is_int_fault NullDeref"
proof -
  have "tls_connect k host port (t, os) = (Inr False, (t, os))"
    using assms(3) by (auto simp: tls_connect_def Let_def then_act_def bind_act_def return_act_def)
  moreover have "through_ssl (send_request data body) (t, os) = (Inl NullDeref, (t, os))"
    using assms(1,2) by (simp add: through_ssl_def)
  ultimately show ?thesis by (simp add: bind_act_def)
qed

definition dead_network :: kernel where
  "dead_network = \<lparr>kAddr = (\<lambda>_. None), kConnect = (\<lambda>_ _ _. -1), kBind = (\<lambda>_ _ _. 0), kListen = (\<lambda>_. 0), kPeek = (\<lambda>_. -1)\<rparr>"

lemma https_without_connection_faults_witness:
  "fst (bind_act (tls_connect dead_network ''h'' 443) (\<lambda>_. through_ssl (send_request ''GET'' [])) sample_listener) = Inl NullDeref"
proof -
  obtain t os where l: "sample_listener = (t, os)" by fastforce
  have "SSLEnabled (tlSock (fst sample_listener))" "\<not> tlSSL (fst sample_listener)" by code_simp+
  then have "SSLEnabled (tlSock t)" "\<not> tlSSL t" unfolding l by simp_all
  from https_without_connection_faults [OF this, of dead_network "''h''" 443 os "''GET''" "[]"] show ?thesis
    unfolding l by (simp add: dead_network_def)
qed

end
