(* ===== verification/Server_Lifecycle.thy ===== *)
theory Server_Lifecycle
  imports Sample_Server Config_File Accept_Loop Tls_Connection
begin

text \<open>
  The beginning and the end of a server: the factories of \<open>src/solusek.cpp\<close>, the log (\<open>CLog\<close>), the
  creation of threads (\<open>CThreadHandler\<close>), what \<open>CServer::run\<close> does before and after its loop (the
  loop itself is \<open>Accept_Loop\<close>), and the destructor of the server, which destroys what the other
  components have made.
\<close>

section \<open>Log, threads and factories\<close>

text \<open>\<open>Enabled\<close> is a static member and the output is the process's; both are kept with the object.\<close>

record CLog =
  lgPrefix :: string
  lgEnabled :: bool
  lgOut :: string

definition new_CLog :: "string \<Rightarrow> CLog" where
  "new_CLog prefix = \<lparr>lgPrefix = prefix, lgEnabled = False, lgOut = []\<rparr>"

definition log_setPrefix :: "string \<Rightarrow> CLog \<Rightarrow> CLog" where
  "log_setPrefix prefix l = l\<lparr>lgPrefix := prefix\<rparr>"

definition log_setEnabled :: "bool \<Rightarrow> CLog \<Rightarrow> CLog" where
  "log_setEnabled enabled l = l\<lparr>lgEnabled := enabled\<rparr>"

definition log_print :: "string \<Rightarrow> CLog \<Rightarrow> CLog" where
  "log_print s l = (if lgEnabled l then l\<lparr>lgOut := lgOut l @ cstr s\<rparr> else l)"

text \<open>
  \<open>create\<close>: \<open>pid\<close> is what \<open>fork\<close> returned, \<open>rc\<close> and \<open>tid\<close> what \<open>pthread_create\<close> did. The caller
  gets a result and, in \<open>threadId\<close>, perhaps an identifier; a thread is joinable or detached. The
  child of a fork runs the function and exits.
\<close>

datatype spawned = Parent_Gets int "(nat \<times> bool) option" | Child_Exits

definition thread_create :: "int \<Rightarrow> int \<Rightarrow> nat \<Rightarrow> bool \<Rightarrow> bool \<Rightarrow> spawned" where
  "thread_create pid rc tid forker joinable =
    (if forker then
       (if pid > 0 then Parent_Gets pid (Some (nat pid, False))
        else if pid = 0 then Child_Exits else Parent_Gets (-1) None)
     else Parent_Gets rc (if rc = 0 then Some (tid, joinable) else None))"

text \<open>What \<open>run\<close> stores in the package: it ignores the result, and \<open>threadId\<close> starts as 0.\<close>

definition package_id :: "int \<Rightarrow> nat \<Rightarrow> nat" where
  "package_id rc tid =
    (case thread_create 0 rc tid False False of Parent_Gets _ (Some (t, _)) \<Rightarrow> t | _ \<Rightarrow> 0)"

definition createServer :: "memory \<Rightarrow> nat \<Rightarrow> server" where
  "createServer m incremental = new_CServer m incremental"

definition createClient :: CClient where
  "createClient = new_CClient"

definition createNetHandlerSocket :: "int \<Rightarrow> bool \<Rightarrow> channel \<Rightarrow> channel \<Rightarrow> ossl \<Rightarrow> unit res \<times> (tls \<times> ossl)" where
  "createNetHandlerSocket new_fd ready0 r t os =
    construct_socket True (new_sock new_fd ready0 0 False False [] r t) None False os"

section \<open>\<open>run\<close> before and after its loop\<close>

datatype EErrorCode = E_ERROR_UNKNOWN | E_ERROR_NONE | E_ERROR_INVALIDCONFIG | E_ERROR_COUNT

fun error_value :: "EErrorCode \<Rightarrow> int" where
  "error_value E_ERROR_UNKNOWN = -1"
| "error_value E_ERROR_NONE = 0"
| "error_value E_ERROR_INVALIDCONFIG = 1"
| "error_value E_ERROR_COUNT = 2"

definition createSocket :: "int \<Rightarrow> bool \<Rightarrow> bool \<Rightarrow> bool \<Rightarrow> ossl \<Rightarrow> unit res \<times> (tls \<times> ossl)" where
  "createSocket new_fd ready0 made ssl os =
    construct_socket made (new_sock new_fd ready0 0 ssl False [] idle_channel idle_channel) None False os"

text \<open>
  The main socket is made and set up, and bound to the port. \<^const>\<open>None\<close> is that the accept loop is
  entered; when the port cannot be bound, the socket is deleted and \<open>run\<close> returns.
\<close>

definition run_begin ::
  "kernel \<Rightarrow> tls_files \<Rightarrow> int \<Rightarrow> bool \<Rightarrow> server \<Rightarrow> ossl \<Rightarrow> EErrorCode option res \<times> (tls \<times> ossl)" where
  "run_begin k f new_fd made srv os =
    (case createSocket new_fd False made (srvSecure srv) os of
       (Inl e, s) \<Rightarrow> (Inl e, s)
     | (Inr _, s) \<Rightarrow>
         then_act (only_if (srvSecure srv) (server_tls_setup f (srvCertPassword srv) (srvCertFileName srv) (srvKeyFileName srv)))
         (then_act (on_tls (\<lambda>t. t\<lparr>tlSock := setTimeout 5 (tlSock t)\<rparr>))
           (\<lambda>(t, os1). if sock_bind k (srvListenPort srv) None (tlSock t) then (Inr None, (t, os1))
              else then_act destroy_socket (return_act (Some E_ERROR_UNKNOWN)) (t, os1))) s)"

text \<open>After the loop: \<open>close\<close>, then \<open>delete\<close>, which closes once more.\<close>

definition run_finish :: "EErrorCode tls_act" where
  "run_finish = then_act (on_tls (\<lambda>t. t\<lparr>tlSock := sock_close (tlSock t)\<rparr>))
    (then_act destroy_socket (return_act E_ERROR_NONE))"

section \<open>The destructor\<close>

text \<open>The sessions of the vector are deleted from its end.\<close>

fun sessions_loop :: "nat list \<Rightarrow> (server, unit) act" where
  "sessions_loop [] srv = (Inr (), srv\<lparr>srvSessions := []\<rparr>)"
| "sessions_loop (p # ps) srv =
    (case srvHeap srv p of
       None \<Rightarrow> (Inl DoubleFree, srv\<lparr>srvSessions := rev (p # ps)\<rparr>)
     | Some ses \<Rightarrow>
         (case delete_CSession ses (srvMemory srv) of
            (Inl e, m) \<Rightarrow> (Inl e, srv\<lparr>srvMemory := m, srvSessions := rev (p # ps)\<rparr>)
          | (Inr _, m) \<Rightarrow> sessions_loop ps (srv\<lparr>srvMemory := m, srvHeap := (srvHeap srv)(p := None)\<rparr>)))"

text \<open>
  What the server owns besides \<open>server\<close>: its configuration, its nodes and its pool. Its nodes'
  threads are detached, so joining one is undefined; the vector is empty once \<open>run\<close> has returned.
\<close>

record 'd owned =
  owServer :: server
  owConfig :: "CConfig option"
  owNodes :: "nat list"
  owDatabase :: "'d pool option"

definition delete_CServer :: "'d build \<Rightarrow> ('d owned, unit) act" where
  "delete_CServer b ow =
    (case (case owConfig ow of None \<Rightarrow> Inr () | Some cf \<Rightarrow> delete_CConfig cf) of
       Inl e \<Rightarrow> (Inl e, ow)
     | Inr _ \<Rightarrow>
         if owNodes ow \<noteq> [] then (Inl WildAccess, ow)
         else
           (case sessions_loop (rev (srvSessions (owServer ow))) ((owServer ow)\<lparr>srvEndpoints := []\<rparr>) of
              (Inl e, srv) \<Rightarrow> (Inl e, ow\<lparr>owServer := srv, owConfig := None\<rparr>)
            | (Inr _, srv) \<Rightarrow>
                let ow1 = ow\<lparr>owServer := srv\<lparr>srvStaticEndpoints := []\<rparr>, owConfig := None\<rparr> in
                (case owDatabase ow of
                   None \<Rightarrow> (Inr (), ow1)
                 | Some po \<Rightarrow>
                     (case delete_CDatabase b po of
                        (Inl e, po1) \<Rightarrow> (Inl e, ow1\<lparr>owDatabase := Some po1\<rparr>)
                      | (Inr _, po1) \<Rightarrow> (Inr (), ow1\<lparr>owDatabase := Some po1\<rparr>)))))"

section \<open>Sessions that can be destroyed\<close>

definition items_at :: "server \<Rightarrow> nat \<Rightarrow> nat set" where
  "items_at srv p = (case srvHeap srv p of None \<Rightarrow> {} | Some ses \<Rightarrow> set (Items ses))"

text \<open>The listed sessions hold distinct allocated objects, none twice, and share none.\<close>

definition sessions_owned :: "server \<Rightarrow> bool" where
  "sessions_owned srv \<longleftrightarrow> distinct (srvSessions srv) \<and>
    (\<forall>p \<in> set (srvSessions srv). p < srvNext srv \<and>
      (\<exists>ses. srvHeap srv p = Some ses \<and> ses_wf ses (srvMemory srv) \<and> distinct (Items ses))) \<and>
    mem_ok (srvMemory srv) \<and>
    (\<forall>p \<in> set (srvSessions srv). \<forall>q \<in> set (srvSessions srv). p \<noteq> q \<longrightarrow> items_at srv p \<inter> items_at srv q = {})"

lemma sessions_ownedD:
  assumes "sessions_owned srv" "p \<in> set (srvSessions srv)"
  obtains ses where "srvHeap srv p = Some ses" "ses_wf ses (srvMemory srv)" "distinct (Items ses)" "items_at srv p = set (Items ses)"
  using assms by (force simp: sessions_owned_def items_at_def)

lemma delete_CSession_frees:
  assumes "\<forall>p \<in> set (Items ses). memory.live m p \<noteq> None" "distinct (Items ses)"
  shows "delete_CSession ses m = (Inr (), m\<lparr>live := (\<lambda>q. if q \<in> set (Items ses) then None else memory.live m q)\<rparr>)"
  unfolding delete_CSession_def using assms by (rule delete_run)

definition freed_items :: "server \<Rightarrow> nat set \<Rightarrow> memory" where
  "freed_items srv ps = (srvMemory srv)\<lparr>live := (\<lambda>q. if q \<in> \<Union> (items_at srv ` ps) then None else memory.live (srvMemory srv) q)\<rparr>"

lemma sessions_loop_prefix:
  assumes "distinct ps"
    and "\<forall>p \<in> set ps. \<exists>ses. srvHeap srv p = Some ses \<and> distinct (Items ses) \<and>
      (\<forall>x \<in> set (Items ses). memory.live (srvMemory srv) x \<noteq> None)"
    and "\<forall>p \<in> set ps. \<forall>q \<in> set ps. p \<noteq> q \<longrightarrow> items_at srv p \<inter> items_at srv q = {}"
  shows "sessions_loop (ps @ qs) srv = sessions_loop qs (srv\<lparr>
    srvHeap := (\<lambda>p. if p \<in> set ps then None else srvHeap srv p), srvMemory := freed_items srv (set ps)\<rparr>)"
  using assms
proof (induction ps arbitrary: srv)
  case Nil
  then show ?case by (simp add: freed_items_def)
next
  case (Cons p ps)
  then obtain ses where ses: "srvHeap srv p = Some ses" "distinct (Items ses)"
    "\<forall>x \<in> set (Items ses). memory.live (srvMemory srv) x \<noteq> None" by auto
  let ?m = "(srvMemory srv)\<lparr>live := (\<lambda>q. if q \<in> set (Items ses) then None else memory.live (srvMemory srv) q)\<rparr>"
  let ?srv = "srv\<lparr>srvMemory := ?m, srvHeap := (srvHeap srv)(p := None)\<rparr>"
  have p: "p \<notin> set ps" "items_at srv p = set (Items ses)" using Cons.prems(1) ses(1) by (simp_all add: items_at_def)
  have same: "items_at ?srv q = items_at srv q" if "q \<in> set ps" for q using that p(1) by (auto simp: items_at_def)
  have apart: "items_at srv q \<inter> set (Items ses) = {}" if "q \<in> set ps" for q
    using Cons.prems(3) that p by auto
  have "\<exists>s. srvHeap ?srv q = Some s \<and> distinct (Items s) \<and> (\<forall>x \<in> set (Items s). memory.live (srvMemory ?srv) x \<noteq> None)"
    if q: "q \<in> set ps" for q
  proof -
    from Cons.prems(2) q obtain s where "srvHeap srv q = Some s" "distinct (Items s)"
      "\<forall>x \<in> set (Items s). memory.live (srvMemory srv) x \<noteq> None" by auto
    with apart [OF q] q p(1) show ?thesis by (auto simp: items_at_def)
  qed
  moreover have "\<forall>q \<in> set ps. \<forall>r \<in> set ps. q \<noteq> r \<longrightarrow> items_at ?srv q \<inter> items_at ?srv r = {}"
    using Cons.prems(3) same by simp
  ultimately have IH: "sessions_loop (ps @ qs) ?srv = sessions_loop qs (?srv\<lparr>
      srvHeap := (\<lambda>p. if p \<in> set ps then None else srvHeap ?srv p), srvMemory := freed_items ?srv (set ps)\<rparr>)"
    using Cons.IH [of ?srv] Cons.prems(1) by simp
  have fe: "(\<lambda>q. if q \<in> \<Union> (items_at ?srv ` set ps) then None else memory.live ?m q) =
      (\<lambda>q. if q \<in> \<Union> (items_at srv ` set (p # ps)) then None else memory.live (srvMemory srv) q)"
    using same p(2) by auto
  have "freed_items ?srv (set ps) = (srvMemory srv)\<lparr>live :=
      (\<lambda>q. if q \<in> \<Union> (items_at ?srv ` set ps) then None else memory.live ?m q)\<rparr>"
    by (simp add: freed_items_def cong: if_cong)
  also have "\<dots> = freed_items srv (set (p # ps))" by (simp only: freed_items_def fe)
  finally have "freed_items ?srv (set ps) = freed_items srv (set (p # ps))" .
  moreover have "(\<lambda>q. if q \<in> set ps then None else srvHeap ?srv q) = (\<lambda>q. if q \<in> set (p # ps) then None else srvHeap srv q)"
    by auto
  ultimately show ?case using IH ses(1) delete_CSession_frees [OF ses(3,2)] by simp
qed

lemma sessions_owned_loop:
  assumes "sessions_owned srv"
  shows "sessions_loop (rev (srvSessions srv)) srv = (Inr (), srv\<lparr>srvSessions := [],
    srvHeap := (\<lambda>p. if p \<in> set (srvSessions srv) then None else srvHeap srv p),
    srvMemory := freed_items srv (set (srvSessions srv))\<rparr>)"
  using sessions_loop_prefix [of "rev (srvSessions srv)" srv "[]"] assms
  by (force simp: sessions_owned_def ses_wf_def)

text \<open>The operations of the sessions keep that; \<open>setStringValue\<close> does for a name the session has not.\<close>

lemma no_sessions_owned: "srvSessions srv = [] \<Longrightarrow> mem_ok (srvMemory srv) \<Longrightarrow> sessions_owned srv"
  by (simp add: sessions_owned_def)

lemma startSession_owned:
  assumes "sessions_owned srv" "startSession now srv = (p, srv1)"
  shows "sessions_owned srv1 \<and> srvSessions srv1 = srvSessions srv @ [p]"
proof -
  obtain ses i where n: "new_CSession now (srvIncremental srv) = (ses, i)" "Items ses = []"
    by (simp add: new_CSession_def Let_def)
  have srv1: "p = srvNext srv" "srv1 = srv\<lparr>srvSessions := srvSessions srv @ [p], srvHeap := (srvHeap srv)(p \<mapsto> ses),
      srvNext := Suc p, srvIncremental := i\<rparr>" using assms(2) n(1) by (auto simp: startSession_def Let_def)
  have items: "items_at srv1 q = (if q = p then {} else items_at srv q)" for q
    using n(2) by (auto simp: items_at_def srv1)
  have old: "q \<noteq> p \<and> q < Suc p \<and> (\<exists>s. srvHeap srv q = Some s \<and> ses_wf s (srvMemory srv) \<and> distinct (Items s))"
    if "q \<in> set (srvSessions srv)" for q
    using assms(1) that unfolding sessions_owned_def by (fastforce simp: srv1)
  moreover have "ses_wf ses (srvMemory srv)" using assms(1) n(2) by (simp add: ses_wf_def sessions_owned_def)
  ultimately have "\<forall>q \<in> set (srvSessions srv1). q < srvNext srv1 \<and>
      (\<exists>s. srvHeap srv1 q = Some s \<and> ses_wf s (srvMemory srv1) \<and> distinct (Items s))"
    using n(2) by (auto simp: srv1(2))
  moreover have "distinct (srvSessions srv1)" using assms(1) old by (auto simp: srv1 sessions_owned_def)
  moreover have "\<forall>q \<in> set (srvSessions srv1). \<forall>r \<in> set (srvSessions srv1). q \<noteq> r \<longrightarrow> items_at srv1 q \<inter> items_at srv1 r = {}"
    using assms(1) unfolding items by (auto simp: srv1(2) sessions_owned_def)
  moreover have "mem_ok (srvMemory srv1)" using assms(1) by (simp add: srv1 sessions_owned_def)
  ultimately show ?thesis by (simp add: sessions_owned_def srv1)
qed

lemma at_setStringValue_owned:
  assumes ok: "sessions_owned srv" and p: "p \<in> set (srvSessions srv)" and h: "srvHeap srv p = Some ses"
    and new: "name \<notin> set (item_names ses (srvMemory srv))"
  obtains srv1 where "at_setStringValue p name v srv = (Inr (), srv1)" "sessions_owned srv1"
    "srvSessions srv1 = srvSessions srv"
proof -
  let ?m = "srvMemory srv"
  have w: "ses_wf ses ?m" "distinct (Items ses)" using sessions_ownedD [OF ok p] h by auto
  have none: "ses_find ses ?m name = None" using new by (auto simp: ses_find_None item_names_def)
  have "setStringValue name v ses ?m = Inr (ses\<lparr>Items := Items ses @ [fresh ?m]\<rparr>, write_item (fresh ?m) name v ?m)"
    by (rule setStringValue_writes [OF w(1), of name v]) (use none in auto)
  then obtain ses1 m1 where set: "setStringValue name v ses ?m = Inr (ses1, m1)"
    and ses1: "ses1 = ses\<lparr>Items := Items ses @ [fresh ?m]\<rparr>" "m1 = write_item (fresh ?m) name v ?m" by blast
  let ?srv1 = "srv\<lparr>srvHeap := (srvHeap srv)(p \<mapsto> ses1), srvMemory := m1\<rparr>"
  have a: "at_setStringValue p name v srv = (Inr (), ?srv1)" using h set by (simp add: at_setStringValue_def)
  have m1: "memory.live m1 x = memory.live ?m x" if "x \<noteq> fresh ?m" for x using that by (simp add: ses1(2) write_item_def)
  have notin: "fresh ?m \<notin> items_at srv q" if "q \<in> set (srvSessions srv)" for q
    using sessions_ownedD [OF ok that] ses_wf_fresh by metis
  have items: "items_at ?srv1 q = (if q = p then insert (fresh ?m) (items_at srv p) else items_at srv q)" for q
    using h by (auto simp: items_at_def ses1)
  have w1: "ses_wf ses1 m1" by (rule setStringValue_wf [OF w(1) set])
  have "\<exists>s. srvHeap ?srv1 q = Some s \<and> ses_wf s m1 \<and> distinct (Items s)" if q: "q \<in> set (srvSessions srv)" for q
  proof (cases "q = p")
    case True
    have "fresh ?m \<notin> set (Items ses)" using ses_wf_fresh [OF w(1)] .
    with True w1 w(2) ses1 show ?thesis by simp
  next
    case False
    obtain s where s: "srvHeap srv q = Some s" "ses_wf s ?m" "distinct (Items s)" "items_at srv q = set (Items s)"
      by (rule sessions_ownedD [OF ok q])
    have "x \<noteq> fresh ?m" if "x \<in> set (Items s)" for x using notin [OF q] s(4) that by auto
    then have "ses_wf s m1" using s(2) w1 m1
      by (auto simp: ses_wf_def item_name_def inj_on_def)
    with False s show ?thesis by simp
  qed
  moreover have "\<forall>q \<in> set (srvSessions srv). \<forall>r \<in> set (srvSessions srv). q \<noteq> r \<longrightarrow> items_at ?srv1 q \<inter> items_at ?srv1 r = {}"
    using ok notin p unfolding items by (auto simp: sessions_owned_def)
  moreover have "mem_ok m1" using w1 by (simp add: ses_wf_def)
  ultimately have "sessions_owned ?srv1" using ok by (simp add: sessions_owned_def)
  from that [OF a this] show thesis by simp
qed

lemma sessions_loop_stuck:
  "srvHeap srv p = Some ses \<Longrightarrow> fst (delete_CSession ses (srvMemory srv)) = Inl e \<Longrightarrow>
   fst (sessions_loop (p # ps) srv) = Inl e"
  by (auto split: prod.splits)

text \<open>A name the session holds is set a second time: the destructor reaches the session and faults.\<close>

lemma at_setStringValue_twice:
  assumes ok: "sessions_owned srv" and p: "p \<in> set (srvSessions srv)" and h: "srvHeap srv p = Some ses"
    and held: "name \<in> set (item_names ses (srvMemory srv))"
  obtains srv1 where "at_setStringValue p name v srv = (Inr (), srv1)"
    "fst (sessions_loop (rev (srvSessions srv1)) srv1) = Inl DoubleFree"
proof -
  let ?m = "srvMemory srv"
  have w: "ses_wf ses ?m" "items_at srv p = set (Items ses)" using sessions_ownedD [OF ok p] h by auto
  obtain x where x: "ses_find ses ?m name = Some x" "x \<in> set (Items ses)"
    using held ses_find_Some [OF w(1)] by (auto simp: item_names_def)
  have "setStringValue name v ses ?m = Inr (ses\<lparr>Items := Items ses @ [x]\<rparr>, write_item x name v ?m)"
    by (rule setStringValue_writes [OF w(1), of name v]) (use x in auto)
  then obtain ses1 m1 where set: "setStringValue name v ses ?m = Inr (ses1, m1)"
    and ses1: "ses1 = ses\<lparr>Items := Items ses @ [x]\<rparr>" "m1 = write_item x name v ?m" by blast
  let ?srv1 = "srv\<lparr>srvHeap := (srvHeap srv)(p \<mapsto> ses1), srvMemory := m1\<rparr>"
  have a: "at_setStringValue p name v srv = (Inr (), ?srv1)" using h set by (simp add: at_setStringValue_def)
  have live: "memory.live m1 y \<noteq> None" if "memory.live ?m y \<noteq> None" for y using that by (simp add: ses1(2) write_item_def)
  have items: "items_at ?srv1 q = items_at srv q" for q using h x(2) by (auto simp: items_at_def ses1)
  obtain as bs where ls: "srvSessions srv = as @ p # bs" using p by (auto simp: in_set_conv_decomp)
  have d: "distinct (rev bs)" "p \<notin> set bs" using ok ls by (auto simp: sessions_owned_def)
  have good: "\<exists>s. srvHeap ?srv1 q = Some s \<and> distinct (Items s) \<and> (\<forall>y \<in> set (Items s). memory.live m1 y \<noteq> None)"
    if "q \<in> set bs" for q
  proof -
    have "q \<in> set (srvSessions srv)" using that ls by simp
    from sessions_ownedD [OF ok this] obtain s where "srvHeap srv q = Some s" "ses_wf s ?m" "distinct (Items s)" by metis
    then show ?thesis using that d(2) live by (auto simp: ses_wf_def)
  qed
  have apart: "\<forall>q \<in> set (srvSessions srv). \<forall>r \<in> set (srvSessions srv). q \<noteq> r \<longrightarrow> items_at ?srv1 q \<inter> items_at ?srv1 r = {}"
    using ok unfolding items by (simp add: sessions_owned_def)
  let ?srv2 = "?srv1\<lparr>srvHeap := (\<lambda>q. if q \<in> set bs then None else srvHeap ?srv1 q), srvMemory := freed_items ?srv1 (set bs)\<rparr>"
  have l: "sessions_loop (rev bs @ p # rev as) ?srv1 = sessions_loop (p # rev as) ?srv2"
    using sessions_loop_prefix [OF d(1), of ?srv1 "p # rev as"] good apart ls by simp
  have "memory.live (srvMemory ?srv2) y \<noteq> None" if y: "y \<in> set (Items ses1)" for y
  proof -
    have yp: "y \<in> items_at srv p" using y x(2) w(2) by (auto simp: ses1)
    have "items_at srv q \<inter> items_at srv p = {}" if "q \<in> set bs" for q
      using apart [rule_format, of q p] that d(2) ls unfolding items by fastforce
    with yp have "y \<notin> \<Union> (items_at ?srv1 ` set bs)" unfolding items by blast
    moreover have "memory.live m1 y \<noteq> None" using w(1,2) yp live by (simp add: ses_wf_def)
    ultimately show ?thesis by (simp add: freed_items_def)
  qed
  then have "fst (delete_CSession ses1 (srvMemory ?srv2)) = (if distinct (Items ses1) then Inr () else Inl DoubleFree)"
    unfolding delete_CSession_def by (intro delete_items) blast
  then have "fst (delete_CSession ses1 (srvMemory ?srv2)) = Inl DoubleFree" using x(2) by (simp add: ses1)
  moreover have "srvHeap ?srv2 p = Some ses1" using d(2) by simp
  ultimately have "fst (sessions_loop (p # rev as) ?srv2) = Inl DoubleFree" by (rule sessions_loop_stuck [rotated])
  moreover have "rev (srvSessions ?srv1) = rev bs @ p # rev as" by (simp add: ls)
  ultimately have "fst (sessions_loop (rev (srvSessions ?srv1)) ?srv1) = Inl DoubleFree" by (simp only: l)
  from that [OF a this] show thesis .
qed

section \<open>Properties\<close>

text \<open>C20 (invariant). The sessions of the server stay destructible: starting a session keeps them so,
  and so does setting a name the session does not hold. Setting a name it holds dooms the server: its
  destructor frees an object twice.\<close>

theorem sessions_stay_destructible:
  assumes "sessions_owned srv" and "p \<in> set (srvSessions srv)" and "srvHeap srv p = Some ses"
    and "startSession now srv = (q, srv0)"
  shows "sessions_owned srv0 \<and> (\<exists>srv1. at_setStringValue p name v srv = (Inr (), srv1) \<and>
    (if name \<in> set (item_names ses (srvMemory srv))
     then fst (sessions_loop (rev (srvSessions srv1)) srv1) = Inl DoubleFree
     else sessions_owned srv1 \<and> srvSessions srv1 = srvSessions srv))"
proof (cases "name \<in> set (item_names ses (srvMemory srv))")
  case True
  obtain srv1 where "at_setStringValue p name v srv = (Inr (), srv1)"
    "fst (sessions_loop (rev (srvSessions srv1)) srv1) = Inl DoubleFree"
    by (rule at_setStringValue_twice [OF assms(1-3) True])
  with True startSession_owned [OF assms(1,4)] show ?thesis by simp
next
  case False
  obtain srv1 where "at_setStringValue p name v srv = (Inr (), srv1)" "sessions_owned srv1" "srvSessions srv1 = srvSessions srv"
    by (rule at_setStringValue_owned [OF assms(1-3) False])
  with False startSession_owned [OF assms(1,4)] show ?thesis by simp
qed

definition two_sessions :: server where
  "two_sessions = snd (at_setStringValue 0 ''u'' ''1'' (snd (startSession 6 (snd (startSession 5 (new_CServer no_memory 0))))))"

lemma two_sessions_owned:
  "sessions_owned two_sessions" "srvSessions two_sessions = [0, 1]"
  "srvHeap two_sessions 0 = Some \<lparr>sesID = dec_of_nat 5 @ dec_of_nat 0, Items = [0]\<rparr>"
  "item_names \<lparr>sesID = dec_of_nat 5 @ dec_of_nat 0, Items = [0]\<rparr> (srvMemory two_sessions) = [''u'']"
proof -
  let ?s0 = "new_CServer no_memory 0" let ?s1 = "snd (startSession 5 ?s0)" let ?s2 = "snd (startSession 6 ?s1)"
  have "sessions_owned ?s0"
    by (rule no_sessions_owned) (simp_all add: new_CServer_def addDefaultMimeTypes_def default_mime_types_def
        addMimeType_def mem_ok_def no_memory_def)
  then have "sessions_owned ?s1" using startSession_owned [of ?s0 5 "fst (startSession 5 ?s0)" ?s1] by simp
  then have s2: "sessions_owned ?s2" using startSession_owned [of ?s1 6 "fst (startSession 6 ?s1)" ?s2] by simp
  note run = startSession_def new_CSession_def Let_def new_CServer_def addDefaultMimeTypes_def default_mime_types_def
    addMimeType_def no_memory_def
  have h: "srvSessions ?s2 = [0, 1]" "srvHeap ?s2 0 = Some \<lparr>sesID = dec_of_nat 5 @ dec_of_nat 0, Items = []\<rparr>" by (simp_all add: run)
  obtain srv1 where "at_setStringValue 0 ''u'' ''1'' ?s2 = (Inr (), srv1)" "sessions_owned srv1"
    by (rule at_setStringValue_owned [OF s2 _ h(2), of "''u''" "''1''"]) (simp_all add: h item_names_def)
  then show "sessions_owned two_sessions" by (simp add: two_sessions_def)
  show "srvSessions two_sessions = [0, 1]" "srvHeap two_sessions 0 = Some \<lparr>sesID = dec_of_nat 5 @ dec_of_nat 0, Items = [0]\<rparr>"
    "item_names \<lparr>sesID = dec_of_nat 5 @ dec_of_nat 0, Items = [0]\<rparr> (srvMemory two_sessions) = [''u'']"
    by (simp_all add: two_sessions_def run at_setStringValue_def setStringValue_def ses_get_def new_CVarVal_def
        item_names_def item_name_def)
qed

lemma sessions_stay_destructible_witness:
  "(\<exists>srv1. at_setStringValue 0 ''v'' ''2'' two_sessions = (Inr (), srv1) \<and> sessions_owned srv1)
   \<and> (\<exists>srv1. at_setStringValue 0 ''u'' ''2'' two_sessions = (Inr (), srv1) \<and>
        fst (sessions_loop (rev (srvSessions srv1)) srv1) = Inl DoubleFree)"
proof -
  have p: "0 \<in> set (srvSessions two_sessions)" by (simp add: two_sessions_owned)
  obtain q srv0 where st: "startSession 7 two_sessions = (q, srv0)" by fastforce
  note w = sessions_stay_destructible [OF two_sessions_owned(1) p two_sessions_owned(3) st]
  from w [of "''v''" "''2''"] w [of "''u''" "''2''"] show ?thesis by (auto simp: two_sessions_owned(4))
qed

text \<open>What the destructor of a server with such sessions does.\<close>

lemma delete_CServer_run:
  assumes "sessions_owned (owServer ow)" and "owNodes ow = []"
    and "pred_option (\<lambda>cf. cfBase cf \<noteq> None) (owConfig ow)" and "pred_option pool_ok (owDatabase ow)"
  obtains db where "delete_CServer b ow = (Inr (), ow\<lparr>owServer := (owServer ow)\<lparr>srvEndpoints := [], srvSessions := [],
      srvHeap := (\<lambda>p. if p \<in> set (srvSessions (owServer ow)) then None else srvHeap (owServer ow) p),
      srvMemory := freed_items (owServer ow) (set (srvSessions (owServer ow))), srvStaticEndpoints := []\<rparr>,
      owConfig := None, owDatabase := db\<rparr>)"
    "pred_option (\<lambda>po. poInstances po = [] \<and> \<not> poRunning po) db"
proof -
  let ?srv = "(owServer ow)\<lparr>srvEndpoints := []\<rparr>"
  have "sessions_owned ?srv" using assms(1) by (simp add: sessions_owned_def items_at_def)
  then have l: "sessions_loop (rev (srvSessions ?srv)) ?srv = (Inr (), ?srv\<lparr>srvSessions := [],
      srvHeap := (\<lambda>p. if p \<in> set (srvSessions ?srv) then None else srvHeap ?srv p),
      srvMemory := freed_items ?srv (set (srvSessions ?srv))\<rparr>)" by (rule sessions_owned_loop)
  let ?srv1 = "?srv\<lparr>srvSessions := [],
      srvHeap := (\<lambda>p. if p \<in> set (srvSessions ?srv) then None else srvHeap ?srv p),
      srvMemory := freed_items ?srv (set (srvSessions ?srv))\<rparr>"
  have c: "(case owConfig ow of None \<Rightarrow> Inr () | Some cf \<Rightarrow> delete_CConfig cf) = Inr ()"
    using assms(3) by (auto simp: delete_CConfig_def split: option.splits)
  obtain db where db: "delete_CServer b ow = (Inr (), ow\<lparr>owServer := ?srv1\<lparr>srvStaticEndpoints := []\<rparr>, owConfig := None, owDatabase := db\<rparr>)"
    "pred_option (\<lambda>po. poInstances po = [] \<and> \<not> poRunning po) db"
  proof (cases "owDatabase ow")
    case None
    then have "delete_CServer b ow = (Inr (), ow\<lparr>owServer := ?srv1\<lparr>srvStaticEndpoints := []\<rparr>, owConfig := None, owDatabase := None\<rparr>)"
      using assms(2) c l by (simp add: delete_CServer_def Let_def)
    from that [OF this] show thesis by simp
  next
    case (Some po)
    then have "pool_ok po" using assms(4) by simp
    then obtain d where d: "pool_closeAll b po = (Inr (), po\<lparr>poInstances := [],
       poHeap := (\<lambda>p. if p \<in> set (poInstances po) then None else poHeap po p), poExt := d, poHold := False\<rparr>)"
      by (rule pool_closeAll_ok)
    let ?po = "po\<lparr>poInstances := [], poHeap := (\<lambda>p. if p \<in> set (poInstances po) then None else poHeap po p),
      poExt := d, poHold := False, poRunning := False\<rparr>"
    have "delete_CServer b ow = (Inr (), ow\<lparr>owServer := ?srv1\<lparr>srvStaticEndpoints := []\<rparr>, owConfig := None, owDatabase := Some ?po\<rparr>)"
      using assms(2) c l d Some by (simp add: delete_CServer_def delete_CDatabase_def bind_act_def Let_def)
    from that [OF this] show thesis by simp
  qed
  have "freed_items ?srv (set (srvSessions ?srv)) = freed_items (owServer ow) (set (srvSessions (owServer ow)))"
    by (simp add: freed_items_def items_at_def cong: if_cong)
  with that db show thesis by (simp cong: if_cong)
qed



section \<open>The result of \<open>run\<close>\<close>

text \<open>C29 (error). \<open>run\<close> returns -1 exactly when the port, taken modulo 65536, cannot be bound; the main
  socket is then closed once and its context freed. Otherwise the accept loop is entered with the
  socket open. Certificate and key files that cannot be read do not stop a TLS server.\<close>

theorem run_result:
  assumes "run_begin k f new_fd True srv os = (r, (t, os1))"
  shows "if kBind k new_fd None (htons (srvListenPort srv)) = 0
    then r = Inr None \<and> Closed (tlSock t) = 0 \<and> Timeout (tlSock t) = 5
    else r = Inr (Some E_ERROR_UNKNOWN) \<and> Closed (tlSock t) = 1 \<and>
      (srvSecure srv \<longrightarrow> tlCTX t = None \<and> osCtx os1 (osNextCtx os) = None)"
proof -
  let ?sock = "new_sock new_fd False 0 (srvSecure srv) False [] idle_channel idle_channel"
  let ?tls = "server_tls_setup f (srvCertPassword srv) (srvCertFileName srv) (srvKeyFileName srv)"
  obtain s where c: "createSocket new_fd False True (srvSecure srv) os = (Inr (), s)"
    "frame_of s = (if srvSecure srv then Some (osNextCtx os) else None, True, [], False, ?sock)"
    "srvSecure srv \<Longrightarrow> ctx_at s \<noteq> None"
    by (cases "srvSecure srv") (simp_all add: createSocket_def construct_socket_def Let_def setupSSL_def frame_of_def
        ctx_at_def new_sock_def)
  obtain s1 where s1: "only_if (srvSecure srv) ?tls s = (Inr (), s1)" "frame_of s1 = frame_of s"
  proof (cases "srvSecure srv")
    case True
    have mut: "\<not> SSLMutual (tlSock (fst s))" using c(2) by (simp add: frame_of_def new_sock_def)
    obtain s1 where "?tls s = (Inr (), s1)" "frame_of s1 = frame_of s"
      by (rule server_setup_frame [OF c(3) [OF True] mut])
    with that True show thesis by simp
  qed (simp add: return_act_def)
  obtain t1 o1 where t1: "s1 = (t1, o1)" by fastforce
  let ?t1 = "t1\<lparr>tlSock := setTimeout 5 (tlSock t1)\<rparr>"
  have fr: "tlCTX t1 = (if srvSecure srv then Some (osNextCtx os) else None)" "tlCTXRoot t1" "tlSNIList t1 = []"
    "SID (tlSock t1) = new_fd" "SSLEnabled (tlSock t1) = srvSecure srv" "Closed (tlSock t1) = 0"
    using s1(2) c(2) t1 by (auto simp: frame_of_def new_sock_def)
  have run: "run_begin k f new_fd True srv os =
      (if sock_bind k (srvListenPort srv) None (tlSock ?t1) then (Inr None, (?t1, o1))
       else then_act destroy_socket (return_act (Some E_ERROR_UNKNOWN)) (?t1, o1))"
    using c(1) s1(1) t1 by (simp add: run_begin_def then_act_def bind_act_def on_tls_def)
  have b: "sock_bind k (srvListenPort srv) None (tlSock ?t1) = (kBind k new_fd None (htons (srvListenPort srv)) = 0)"
    using fr(4) by (simp add: sock_bind_def setTimeout_def)
  show ?thesis
  proof (cases "kBind k new_fd None (htons (srvListenPort srv)) = 0")
    case True
    with assms run b fr(6) show ?thesis by (auto simp: setTimeout_def)
  next
    case False
    have "r = Inr (Some E_ERROR_UNKNOWN) \<and> Closed (tlSock t) = 1 \<and> (srvSecure srv \<longrightarrow> tlCTX t = None \<and> osCtx os1 (osNextCtx os) = None)"
      using assms False fr unfolding run b
      by (cases "srvSecure srv") (auto simp: then_act_def bind_act_def destroy_socket_def on_tls_def return_act_def
          cleanupSSL_def cleanupSNI_def sock_close_def setTimeout_def)
    with False show ?thesis by simp
  qed
qed

lemma run_result_witness:
  "\<exists>t os1. run_begin (dead_network\<lparr>kBind := (\<lambda>_ _ p. if p = 80 then 0 else -1)\<rparr>) sample_files 3 True
      (setListenPort 65616 (setSecure True (new_CServer no_memory 0))) no_objects = (Inr None, (t, os1)) \<and> Closed (tlSock t) = 0"
proof -
  let ?k = "dead_network\<lparr>kBind := (\<lambda>_ _ p. if p = 80 then 0 else -1)\<rparr>"
  let ?srv = "setListenPort 65616 (setSecure True (new_CServer no_memory 0))"
  obtain r t os1 where r: "run_begin ?k sample_files 3 True ?srv no_objects = (r, (t, os1))" by (metis prod.collapse)
  have "kBind ?k 3 None (htons (srvListenPort ?srv)) = 0"
    by (simp add: setListenPort_def htons_def)
  with run_result [OF r] r show ?thesis by simp
qed

end
