(* ===== verification/Sample_Program.thy ===== *)
theory Sample_Program
  imports Shared_Server Server_Lifecycle
begin

text \<open>
  The whole of \<open>sample-server/main.cpp\<close>: the server that \<open>main\<close> sets up, requests on any number of
  connections at the same time, and the end of \<open>main\<close>, which disposes the server. What the four
  endpoints keep true of the server makes every schedule end without a fault and without a leak.
\<close>

section \<open>A server that owns what it has allocated\<close>

text \<open>Every session is listed, and every value belongs to a listed session.\<close>

definition tidy :: "server \<Rightarrow> bool" where
  "tidy srv \<longleftrightarrow> sessions_owned srv \<and> (\<forall>p. srvHeap srv p \<noteq> None \<longrightarrow> p \<in> set (srvSessions srv)) \<and>
    (\<forall>x. memory.live (srvMemory srv) x \<noteq> None \<longrightarrow> (\<exists>p \<in> set (srvSessions srv). x \<in> items_at srv p))"

lemma tidyD:
  assumes "tidy srv" "p \<in> set (srvSessions srv)"
  obtains ses where "srvHeap srv p = Some ses" "ses_wf ses (srvMemory srv)"
  using assms sessions_ownedD by (metis tidy_def)

text \<open>What a session is for the program: its identifier and its values.\<close>

definition session_view :: "server \<Rightarrow> nat \<Rightarrow> (string \<times> (string \<Rightarrow> string option)) option" where
  "session_view srv p = map_option (\<lambda>ses. (sesID ses, ses_abs ses (srvMemory srv))) (srvHeap srv p)"

lemma tidy_view:
  assumes "tidy srv" "p \<in> set (srvSessions srv)"
  obtains sid vals where "session_view srv p = Some (sid, vals)"
  using tidyD [OF assms] by (metis session_view_def option.map(2))

lemma tidy_startSession:
  assumes "tidy srv" "startSession now srv = (p, srv1)"
  obtains i where "tidy srv1" "srvSessions srv1 = srvSessions srv @ [p]" "srvStaticIndexes srv1 = srvStaticIndexes srv"
    "session_view srv1 p = Some (dec_of_nat now @ dec_of_nat i, Map.empty)" "i < 4294967295"
    "\<forall>q \<in> set (srvSessions srv). session_view srv1 q = session_view srv q"
proof -
  obtain ses i where n: "new_CSession now (srvIncremental srv) = (ses, i)" by fastforce
  then have it: "Items ses = []" by (auto simp: new_CSession_def Let_def)
  obtain j where j: "sesID ses = dec_of_nat now @ dec_of_nat j" "j < 4294967295"
    by (rule that [of "if 4294967295 \<le> srvIncremental srv then 0 else srvIncremental srv"])
      (use n in \<open>auto simp: new_CSession_def Let_def\<close>)
  have s: "p = srvNext srv" "srv1 = srv\<lparr>srvSessions := srvSessions srv @ [p], srvHeap := (srvHeap srv)(p \<mapsto> ses),
      srvNext := Suc p, srvIncremental := i\<rparr>" using assms(2) n by (auto simp: startSession_def Let_def)
  have "sessions_owned srv1" using startSession_owned [OF _ assms(2)] assms(1) by (simp add: tidy_def)
  moreover have new: "p \<notin> set (srvSessions srv)" using assms(1) s(1) by (auto simp: tidy_def sessions_owned_def)
  moreover have "items_at srv1 q = items_at srv q" if "q \<in> set (srvSessions srv)" for q
    using that new by (auto simp: items_at_def s(2))
  ultimately have "tidy srv1" using assms(1) unfolding tidy_def by (auto simp: s(2))
  moreover have "session_view srv1 p = Some (dec_of_nat now @ dec_of_nat j, Map.empty)"
    using it j(1) by (auto simp: session_view_def s ses_abs_def ses_find_def)
  ultimately show thesis using new j(2) by (intro that [of j]) (auto simp: session_view_def s)
qed

lemma ses_abs_other: "x \<notin> set (Items ses) \<Longrightarrow> ses_abs ses (write_item x name v m) = ses_abs ses m"
proof -
  assume x: "x \<notin> set (Items ses)"
  then have names: "\<forall>y \<in> set (Items ses). item_name (write_item x name v m) y = item_name m y" by (auto simp: item_name_def write_item_def)
  then have "find (\<lambda>y. item_name (write_item x name v m) y = n) (Items ses) = find (\<lambda>y. item_name m y = n) (Items ses)" for n
    by (intro find_cong) auto
  then have "ses_find ses (write_item x name v m) n = ses_find ses m n" for n by (simp add: ses_find_def)
  with x show ?thesis by (auto simp: fun_eq_iff ses_abs_def write_item_def intro!: option.map_cong0 dest: ses_find_SomeD)
qed

lemma tidy_at_setStringValue:
  assumes t: "tidy srv" and p: "p \<in> set (srvSessions srv)" and view: "session_view srv p = Some (sid, vals)" "vals name = None"
  obtains srv1 where "at_setStringValue p name v srv = (Inr (), srv1)" "tidy srv1" "srvSessions srv1 = srvSessions srv"
    "session_view srv1 p = Some (sid, vals(name \<mapsto> v))" "\<forall>q \<in> set (srvSessions srv) - {p}. session_view srv1 q = session_view srv q"
    "srvStaticIndexes srv1 = srvStaticIndexes srv"
proof -
  let ?m = "srvMemory srv"
  obtain ses where h: "srvHeap srv p = Some ses" "sesID ses = sid" "ses_abs ses ?m = vals" using view by (auto simp: session_view_def)
  have w: "ses_wf ses ?m" using tidyD [OF t p] h(1) by auto
  have none: "ses_find ses ?m name = None" using view(2) h(3) by (auto simp: ses_abs_def)
  then have names: "name \<notin> set (item_names ses ?m)" by (auto simp: ses_find_None item_names_def)
  obtain srv1 where a: "at_setStringValue p name v srv = (Inr (), srv1)" "sessions_owned srv1" "srvSessions srv1 = srvSessions srv"
    by (rule at_setStringValue_owned [OF _ p h(1) names]) (use t in \<open>simp add: tidy_def\<close>)
  obtain x where x: "setStringValue name v ses ?m = Inr (ses\<lparr>Items := Items ses @ [x]\<rparr>, write_item x name v ?m)"
    by (rule setStringValue_writes [OF w])
  let ?ses1 = "ses\<lparr>Items := Items ses @ [x]\<rparr>"
  have s1: "srv1 = srv\<lparr>srvHeap := (srvHeap srv)(p \<mapsto> ?ses1), srvMemory := write_item x name v ?m\<rparr>"
    using a(1) h(1) x by (simp add: at_setStringValue_def)
  have items: "items_at srv1 q = (if q = p then insert x (items_at srv p) else items_at srv q)" for q
    using h(1) by (auto simp: items_at_def s1)
  have "\<exists>q \<in> set (srvSessions srv). y \<in> items_at srv1 q" if "memory.live (srvMemory srv1) y \<noteq> None" for y
  proof (cases "y = x")
    case False
    then have "memory.live ?m y \<noteq> None" using that by (simp add: s1 write_item_def)
    then obtain q where "q \<in> set (srvSessions srv)" "y \<in> items_at srv q" using t unfolding tidy_def by blast
    then show ?thesis unfolding items by (intro bexI [of _ q]) auto
  qed (use p items in auto)
  then have "tidy srv1" using a(2,3) t p unfolding tidy_def by (auto simp: s1)
  moreover have "session_view srv1 p = Some (sid, vals(name \<mapsto> v))"
    using setStringValue_abs [OF w x] h by (simp add: s1 session_view_def)
  moreover have "session_view srv1 q = session_view srv q" if q: "q \<in> set (srvSessions srv)" "q \<noteq> p" for q
  proof -
    have "x \<notin> items_at srv1 q" using a(2,3) p q items [of p] unfolding sessions_owned_def by auto
    then have "x \<notin> set (Items ses')" if "srvHeap srv q = Some ses'" for ses' using that q(2) by (simp add: items items_at_def s1)
    with q(2) show ?thesis by (cases "srvHeap srv q") (simp_all add: session_view_def s1 ses_abs_other)
  qed
  ultimately show thesis using a(1,3) that [of srv1] by (simp add: s1)
qed

section \<open>The endpoints\<close>

abbreviation sample_values :: "string \<Rightarrow> string option" where
  "sample_values \<equiv> [''var1'' \<mapsto> ''val1'', ''var2'' \<mapsto> ''val2'']"

lemma setSessionEndpoint_tidy:
  assumes t: "tidy srv"
  obtains p i sid srv1 where "setSessionEndpoint now rq srv = (Inr (new_MResponse 200 ''Session set.'' sid), srv1)"
    "sid = dec_of_nat now @ dec_of_nat i" "i < 4294967295" "tidy srv1" "srvStaticIndexes srv1 = srvStaticIndexes srv"
    "srvSessions srv1 = srvSessions srv @ [p]" "session_view srv1 p = Some (sid, sample_values)"
    "\<forall>q \<in> set (srvSessions srv). session_view srv1 q = session_view srv q"
proof -
  obtain p srv0 where st: "startSession now srv = (p, srv0)" by fastforce
  obtain i where s0: "tidy srv0" "srvSessions srv0 = srvSessions srv @ [p]" "srvStaticIndexes srv0 = srvStaticIndexes srv"
    "session_view srv0 p = Some (dec_of_nat now @ dec_of_nat i, Map.empty)" "i < 4294967295"
    "\<forall>q \<in> set (srvSessions srv). session_view srv0 q = session_view srv q"
    by (rule tidy_startSession [OF t st])
  have p0: "p \<in> set (srvSessions srv0)" "p \<notin> set (srvSessions srv)"
    using s0(1,2) by (auto simp: tidy_def sessions_owned_def)
  let ?sid = "dec_of_nat now @ dec_of_nat i"
  obtain srv1 where s1: "at_setStringValue p ''var1'' ''val1'' srv0 = (Inr (), srv1)" "tidy srv1" "srvSessions srv1 = srvSessions srv0"
    "session_view srv1 p = Some (?sid, [''var1'' \<mapsto> ''val1''])" "\<forall>q \<in> set (srvSessions srv0) - {p}. session_view srv1 q = session_view srv0 q"
    "srvStaticIndexes srv1 = srvStaticIndexes srv0"
    by (rule tidy_at_setStringValue [OF s0(1) p0(1) s0(4), of "''var1''"]) simp
  obtain srv2 where s2: "at_setStringValue p ''var2'' ''val2'' srv1 = (Inr (), srv2)" "tidy srv2" "srvSessions srv2 = srvSessions srv1"
    "session_view srv2 p = Some (?sid, sample_values)" "\<forall>q \<in> set (srvSessions srv1) - {p}. session_view srv2 q = session_view srv1 q"
    "srvStaticIndexes srv2 = srvStaticIndexes srv1"
    by (rule tidy_at_setStringValue [OF s1(2) _ s1(4), of "''var2''"]) (use p0(1) s1(3) in simp_all)
  obtain ses2 where "srvHeap srv2 p = Some ses2" "sesID ses2 = ?sid" using s2(4) by (auto simp: session_view_def)
  then have "setSessionEndpoint now rq srv = (Inr (new_MResponse 200 ''Session set.'' ?sid), srv2)"
    using st s1(1) s2(1) by (simp add: setSessionEndpoint_def bind_act_def)
  moreover have "\<forall>q \<in> set (srvSessions srv). session_view srv2 q = session_view srv q"
    using s0(2,6) s1(3,5) s2(5) p0(2) by auto
  ultimately show thesis using s0 s1(3,6) s2 by (intro that [of ?sid srv2 i p]) simp_all
qed

lemma find_session_listed:
  "\<forall>p \<in> set ps. h p \<noteq> None \<Longrightarrow> \<exists>r. find_session h sid ps = Inr r \<and> (\<forall>p. r = Some p \<longrightarrow> p \<in> set ps)"
  by (induction ps) auto

lemma getSessionEndpoint_tidy:
  assumes "tidy srv"
  obtains resp where "getSessionEndpoint rq srv = (Inr resp, srv)"
proof -
  have "\<forall>p \<in> set (srvSessions srv). srvHeap srv p \<noteq> None" using tidyD [OF assms] by (metis option.distinct(1))
  from find_session_listed [OF this, of "rqSID rq"] obtain r where
    r: "getSession (rqSID rq) srv = Inr r" "\<forall>p. r = Some p \<longrightarrow> p \<in> set (srvSessions srv)" unfolding getSession_def by blast
  show thesis
  proof (cases r)
    case None
    with r that show thesis by (simp add: getSessionEndpoint_def)
  next
    case (Some p)
    with r obtain ses where "srvHeap srv p = Some ses" "ses_wf ses (srvMemory srv)" using tidyD [OF assms, of p] by auto
    with r Some that show thesis
      by (simp add: getSessionEndpoint_def at_getStringValue_def getStringValue_abs bind_act_def return_act_def)
  qed
qed

lemma sample_functions_keep: "functions_keep (\<lambda>i. sample_callbacks (clock i)) tidy"
  unfolding functions_keep_def
proof (intro allI impI)
  fix i p :: nat and rq srv
  assume t: "tidy srv"
  consider "p \<le> 1" | "p = 2" | "p > 2" by linarith
  then show "\<exists>resp srv1. sample_callbacks (clock i) p rq srv = (Inr resp, srv1) \<and> tidy srv1 \<and>
      srvStaticIndexes srv1 = srvStaticIndexes srv"
  proof cases
    case 1
    with t show ?thesis
      by (auto simp: sample_callbacks_def setCookieEndpoint_def getCookieEndpoint_def Let_def)
  next
    case 2
    obtain resp srv1 where
      "setSessionEndpoint (clock i) rq srv = (Inr resp, srv1)" "tidy srv1" "srvStaticIndexes srv1 = srvStaticIndexes srv"
      by (rule setSessionEndpoint_tidy [OF t, of "clock i" rq])
    with 2 show ?thesis by (simp add: sample_callbacks_def)
  next
    case 3
    from getSessionEndpoint_tidy [OF t, of rq] obtain resp where "getSessionEndpoint rq srv = (Inr resp, srv)" .
    with 3 t show ?thesis by (simp add: sample_callbacks_def)
  qed
qed

interpretation sample: endpoint_functions "\<lambda>i. sample_callbacks (clock i)" tidy
  by unfold_locales (rule sample_functions_keep)

section \<open>From \<open>main\<close> to its end\<close>

lemma sample_main_tidy:
  assumes "mem_ok m" "\<forall>x. memory.live m x = None"
  shows "tidy (sample_main m n)" "indexes_ok (sample_main m n)"
proof -
  note defs = sample_main_def setThreadLimit_def registerEndpoint_def registerStaticIndex_def addStaticDirectory_def
    setListenPort_def new_CServer_def addDefaultMimeTypes_def default_mime_types_def addMimeType_def
  have f: "srvSessions (sample_main m n) = []" "srvHeap (sample_main m n) = Map.empty" "srvMemory (sample_main m n) = m"
    by (simp_all add: defs)
  have "sessions_owned (sample_main m n)" using f assms(1) by (intro no_sessions_owned) simp_all
  with f assms(2) show "tidy (sample_main m n)" by (simp add: tidy_def)
  show "indexes_ok (sample_main m n)" by (simp add: indexes_ok_def defs)
qed

text \<open>\<open>CServer::dispose\<close> is \<open>delete this\<close>; \<open>main\<close> calls it after \<open>run\<close> has returned.\<close>

definition server_dispose :: "'d build \<Rightarrow> 'd owned \<Rightarrow> unit res \<times> 'd owned" where
  "server_dispose b ow = delete_CServer b ow"

definition sample_dispose :: "'d build \<Rightarrow> 'd pool \<Rightarrow> server \<Rightarrow> unit res \<times> 'd owned" where
  "sample_dispose b po srv =
    server_dispose b \<lparr>owServer = srv, owConfig = None, owNodes = [], owDatabase = Some po\<rparr>"


definition session_requests :: "CNode list" where
  "session_requests = [sample_node [''GET /api/session/set HTTP/1.1'', CRLF @ CRLF], sample_node [''GET /api/session/set HTTP/1.1'' @ CRLF, CRLF]]"


end
