(* ===== verification/Whole_Server.thy ===== *)
theory Whole_Server
  imports Stop_Connection Sample_Program
begin

text \<open>
  The server as a whole: the main thread and the workers of \<open>Stop_Connection\<close>, where the worker of each
  connection runs \<open>CNode::run\<close> as in \<open>Shared_Server\<close> on one server object (\<open>src/server/CServer.cpp\<close>,
  \<open>src/server/CNode.cpp\<close>). A worker gets its node with the thread, and only works on it between the
  registration of the node and \<open>removeNode\<close>, which it calls when its connection is closed.
\<close>

section \<open>Threads and connections together\<close>

record whole =
  whPort :: port_sys
  whHub :: hub

text \<open>The steps: of a peer, of the main thread or of \<open>stop\<close>; a thread that starts, with the identifier
  and the socket of its node; and a worker that goes on with its request.\<close>

datatype whole_event = Port port_event | Starts nat sock | Answers nat

definition whole_start :: "server \<Rightarrow> os \<Rightarrow> whole" where
  "whole_start srv fs = \<lparr>whPort = port_start (srvThreadLimit srv), whHub = hub_start srv fs []\<rparr>"

definition workers :: "whole \<Rightarrow> worker_pc list" where
  "workers w = asWorkers (ptLoop (whPort w))"

definition add_conns :: "CNode list \<Rightarrow> hub \<Rightarrow> hub" where
  "add_conns nds h = h\<lparr>huConns := huConns h @ map Arrived nds\<rparr>"

text \<open>A new thread has its own step, and \<open>removeNode\<close> comes after the last step of \<open>CNode::run\<close>.\<close>

fun port_free :: "port_event \<Rightarrow> hub \<Rightarrow> bool" where
  "port_free (Moves (Spawns created)) h \<longleftrightarrow> \<not> created"
| "port_free (Moves (Leaves i)) h \<longleftrightarrow> i < length (huConns h) \<and> steps_left (huConns h ! i) = 0"
| "port_free _ h \<longleftrightarrow> True"

definition whole_starts :: "nat \<Rightarrow> sock \<Rightarrow> whole \<Rightarrow> whole option" where
  "whole_starts i k w = map_option
    (\<lambda>p. \<lparr>whPort = p, whHub = (if length (asWorkers (ptLoop p)) > length (workers w)
       then add_conns [new_CNode i k] (whHub w) else whHub w)\<rparr>)
    (port_act (Moves (Spawns True)) (whPort w))"

definition whole_act :: "(nat \<Rightarrow> thread_env) \<Rightarrow> (nat \<Rightarrow> callbacks) \<Rightarrow> whole_event \<Rightarrow> whole \<Rightarrow> whole option" where
  "whole_act env cb e w =
    (if huAbort (whHub w) then None
     else case e of
       Port pe \<Rightarrow> if port_free pe (whHub w) then map_option (\<lambda>p. w\<lparr>whPort := p\<rparr>) (port_act pe (whPort w)) else None
     | Starts i k \<Rightarrow> whole_starts i k w
     | Answers i \<Rightarrow> if worker_at (ptLoop (whPort w)) i = Some Running
         then Some (w\<lparr>whHub := conn_step env cb i (whHub w)\<rparr>) else None)"

fun whole_run :: "(nat \<Rightarrow> thread_env) \<Rightarrow> (nat \<Rightarrow> callbacks) \<Rightarrow> whole_event list \<Rightarrow> whole \<Rightarrow> whole option" where
  "whole_run env cb [] w = Some w"
| "whole_run env cb (e # es) w = Option.bind (whole_act env cb e w) (whole_run env cb es)"

text \<open>The nodes of the threads that were to be started.\<close>

fun nodes_of :: "whole_event list \<Rightarrow> CNode list" where
  "nodes_of [] = []"
| "nodes_of (Starts i k # es) = new_CNode i k # nodes_of es"
| "nodes_of (_ # es) = nodes_of es"

text \<open>The workers that went on with their requests, in the order of their steps.\<close>

fun answers_of :: "whole_event list \<Rightarrow> nat list" where
  "answers_of [] = []"
| "answers_of (Answers i # es) = i # answers_of es"
| "answers_of (_ # es) = answers_of es"

lemma nodes_of_append: "nodes_of (es @ es1) = nodes_of es @ nodes_of es1"
  by (induction es rule: nodes_of.induct) simp_all

section \<open>The parts of a step\<close>

lemma whole_act_cases:
  assumes "whole_act env cb e w = Some v"
  obtains (port) pe where "e = Port pe" "port_free pe (whHub w)" "port_act pe (whPort w) = Some (whPort v)" "whHub v = whHub w"
  | (starts) i k where "e = Starts i k" "port_act (Moves (Spawns True)) (whPort w) = Some (whPort v)"
      "whHub v = (if length (workers v) > length (workers w) then add_conns [new_CNode i k] (whHub w) else whHub w)"
  | (answers) i where "e = Answers i" "worker_at (ptLoop (whPort w)) i = Some Running" "whPort v = whPort w"
      "whHub v = conn_step env cb i (whHub w)"
  using assms by (cases e) (auto simp: whole_act_def whole_starts_def workers_def split: if_splits)

text \<open>What a step of the loop does to the workers.\<close>

fun waiting :: "worker_pc \<Rightarrow> bool" where
  "waiting (Spinning _) \<longleftrightarrow> True"
| "waiting (Named _) \<longleftrightarrow> True"
| "waiting _ \<longleftrightarrow> False"

fun gone_on :: "worker_pc \<Rightarrow> bool" where
  "gone_on Removed \<longleftrightarrow> True"
| "gone_on Gone \<longleftrightarrow> True"
| "gone_on _ \<longleftrightarrow> False"

lemma set_worker_workers [simp]: "asWorkers (set_worker w pc s) = (asWorkers s)[w := pc]"
  by (simp add: set_worker_def)

lemma accept_act_workers:
  assumes "accept_act e s = Some t" "e \<noteq> Spawns True"
  shows "length (asWorkers t) = length (asWorkers s) \<and> (\<forall>i < length (asWorkers s).
    (waiting (asWorkers t ! i) \<longrightarrow> waiting (asWorkers s ! i)) \<and>
    (gone_on (asWorkers t ! i) \<longrightarrow> gone_on (asWorkers s ! i) \<or> e = Leaves i))"
proof -
  have a: "accept_event_act e s = Some t" using assms(1) by (simp add: accept_act_def split: if_splits)
  have one: "length xs = length (asWorkers s) \<and> (\<forall>i < length (asWorkers s). (waiting (xs ! i) \<longrightarrow> waiting (asWorkers s ! i)) \<and>
      (gone_on (xs ! i) \<longrightarrow> gone_on (asWorkers s ! i) \<or> e = Leaves i))"
    if "xs = (asWorkers s)[w := pc]" "waiting pc \<longrightarrow> waiting (asWorkers s ! w)" "gone_on pc \<longrightarrow> gone_on (asWorkers s ! w) \<or> e = Leaves w"
    for xs w pc
  proof -
    have "xs ! i = (if i = w then pc else asWorkers s ! i)" if "i < length (asWorkers s)" for i
      using that \<open>xs = _\<close> by simp
    with that show ?thesis by simp
  qed
  show ?thesis
  proof (cases e)
    case Names
    then obtain w v where "worker_at s w = Some (Spinning v)" "asWorkers t = (asWorkers s)[w := Named v]"
      using a by (auto simp: main_name_def split: main_pc.splits option.splits worker_pc.splits)
    then show ?thesis by (intro one [of _ w "Named v"]) (auto dest: worker_at_lt)
  next
    case (Enters w)
    then obtain v where v: "worker_at s w = Some (Named v)"
      "asWorkers t = (if v then (asWorkers s)[w := Running] else asWorkers s)"
      using a by (auto simp: worker_enter_def split: option.splits worker_pc.splits)
    then show ?thesis
    proof (cases v)
      case True
      with v show ?thesis by (intro one [of _ w Running]) simp_all
    qed simp
  next
    case (Leaves w)
    then have "asWorkers t = (asWorkers s)[w := Removed]" using a by (auto simp: node_dispose_def removeNode_def split: if_splits)
    with Leaves show ?thesis by (intro one [of _ w Removed]) simp_all
  next
    case (Ends w)
    then have "worker_at s w = Some Removed" "asWorkers t = (asWorkers s)[w := Gone]"
      using a by (auto simp: worker_end_def split: if_splits)
    then show ?thesis by (intro one [of _ w Gone]) (auto dest: worker_at_lt)
  next
    case (Spawns c)
    with a assms(2) show ?thesis by (auto simp: main_spawn_def split: main_pc.splits if_splits)
  qed (use a in \<open>auto simp: main_test_def main_accept_def main_drain_def server_stop_def
      split: main_pc.splits if_splits option.splits worker_pc.splits\<close>)
qed

lemma port_act_workers:
  assumes "port_act e p = Some q" "e \<noteq> Moves (Spawns True)"
  shows "length (asWorkers (ptLoop q)) = length (asWorkers (ptLoop p)) \<and> (\<forall>i < length (asWorkers (ptLoop p)).
    (waiting (asWorkers (ptLoop q) ! i) \<longrightarrow> waiting (asWorkers (ptLoop p) ! i)) \<and>
    (gone_on (asWorkers (ptLoop q) ! i) \<longrightarrow> gone_on (asWorkers (ptLoop p) ! i) \<or> e = Moves (Leaves i)))"
proof (cases e)
  case (Moves e1)
  with assms obtain s where s: "q = port_moved s p" "accept_act e1 (ptLoop p) = Some s" "e1 \<noteq> Spawns True"
    using port_move_loop [of e1 p q] by auto
  from accept_act_workers [OF s(2,3)] s(1) Moves show ?thesis by simp
next
  case Takes
  with assms obtain s where "ptLoop q = s" "accept_act (Accepts True) (ptLoop p) = Some s" by (auto split: if_splits)
  with accept_act_workers [of "Accepts True" "ptLoop p" s] show ?thesis by auto
next
  case Sets_Stop
  with assms obtain s where "ptLoop q = s" "accept_act Stops (ptLoop p) = Some s" by (auto simp: stop_flag_def)
  with accept_act_workers [of Stops "ptLoop p" s] show ?thesis by auto
qed (use assms in \<open>auto simp: stop_connect_def split: if_splits\<close>)

lemma spawn_workers:
  assumes "port_act (Moves (Spawns True)) p = Some q"
  shows "asWorkers (ptLoop q) = asWorkers (ptLoop p) \<or>
    \<not> asStopSignal (ptLoop p) \<and> (\<exists>v. asWorkers (ptLoop q) = asWorkers (ptLoop p) @ [Spinning v])"
  using assms by (auto simp: accept_act_def main_spawn_def split: if_splits main_pc.splits)

section \<open>The connections of the whole server\<close>

lemma conn_step_others: "length (huConns (conn_step env cb i h)) = length (huConns h)"
  "j \<noteq> i \<Longrightarrow> huConns (conn_step env cb i h) ! j = huConns h ! j"
  by (auto simp: conn_step_def split: prod.split sum.split)

lemma conn_step_add:
  "i < length (huConns h) \<Longrightarrow> conn_step env cb i (add_conns rest h) = add_conns rest (conn_step env cb i h)"
  by (auto simp: conn_step_def add_conns_def nth_append list_update_append split: prod.split sum.split)

lemma add_conns_add: "add_conns b (add_conns a h) = add_conns (a @ b) h"
  by (simp add: add_conns_def)

lemma add_conns_nil [simp]: "add_conns [] h = h"
  by (simp add: add_conns_def)

text \<open>Each worker has its connection: untouched before the node is registered, finished after its removal.\<close>

definition paired :: "whole \<Rightarrow> bool" where
  "paired w \<longleftrightarrow> port_inv (whPort w) \<and> length (huConns (whHub w)) = length (workers w) \<and>
    (\<forall>i < length (workers w). (waiting (workers w ! i) \<longrightarrow> steps_left (huConns (whHub w) ! i) = 5) \<and>
       (gone_on (workers w ! i) \<longrightarrow> steps_left (huConns (whHub w) ! i) = 0))"

lemma paired_start:
  assumes "srvThreadLimit srv \<noteq> - 1"
  shows "paired (whole_start srv fs)"
proof -
  have "port_starts (port_start (srvThreadLimit srv))"
    using assms by (auto simp: port_starts_def port_start_def run_starts_def run_start_def)
  then show ?thesis
    using port_machine.inv_start by (simp add: paired_def whole_start_def workers_def hub_start_def port_start_def run_start_def)
qed

lemma paired_step:
  assumes "paired w" "whole_act env cb e w = Some v"
  shows "paired v"
  using assms(2)
proof (cases rule: whole_act_cases)
  case (port pe)
  have "pe \<noteq> Moves (Spawns True)" using port(2) by auto
  note c = port_act_workers [OF port(3) this]
  have "steps_left (huConns (whHub w) ! i) = 0" if "pe = Moves (Leaves i)" for i using port(2) that by simp
  with c assms(1) port_act_inv [OF _ port(3)] port(4) show ?thesis by (auto simp: paired_def workers_def)
next
  case (starts i k)
  with spawn_workers [OF starts(2)] assms(1) port_act_inv [OF _ starts(2)] show ?thesis
    by (auto simp: paired_def workers_def add_conns_def nth_append less_Suc_eq)
next
  case (answers i)
  then have "workers w ! i = Running" by (auto simp: workers_def dest: worker_at_lt)
  then have "\<not> waiting (workers w ! i)" "\<not> gone_on (workers w ! i)" by simp_all
  then show ?thesis
    using answers assms(1) conn_step_others(1) [of env cb i "whHub w"] conn_step_others(2) [of _ i env cb "whHub w"]
    unfolding paired_def workers_def by metis
qed

text \<open>A run of the whole server is a run of the connections that are ever started, all there from the
  beginning.\<close>

lemma whole_run_hub:
  assumes "whole_run env cb es w = Some v" "paired w"
  shows "paired v \<and> (\<exists>nds. subseq nds (nodes_of es) \<and>
    (\<forall>rest. add_conns rest (whHub v) = conns_run env cb (answers_of es) (add_conns (nds @ rest) (whHub w))))"
  using assms
proof (induction es arbitrary: w)
  case Nil
  then show ?case by (intro conjI exI [of _ "[]"]) (simp_all add: conns_run_def)
next
  case (Cons e es)
  then obtain u where u: "whole_act env cb e w = Some u" "whole_run env cb es u = Some v" by (auto simp: bind_eq_Some_conv)
  from Cons.IH [OF u(2) paired_step [OF Cons.prems(2) u(1)]] obtain nds where
    IH: "paired v" "subseq nds (nodes_of es)" "\<And>rest. add_conns rest (whHub v) = conns_run env cb (answers_of es) (add_conns (nds @ rest) (whHub u))" by blast
  from u(1) show ?case
  proof (cases rule: whole_act_cases)
    case (port pe)
    with IH show ?thesis by (intro conjI exI [of _ nds]) simp_all
  next
    case (starts i k)
    show ?thesis
    proof (cases "length (workers u) > length (workers w)")
      case True
      with starts IH show ?thesis
        by (intro conjI exI [of _ "new_CNode i k # nds"]) (simp_all add: add_conns_add)
    next
      case False
      with starts IH list_emb_Cons [OF IH(2)] show ?thesis by (intro conjI exI [of _ nds]) simp_all
    qed
  next
    case (answers i)
    have "i < length (huConns (whHub w))"
      using answers(2) Cons.prems(2) by (auto simp: paired_def workers_def dest: worker_at_lt)
    with answers IH show ?thesis
      by (intro conjI exI [of _ nds]) (simp_all add: conns_run_def conn_step_add)
  qed
qed

lemma whole_server_in_turn:
  assumes "srvThreadLimit srv \<noteq> - 1" and "\<forall>i. keeps_endpoints (cb i)"
    and "whole_run env cb es (whole_start srv fs) = Some w" and "\<not> huAbort (whHub w)"
  obtains nds order outs where "subseq nds (nodes_of es)" "length nds = length (workers w)" "distinct order"
    "subseq order (answers_of es)" "set order \<subseteq> {..<length nds}"
    "serve_in_turn env cb nds order (srv, fs) = Some (outs, (huServer (whHub w), huFiles (whHub w)))"
    "\<forall>i < length nds. gone_on (workers w ! i) \<longrightarrow> (\<exists>nd. (i, nd) \<in> set outs \<and> huConns (whHub w) ! i = Served nd)"
    "\<forall>i < length nds. waiting (workers w ! i) \<longrightarrow> i \<notin> set order"
proof -
  note start = paired_start [OF assms(1), of fs]
  from whole_run_hub [OF assms(3) start] obtain nds where w: "paired w" "subseq nds (nodes_of es)"
    "whHub w = conns_run env cb (answers_of es) (add_conns nds (whHub (whole_start srv fs)))" by (metis append_Nil2 add_conns_nil)
  then have run: "whHub w = conns_run env cb (answers_of es) (hub_start srv fs nds)" by (simp add: whole_start_def hub_start_def add_conns_def)
  obtain order where o: "subseq order (answers_of es)" "in_turn env cb nds srv fs order (whHub w)"
    using conns_run_in_turn [where cb = cb and env = env and sched = "answers_of es" and srv = srv and fs = fs and nds = nds] assms(2,4) run by auto
  obtain outs where outs: "serve_in_turn env cb nds order (srv, fs) = Some (outs, (huServer (whHub w), huFiles (whHub w)))"
    "\<And>i nd. (i, nd) \<in> set outs \<Longrightarrow> settle (env i) (huConns (whHub w) ! i) = Some nd" using o(2) unfolding in_turn_def by fast
  have len: "length nds = length (workers w)" "distinct order"
    and mem: "\<And>i. i \<in> set order \<longleftrightarrow> i < length nds \<and> settle (env i) (huConns (whHub w) ! i) \<noteq> None"
    using o(2) w(1) by (auto simp: in_turn_def paired_def)
  have "\<exists>nd. (i, nd) \<in> set outs \<and> huConns (whHub w) ! i = Served nd" if i: "i < length nds" "gone_on (workers w ! i)" for i
  proof -
    have "steps_left (huConns (whHub w) ! i) = 0" using w(1) i len(1) by (simp add: paired_def)
    then obtain nd where nd: "huConns (whHub w) ! i = Served nd" by (cases "huConns (whHub w) ! i") auto
    then have "i \<in> fst ` set outs" using mem [of i] i(1) serve_outs [OF outs(1)] by (simp flip: list.set_map)
    with outs(2) nd show ?thesis by force
  qed
  moreover have "i \<notin> set order" if i: "i < length nds" "waiting (workers w ! i)" for i
  proof -
    have "steps_left (huConns (whHub w) ! i) = 5" using w(1) i len(1) by (simp add: paired_def)
    then show ?thesis using mem [of i] by (cases "huConns (whHub w) ! i") auto
  qed
  moreover have "set order \<subseteq> {..<length nds}" using mem by auto
  ultimately show thesis using that w(2) len o(1) outs(1) by blast
qed


section \<open>The whole server comes to its end\<close>

definition node_open :: "CNode \<Rightarrow> bool" where
  "node_open nd \<longleftrightarrow> chan_ok (chan (ndSocket nd))"

definition hub_ok :: "(server \<Rightarrow> bool) \<Rightarrow> hub \<Rightarrow> bool" where
  "hub_ok holds h \<longleftrightarrow> \<not> huAbort h \<and> fs_ok (huFiles h) \<and> indexes_ok (huServer h) \<and> holds (huServer h) \<and>
    (\<forall>st \<in> set (huConns h). can_read st)"

definition whole_ok :: "(server \<Rightarrow> bool) \<Rightarrow> whole \<Rightarrow> bool" where
  "whole_ok holds w \<longleftrightarrow> paired w \<and> hub_ok holds (whHub w)"

definition whole_rank :: "whole \<Rightarrow> nat" where
  "whole_rank w = port_rank (whPort w) + sum_list (map steps_left (huConns (whHub w)))"

definition same_threads :: "whole \<Rightarrow> whole \<Rightarrow> bool" where
  "same_threads v w \<longleftrightarrow> ptLoop (whPort v) = ptLoop (whPort w) \<and> ptStopping (whPort v) = ptStopping (whPort w) \<and> whHub v = whHub w"

text \<open>The steps that need nobody outside the server.\<close>

definition own_step :: "whole_event \<Rightarrow> bool" where
  "own_step e \<longleftrightarrow> e \<noteq> Port Peer \<and> e \<noteq> Port Sets_Stop"

definition finished :: "whole \<Rightarrow> bool" where
  "finished w \<longleftrightarrow> asMain (ptLoop (whPort w)) = Returned \<and> set (workers w) \<subseteq> {Gone}"

lemma finishedI: "asMain (ptLoop (whPort w)) = Returned \<Longrightarrow> \<not> Accept_Loop.live (ptLoop (whPort w)) > 0 \<Longrightarrow> finished w"
  by (auto simp: finished_def workers_def Accept_Loop.live_def filter_empty_conv)

lemma finished_served:
  assumes "finished w" "paired w" "i < length (huConns (whHub w))"
  shows "\<exists>nd. huConns (whHub w) ! i = Served nd"
proof -
  have i: "i < length (workers w)" using assms(2,3) by (simp add: paired_def)
  then have "workers w ! i = Gone" using assms(1) by (auto simp: finished_def dest: nth_mem)
  then have "steps_left (huConns (whHub w) ! i) = 0" using assms(2) i by (simp add: paired_def)
  then show ?thesis by (cases "huConns (whHub w) ! i") auto
qed

lemma can_read_new: "can_read (Arrived (new_CNode i k)) \<longleftrightarrow> node_open (new_CNode i k)"
  by (simp add: node_open_def new_CNode_def setTimeout_def setThrowExceptions_def)

lemma whole_stopping_workers:
  assumes "port_stopping p" "port_act (Moves (Spawns True)) p = Some q"
  shows "asWorkers (ptLoop q) = asWorkers (ptLoop p)"
  using spawn_workers [OF assms(2)] assms(1) by (auto simp: port_stopping_def heard_def)

context endpoint_functions
begin

lemma answer_step:
  assumes ok: "hub_ok holds h" and len: "\<forall>i. length (teFbuf (env i)) = 512" and i: "i < length (huConns h)"
  obtains st where "huConns (conn_step env cb i h) = (huConns h)[i := st]" "steps_left st \<le> steps_left (huConns h ! i) - 1"
    "hub_ok holds (conn_step env cb i h)"
proof -
  have h: "\<not> huAbort h" "fs_ok (huFiles h)" "indexes_ok (huServer h)" "holds (huServer h)" "can_read (huConns h ! i)"
    using ok i by (simp_all add: hub_ok_def)
  have "serves (env i) (cb i) holds (huConns h ! i) (huServer h) (huFiles h)"
    using stage_serves assms(2) h by blast
  then obtain st srv fs where st: "stage_act (env i) (cb i) (huConns h ! i) (huServer h, huFiles h) = (Inr st, (srv, fs))"
    "can_read st" "fs_ok fs" "indexes_ok srv" "holds srv" "steps_left st \<le> steps_left (huConns h ! i) - 1"
    unfolding serves_def by blast
  have c: "conn_step env cb i h = h\<lparr>huServer := srv, huFiles := fs, huConns := (huConns h)[i := st]\<rparr>"
    using st(1) h(1) i by (simp add: conn_step_def)
  have "can_read x" if "x \<in> set ((huConns h)[i := st])" for x
    using that set_update_subset_insert [of "huConns h" i st] st(2) ok by (auto simp: hub_ok_def)
  with c st h that show thesis by (simp add: hub_ok_def)
qed

lemma answer_rank:
  assumes "hub_ok holds h" "\<forall>i. length (teFbuf (env i)) = 512" "i < length (huConns h)" "steps_left (huConns h ! i) > 0"
  shows "sum_list (map steps_left (huConns (conn_step env cb i h))) < sum_list (map steps_left (huConns h))"
proof -
  obtain st where st: "huConns (conn_step env cb i h) = (huConns h)[i := st]" "steps_left st \<le> steps_left (huConns h ! i) - 1"
    by (rule answer_step [OF assms(1-3)])
  with rank_update [OF assms(3), of steps_left st] assms(4) show ?thesis unfolding st(1) by linarith
qed

lemma whole_ok_step:
  assumes "whole_ok holds w" "\<forall>i. length (teFbuf (env i)) = 512" "whole_act env cb e w = Some v" "\<forall>nd \<in> set (nodes_of [e]). node_open nd"
  shows "whole_ok holds v"
proof -
  have p: "paired w" "paired v" using assms(1,3) paired_step by (auto simp: whole_ok_def)
  from assms(3) have "hub_ok holds (whHub v)"
  proof (cases rule: whole_act_cases)
    case (starts i k)
    with assms(1,4) can_read_new [of i k] show ?thesis by (auto simp: whole_ok_def hub_ok_def add_conns_def)
  next
    case (answers i)
    then have "i < length (huConns (whHub w))" using p(1) by (auto simp: paired_def workers_def dest: worker_at_lt)
    from answer_step [OF _ assms(2) this] assms(1) answers(4) show ?thesis by (metis whole_ok_def)
  qed (use assms(1) in \<open>simp add: whole_ok_def\<close>)
  with p(2) show ?thesis by (simp add: whole_ok_def)
qed

lemma whole_ok_run:
  assumes "whole_run env cb es w = Some v" "whole_ok holds w" "\<forall>i. length (teFbuf (env i)) = 512" "\<forall>nd \<in> set (nodes_of es). node_open nd"
  shows "whole_ok holds v"
  using assms
proof (induction es arbitrary: w)
  case (Cons e es)
  then obtain u where u: "whole_act env cb e w = Some u" "whole_run env cb es u = Some v" by (auto simp: bind_eq_Some_conv)
  have "\<forall>nd \<in> set (nodes_of [e]). node_open nd" "\<forall>nd \<in> set (nodes_of es). node_open nd" using Cons.prems(4) by (cases e; simp)+
  with Cons.IH [OF u(2)] whole_ok_step [OF Cons.prems(2,3) u(1)] Cons.prems(3) show ?case by blast
qed simp

lemma whole_nearer:
  assumes "whole_ok holds w" "port_stopping (whPort w)" "\<forall>i. length (teFbuf (env i)) = 512"
    and "whole_act env cb e w = Some v" "e \<noteq> Port Sets_Stop"
  shows "(same_threads v w \<or> whole_rank v < whole_rank w) \<and> port_stopping (whPort v)"
  using assms(4)
proof (cases rule: whole_act_cases)
  case (port pe)
  with assms(5) port_nearer [OF assms(2) port(3)] port_stopping_step [OF assms(2) port(3)] show ?thesis
    by (auto simp: same_threads_def whole_rank_def)
next
  case (starts i k)
  have "whHub v = whHub w"
    using starts(3) whole_stopping_workers [OF assms(2) starts(2)] by (simp add: workers_def)
  with port_nearer [OF assms(2) starts(2)] port_stopping_step [OF assms(2) starts(2)] show ?thesis
    by (auto simp: same_threads_def whole_rank_def)
next
  case (answers i)
  have i: "i < length (huConns (whHub w))" "hub_ok holds (whHub w)"
    using answers(2) assms(1) by (auto simp: whole_ok_def paired_def workers_def dest: worker_at_lt)
  show ?thesis
  proof (cases "steps_left (huConns (whHub w) ! i) > 0")
    case True
    with answer_rank [OF i(2) assms(3) i(1)] answers(3,4) assms(2) show ?thesis by (simp add: whole_rank_def)
  next
    case False
    then obtain nd where "huConns (whHub w) ! i = Served nd" by (cases "huConns (whHub w) ! i") auto
    then have "conn_step env cb i (whHub w) = whHub w" by (simp add: conn_step_def list_update_same_conv i(1))
    with answers(3,4) assms(2) show ?thesis by (simp add: same_threads_def)
  qed
qed

lemma whole_progress:
  assumes "whole_ok holds w" "port_stopping (whPort w)" "\<forall>i. length (teFbuf (env i)) = 512" "\<not> finished w"
  obtains e v where "own_step e" "nodes_of [e] = []" "whole_act env cb e w = Some v" "whole_rank v < whole_rank w"
proof -
  have "asMain (ptLoop (whPort w)) \<noteq> Returned \<or> Accept_Loop.live (ptLoop (whPort w)) > 0" using assms(4) finishedI by blast
  then obtain pe q where pe: "pe \<notin> {Peer, Sets_Stop, Moves (Spawns True)}" "port_act pe (whPort w) = Some q" "port_rank q < port_rank (whPort w)"
    using port_progress [OF assms(2)] by blast
  have alive: "\<not> huAbort (whHub w)" "hub_ok holds (whHub w)" using assms(1) by (simp_all add: whole_ok_def hub_ok_def)
  show thesis
  proof (cases "port_free pe (whHub w)")
    case True
    with pe alive(1) show thesis by (intro that [of "Port pe" "w\<lparr>whPort := q\<rparr>"]) (auto simp: own_step_def whole_act_def whole_rank_def)
  next
    case False
    with pe(1) obtain i where i: "pe = Moves (Leaves i)" by (cases "(pe, whHub w)" rule: port_free.cases) auto
    then have run: "worker_at (ptLoop (whPort w)) i = Some Running"
      using pe(2) by (auto simp: accept_act_def node_dispose_def split: if_splits)
    then have len: "i < length (huConns (whHub w))" using assms(1) by (auto simp: whole_ok_def paired_def workers_def dest: worker_at_lt)
    with False i have "steps_left (huConns (whHub w) ! i) > 0" by simp
    from answer_rank [OF alive(2) assms(3) len this] run alive(1) show thesis
      by (intro that [of "Answers i" "w\<lparr>whHub := conn_step env cb i (whHub w)\<rparr>"]) (auto simp: own_step_def whole_act_def whole_rank_def)
  qed
qed

lemma whole_finishes:
  assumes "whole_ok holds w" "port_stopping (whPort w)" "\<forall>i. length (teFbuf (env i)) = 512"
  shows "\<exists>es v. (\<forall>e \<in> set es. own_step e) \<and> whole_run env cb es w = Some v \<and> finished v \<and> whole_ok holds v \<and> length es \<le> whole_rank w
    \<and> nodes_of es = []"
  using assms
proof (induction "whole_rank w" arbitrary: w rule: less_induct)
  case less
  show ?case
  proof (cases "finished w")
    case True
    with less.prems(1) show ?thesis by (intro exI [of _ "[]"] exI [of _ w]) simp
  next
    case False
    obtain e u where e: "own_step e" "nodes_of [e] = []" "whole_act env cb e w = Some u" "whole_rank u < whole_rank w"
      by (rule whole_progress [OF less.prems False])
    have "e \<noteq> Port Sets_Stop" using e(1) by (simp add: own_step_def)
    from whole_nearer [OF less.prems e(3) this] whole_ok_step [OF less.prems(1,3) e(3)] e(2) have
      "whole_ok holds u" "port_stopping (whPort u)" by simp_all
    from less.hyps [OF e(4) this less.prems(3)] obtain es v where "\<forall>e \<in> set es. own_step e" "whole_run env cb es u = Some v"
      "finished v" "whole_ok holds v" "length es \<le> whole_rank u" "nodes_of es = []" by blast
    with e nodes_of_append [of "[e]" es] show ?thesis by (intro exI [of _ "e # es"] exI [of _ v]) auto
  qed
qed

end

lemma whole_run_append:
  "whole_run env cb (es @ es1) w = Option.bind (whole_run env cb es w) (whole_run env cb es1)"
  by (induction es arbitrary: w) (auto split: bind_splits)

lemma whole_run_port:
  assumes "whole_run env cb es w = Some v" "ptListening (whPort v)" "whole_act env cb (Port Sets_Stop) v = Some u"
  shows "heard (whPort u)"
  using assms(2,3) by (auto simp: whole_act_def split: if_splits intro: stop_heard)

lemma heard_whole:
  "whole_run env cb es w = Some v \<Longrightarrow> paired w \<Longrightarrow> heard (whPort w) \<Longrightarrow> heard (whPort v)"
proof (induction es arbitrary: w)
  case (Cons e es)
  then obtain u where u: "whole_act env cb e w = Some u" "whole_run env cb es u = Some v" by (auto simp: bind_eq_Some_conv)
  have inv: "port_inv (whPort w)" using Cons.prems(2) by (simp add: paired_def)
  from u(1) have "heard (whPort u)"
    by (cases rule: whole_act_cases) (use Cons.prems(3) inv heard_step in \<open>metis+\<close>)
  with Cons.IH [OF u(2) paired_step [OF Cons.prems(2) u(1)]] show ?case by simp
qed simp


section \<open>The sample program as an example\<close>

text \<open>One connection is accepted and given to a worker.\<close>

definition one_connection :: "sock \<Rightarrow> whole_event list" where
  "one_connection k = [Port (Moves Tests), Port (Moves Tests), Port Peer, Port Takes, Starts 7 k,
    Port (Moves Names), Port (Moves (Enters 0)), Port (Moves Tests), Port (Moves Tests)]"

definition sample_moves :: "whole_event list" where
  "sample_moves = one_connection (plain_sock (idle_channel\<lparr>rx := [''GET /api/session/set HTTP/1.1'' @ CRLF, CRLF]\<rparr>))"

lemma one_connection_run:
  assumes "1 \<le> srvThreadLimit srv"
  obtains w v where "whole_run env cb (one_connection k) (whole_start srv fs) = Some w" "ptListening (whPort w)"
    "whole_run env cb [Port Sets_Stop] w = Some v" "asFailed (ptLoop (whPort v)) = 0" "workers v = [Running]"
    "length (huConns (whHub v)) = 1"
proof -
  have "srvThreadLimit srv \<noteq> 0"
  proof
    assume "srvThreadLimit srv = 0"
    with assms show False by simp
  qed
  moreover from this have "\<not> srvThreadLimit srv < 1" "\<not> srvThreadLimit srv < 0" by simp_all
  ultimately have "case whole_run env cb (one_connection k) (whole_start srv fs) of None \<Rightarrow> False
    | Some w \<Rightarrow> ptListening (whPort w) \<and> (case whole_run env cb [Port Sets_Stop] w of None \<Rightarrow> False
      | Some v \<Rightarrow> asFailed (ptLoop (whPort v)) = 0 \<and> workers v = [Running] \<and> length (huConns (whHub v)) = 1)"
    by (simp add: one_connection_def whole_act_def whole_start_def whole_starts_def port_start_def run_start_def
        hub_start_def workers_def accept_act_def main_test_def main_accept_def main_spawn_def main_name_def
        worker_enter_def port_moved_def connect_port_def SOMAXCONN_def worker_at_def set_worker_def stop_flag_def server_stop_def
        add_conns_def)
  with that show thesis by (auto split: option.splits)
qed

lemma one_connection_nodes: "nodes_of (one_connection k) = [new_CNode 7 k]"
  by (simp add: one_connection_def)

lemma conns_run_length: "length (huConns (conns_run env cb sched h)) = length (huConns h)"
  unfolding conns_run_def by (induction sched arbitrary: h) (simp_all add: conn_step_others)

lemma whole_run_conns:
  assumes "whole_run env cb es w = Some v" "paired w"
  shows "length (huConns (whHub w)) \<le> length (huConns (whHub v))"
proof -
  obtain nds where "add_conns [] (whHub v) = conns_run env cb (answers_of es) (add_conns (nds @ []) (whHub w))"
    using whole_run_hub [OF assms] by blast
  then have "whHub v = conns_run env cb (answers_of es) (add_conns nds (whHub w))" by simp
  then show ?thesis by (simp add: conns_run_length) (simp add: add_conns_def)
qed

lemma sample_whole_ok:
  "functions_keep (\<lambda>_. sample_callbacks 0) tidy" "tidy (sample_main no_memory 0)" "indexes_ok (sample_main no_memory 0)" "fs_ok sample_fs"
  "\<forall>i. length (teFbuf (sample_env i)) = 512" "srvThreadLimit (sample_main no_memory 0) \<noteq> - 1" "\<forall>nd \<in> set (nodes_of sample_moves). node_open nd"
  "1 \<le> srvThreadLimit (sample_main no_memory 0)"
proof -
  have "mem_ok no_memory" "\<forall>x. memory.live no_memory x = None" by (simp_all add: mem_ok_def no_memory_def)
  then show "tidy (sample_main no_memory 0)" "indexes_ok (sample_main no_memory 0)" by (rule sample_main_tidy)+
  show "functions_keep (\<lambda>_. sample_callbacks 0) tidy" by (rule sample_functions_keep)
  show "fs_ok sample_fs" using sample_world_ok(2) [of "[]"] by (simp add: sample_world_def)
  show "\<forall>nd \<in> set (nodes_of sample_moves). node_open nd"
    by (simp add: sample_moves_def one_connection_nodes node_open_def new_CNode_def plain_sock_def new_sock_def setTimeout_def setThrowExceptions_def
        chan_def chan_ok_def idle_channel_def)
qed (simp_all add: sample_env_def sample_main_def setThreadLimit_def)


lemma sample_keeps_endpoints: "keeps_endpoints (sample_callbacks now)"
  by (auto simp: keeps_endpoints_def sample_callbacks_def setCookieEndpoint_def getCookieEndpoint_def setSessionEndpoint_def
      getSessionEndpoint_def startSession_def at_setStringValue_def at_getStringValue_def bind_act_def return_act_def Let_def
      split: prod.splits sum.splits option.splits)

text \<open>After that and a call of \<open>stop\<close>, the server comes to its end.\<close>

lemma one_connection_finishes:
  assumes "functions_keep cb holds" "holds srv" "indexes_ok srv" "fs_ok fs" "\<forall>i. length (teFbuf (env i)) = 512"
    and "srvThreadLimit srv \<noteq> - 1" "1 \<le> srvThreadLimit srv" "node_open (new_CNode 7 k)"
  obtains es u where "whole_run env cb (one_connection k @ Port Sets_Stop # es) (whole_start srv fs) = Some u" "finished u"
    "\<not> huAbort (whHub u)" "workers u \<noteq> []" "nodes_of es = []"
proof -
  let ?start = "whole_start srv fs"
  note ef = endpoint_functions.intro [OF assms(1)]
  obtain w v where w: "whole_run env cb (one_connection k) ?start = Some w" "ptListening (whPort w)"
    "whole_run env cb [Port Sets_Stop] w = Some v" "asFailed (ptLoop (whPort v)) = 0" "length (huConns (whHub v)) = 1"
    by (rule one_connection_run [OF assms(7)])
  have ok0: "whole_ok holds ?start"
    using paired_start [OF assms(6)] assms(2-4) by (simp add: whole_ok_def hub_ok_def whole_start_def hub_start_def)
  have ok: "whole_ok holds v"
    by (rule endpoint_functions.whole_ok_run [OF ef w(3) endpoint_functions.whole_ok_run [OF ef w(1) ok0]])
      (use assms(5,8) in \<open>simp_all add: one_connection_nodes\<close>)
  have x: "whole_act env cb (Port Sets_Stop) w = Some v"
    using w(3) by (auto simp: bind_eq_Some_conv)
  then have "heard (whPort v)" using whole_run_port [OF w(1,2)] by blast
  with ok w(4) have "port_stopping (whPort v)" by (simp add: port_stopping_def whole_ok_def paired_def)
  from endpoint_functions.whole_finishes [OF ef ok this assms(5)] obtain es u where
    u: "\<forall>e \<in> set es. own_step e" "whole_run env cb es v = Some u" "finished u" "whole_ok holds u" "nodes_of es = []" by blast
  have "whole_run env cb (one_connection k @ Port Sets_Stop # es) ?start = Some u"
    using w(1) x u(2) by (simp add: whole_run_append)
  moreover have "workers u \<noteq> []"
    using whole_run_conns [OF u(2)] ok u(4) w(5) by (auto simp: whole_ok_def paired_def)
  ultimately show thesis using that u(3-5) by (auto simp: whole_ok_def hub_ok_def)
qed


end
