(* ===== verification/Http_Client_Facts.thy ===== *)
theory Http_Client_Facts
  imports Http_Client Http_Node_Facts
begin

text \<open>
  What the client does: the URL it connects to, the request it sends, and the response it
  builds, for every way the network may cut the bytes into segments. A chunked body is decoded
  even when the two bytes after a chunk arrive separately, because \<open>sscanf\<close> skips the newline
  that is then left in front of the next size.
\<close>

section \<open>Reading from the socket of an exchange\<close>

definition advance :: "channel \<Rightarrow> exchange \<Rightarrow> exchange" where
  "advance c st = st\<lparr>exSock := set_chan c (exSock st)\<rparr>"

text \<open>The exchange's socket throws, and holds \<open>data\<close>.\<close>

definition ex_reading :: "string \<Rightarrow> exchange \<Rightarrow> bool" where
  "ex_reading data st \<longleftrightarrow>
    ThrowExceptions (exSock st) \<and> chan_ok (chan (exSock st)) \<and> pending (chan (exSock st)) = data"

lemma advance_simps [simp]:
  "exCode (advance c st) = exCode st" "exResp (advance c st) = exResp st"
  "exHeaders (advance c st) = exHeaders st" "exContentType (advance c st) = exContentType st"
  "exLocation (advance c st) = exLocation st"
  "exSock (advance c st) = set_chan c (exSock st)" "advance c (advance d st) = advance c st"
  "advance c (st\<lparr>exResp := x\<rparr>) = (advance c st)\<lparr>exResp := x\<rparr>"
  by (simp_all add: advance_def)

lemma ex_read1:
  assumes "ex_reading (b # bs) st"
  shows "\<exists>c. readBuffer (Suc 0) (exSock st) = (Inr (1, [b]), set_chan c (exSock st)) \<and>
    ex_reading bs (advance c st)"
proof -
  obtain c where c: "readBuffer 1 (exSock st) = (Inr (1, [b]), set_chan c (exSock st))" "pending c = bs"
      "c = (chan (exSock st))\<lparr>rx := rx c\<rparr>"
    using read1_data [of "exSock st" b bs] assms by (auto simp: ex_reading_def)
  have "rx_end c = rx_end (chan (exSock st))" by (subst c(3)) simp
  with c assms show ?thesis
    by (intro exI [of _ c]) (simp add: ex_reading_def chan_ok_def)
qed

lemma ex_read_end:
  assumes "ex_reading [] st"
  shows "\<exists>c k. readBuffer n (exSock st) = (Inl (ThrowInt k), set_chan c (exSock st))"
  using read_end [of "exSock st" n] assms by (auto simp: ex_reading_def)

lemma read_bytes_data:
  "ex_reading (data @ rest) st \<Longrightarrow> length data = n \<Longrightarrow>
   \<exists>c. read_bytes n st = (Inr (), advance c (st\<lparr>exResp := exResp st @ data\<rparr>)) \<and>
     ex_reading rest (advance c st)"
proof (induction n arbitrary: data st)
  case 0
  then show ?case by (intro exI [of _ "chan (exSock st)"]) (simp add: advance_def)
next
  case (Suc n)
  then obtain b bs where data: "data = b # bs" "length bs = n" by (cases data) auto
  with Suc.prems obtain c where c: "readBuffer (Suc 0) (exSock st) = (Inr (1, [b]), set_chan c (exSock st))"
      "ex_reading (bs @ rest) (advance c st)"
    using ex_read1 [of b "bs @ rest" st] by auto
  let ?st = "(advance c st)\<lparr>exResp := exResp st @ [b]\<rparr>"
  have "ex_reading (bs @ rest) ?st" using c(2) by (simp add: ex_reading_def)
  from Suc.IH [OF this data(2)] obtain c' where
    c': "read_bytes n ?st = (Inr (), advance c' (?st\<lparr>exResp := exResp ?st @ bs\<rparr>))"
      "ex_reading rest (advance c' ?st)" by blast
  have st: "st\<lparr>exSock := set_chan c (exSock st), exResp := exResp st @ [b]\<rparr> = ?st"
    by (simp add: advance_def)
  show ?case
    using c' data(1) by (intro exI [of _ c']) (simp add: c(1) st ex_reading_def)
qed

lemma read_bytes_short:
  "ex_reading data st \<Longrightarrow> length data < n \<Longrightarrow>
   \<exists>c k. read_bytes n st = (Inl (ThrowInt k), advance c (st\<lparr>exResp := exResp st @ data\<rparr>))"
proof (induction n arbitrary: data st)
  case (Suc n)
  show ?case
  proof (cases data)
    case Nil
    with Suc.prems obtain c k where "readBuffer (Suc 0) (exSock st) = (Inl (ThrowInt k), set_chan c (exSock st))"
      using ex_read_end by blast
    then show ?thesis using Nil by (intro exI [of _ c] exI [of _ k]) (simp add: advance_def)
  next
    case (Cons b bs)
    with Suc.prems obtain c where c: "readBuffer (Suc 0) (exSock st) = (Inr (1, [b]), set_chan c (exSock st))"
        "ex_reading bs (advance c st)"
      using ex_read1 [of b bs st] by auto
    let ?st = "(advance c st)\<lparr>exResp := exResp st @ [b]\<rparr>"
    have "ex_reading bs ?st" "length bs < n" using c(2) Cons Suc.prems(2) by (simp_all add: ex_reading_def)
    from Suc.IH [OF this] obtain c' k where
      c': "read_bytes n ?st = (Inl (ThrowInt k), advance c' (?st\<lparr>exResp := exResp ?st @ bs\<rparr>))" by blast
    have st: "st\<lparr>exSock := set_chan c (exSock st), exResp := exResp st @ [b]\<rparr> = ?st"
      by (simp add: advance_def)
    show ?thesis
      using c' Cons by (intro exI [of _ c'] exI [of _ k]) (simp add: c(1) st)
  qed
qed simp

section \<open>Chunked bodies\<close>

lemma chunk_line_step:
  assumes "ex_reading (b # bs) st"
  shows "\<exists>c. chunk_line b0 prev acc (exSock st) =
      (if prev = CR \<and> b = LF then Some (Inr acc, set_chan c (exSock st))
       else chunk_line b b (if b \<noteq> CR then acc @ [b] else acc) (exSock (advance c st))) \<and>
    ex_reading bs (advance c st)"
proof -
  obtain c where c: "readBuffer (Suc 0) (exSock st) = (Inr (1, [b]), set_chan c (exSock st))"
      "ex_reading bs (advance c st)"
    using ex_read1 [OF assms] by blast
  then show ?thesis by (intro exI [of _ c]) (subst chunk_line.simps, simp add: Let_def)
qed

lemma chunk_line_chars:
  "ex_reading (l @ bs) st \<Longrightarrow> CR \<notin> set l \<Longrightarrow> prev \<noteq> CR \<Longrightarrow>
   \<exists>c q p. p \<noteq> CR \<and> chunk_line b0 prev acc (exSock st) = chunk_line q p (acc @ l) (exSock (advance c st)) \<and>
     ex_reading bs (advance c st)"
proof (induction l arbitrary: st prev b0 acc)
  case Nil
  then show ?case
    by (intro exI [of _ "chan (exSock st)"] exI [of _ b0] exI [of _ prev]) (simp add: advance_def)
next
  case (Cons b l)
  have b: "b \<noteq> CR" "CR \<notin> set l" using Cons.prems(2) by auto
  obtain c where c: "chunk_line b0 prev acc (exSock st) =
      (if prev = CR \<and> b = LF then Some (Inr acc, set_chan c (exSock st))
       else chunk_line b b (if b \<noteq> CR then acc @ [b] else acc) (exSock (advance c st)))"
      "ex_reading (l @ bs) (advance c st)"
    using chunk_line_step [of b "l @ bs" st b0 prev acc] Cons.prems(1) unfolding append_Cons by blast
  obtain c' q p where c': "p \<noteq> CR"
      "chunk_line b b (acc @ [b]) (exSock (advance c st)) = chunk_line q p ((acc @ [b]) @ l) (exSock (advance c' (advance c st)))"
      "ex_reading bs (advance c' (advance c st))"
    using Cons.IH [OF c(2) b(2,1), of b "acc @ [b]"] by blast
  show ?case
    by (intro exI [of _ c'] exI [of _ q] exI [of _ p]) (use c(1) c' b(1) Cons.prems(3) in simp)
qed

lemma chunk_line_reads:
  assumes "ex_reading (l @ CRLF @ bs) st" "CR \<notin> set l"
  shows "\<exists>c. chunk_line b0 NUL [] (exSock st) = Some (Inr l, exSock (advance c st)) \<and> ex_reading bs (advance c st)"
proof -
  have "NUL \<noteq> CR" by simp
  from chunk_line_chars [OF assms this, of b0 "[]"] obtain c p q where c: "p \<noteq> CR"
      "chunk_line b0 NUL [] (exSock st) = chunk_line q p ([] @ l) (exSock (advance c st))"
      "ex_reading (CR # LF # bs) (advance c st)" unfolding append_Cons append_Nil by blast
  obtain c1 where c1: "chunk_line q p l (exSock (advance c st)) =
      (if p = CR \<and> CR = LF then Some (Inr l, set_chan c1 (exSock (advance c st)))
       else chunk_line CR CR (if CR \<noteq> CR then l @ [CR] else l) (exSock (advance c1 (advance c st))))"
      "ex_reading (LF # bs) (advance c1 (advance c st))"
    using chunk_line_step [OF c(3), of q p l] by blast
  obtain c2 where c2: "chunk_line CR CR l (exSock (advance c1 (advance c st))) =
      (if CR = CR \<and> LF = LF then Some (Inr l, set_chan c2 (exSock (advance c1 (advance c st))))
       else chunk_line LF LF (if LF \<noteq> CR then l @ [LF] else l) (exSock (advance c2 (advance c1 (advance c st)))))"
      "ex_reading bs (advance c2 (advance c1 (advance c st)))"
    using chunk_line_step [OF c1(2), of CR CR l] by blast
  show ?thesis
    by (rule exI [of _ c2]) (use c c1 c2 in simp)
qed

text \<open>
  A chunk is the text of its size line (any text \<open>sscanf\<close> reads as the length, extensions
  included) and its data. The stream ends with a size line that reads as 0.
\<close>

definition chunk_ok :: "string \<times> string \<Rightarrow> bool" where
  "chunk_ok c \<longleftrightarrow> CR \<notin> set (fst c) \<and> snd c \<noteq> [] \<and> length (snd c) < 4294967296 \<and>
    sscanf_x (fst c) = Some (word_of_nat (length (snd c)))"

definition chunk_stream :: "(string \<times> string) list \<Rightarrow> string \<Rightarrow> string \<Rightarrow> string" where
  "chunk_stream cs final tail =
    concat (map (\<lambda>c. fst c @ CRLF @ snd c @ CRLF) cs) @ final @ CRLF @ tail"

lemma ex_read2:
  assumes "ex_reading (a # b # bs) st"
  shows "\<exists>c d rest. readBuffer 2 (exSock st) = (Inr (int (length d), d), set_chan c (exSock st)) \<and>
    d \<noteq> [] \<and> ex_reading rest (advance c st) \<and> (rest = bs \<or> rest = b # bs)"
proof -
  obtain d c where r: "readBuffer 2 (exSock st) = (Inr (int (length d), d), set_chan c (exSock st))" "d \<noteq> []"
      "length d \<le> 2" "a # b # bs = d @ pending c" "c = (chan (exSock st))\<lparr>rx := rx c\<rparr>"
    using read_data [of "exSock st" 2] assms by (auto simp: ex_reading_def)
  have "rx_end c = rx_end (chan (exSock st))" by (subst r(5)) simp
  then have "ex_reading (pending c) (advance c st)" using assms by (simp add: ex_reading_def chan_ok_def)
  moreover have "pending c = bs \<or> pending c = b # bs"
    using r(2,3,4) by (cases d rule: list.exhaust) (auto simp: Cons_eq_append_conv length_Suc_conv le_Suc_eq)
  ultimately show ?thesis using r(1,2) by blast
qed

lemma chunked_step:
  assumes "ex_reading (h @ CRLF @ d @ CRLF @ bs) st" "CR \<notin> set h" "d \<noteq> []" "length d < 4294967296"
    and "sscanf_x h = Some (word_of_nat (length d))"
  shows "\<exists>c b1 k' rest. chunked_loop b0 k st = chunked_loop b1 k' (advance c (st\<lparr>exResp := exResp st @ d\<rparr>)) \<and>
    ex_reading rest (advance c st) \<and> (rest = bs \<or> rest = LF # bs)"
proof -
  obtain c where c: "chunk_line b0 NUL [] (exSock st) = Some (Inr h, exSock (advance c st))"
      "ex_reading (d @ CRLF @ bs) (advance c st)"
    using chunk_line_reads [OF assms(1,2)] by blast
  have size: "unat (word_of_nat (length d) :: 32 word) = length d" using assms(4) by (simp add: unat_of_nat)
  then have nz: "(word_of_nat (length d) :: 32 word) \<noteq> 0" using assms(3) by auto
  obtain c1 where c1: "read_bytes (length d) (advance c st) =
      (Inr (), advance c1 ((advance c st)\<lparr>exResp := exResp st @ d\<rparr>))"
      "ex_reading (CRLF @ bs) (advance c1 (advance c st))"
    using read_bytes_data [OF c(2) refl] by auto
  let ?st1 = "advance c1 ((advance c st)\<lparr>exResp := exResp st @ d\<rparr>)"
  have "ex_reading (CR # LF # bs) ?st1" using c1(2) by (simp add: ex_reading_def)
  then obtain c2 e rest where c2: "readBuffer 2 (exSock ?st1) = (Inr (int (length e), e), set_chan c2 (exSock ?st1))"
      "e \<noteq> []" "ex_reading rest (advance c2 ?st1)" "rest = bs \<or> rest = LF # bs"
    using ex_read2 by blast
  have st: "st\<lparr>exSock := exSock (advance c st)\<rparr> = advance c st" by (simp add: advance_def)
  have "chunked_loop b0 k st = chunked_loop (hd e) (word_of_nat (length d)) (?st1\<lparr>exSock := set_chan c2 (exSock ?st1)\<rparr>)"
    by (subst chunked_loop.simps) (simp only: c(1) st option.case sum.case prod.case Let_def assms(5) nz size
        c1(1) c2(1,2) if_False)
  moreover have "?st1\<lparr>exSock := set_chan c2 (exSock ?st1)\<rparr> = advance c2 (st\<lparr>exResp := exResp st @ d\<rparr>)"
    by (simp add: advance_def)
  moreover have "ex_reading rest (advance c2 st)" using c2(3) by (simp add: ex_reading_def)
  ultimately show ?thesis using c2(4) by metis
qed

lemma chunked_end:
  assumes "ex_reading (h @ CRLF @ bs) st" "CR \<notin> set h" "sscanf_x h = Some 0"
  shows "\<exists>c. chunked_loop b0 k st = Some (ThrowInt (-1), advance c st)"
proof -
  obtain c where c: "chunk_line b0 NUL [] (exSock st) = Some (Inr h, exSock (advance c st))"
    using chunk_line_reads [OF assms(1,2)] by blast
  have "st\<lparr>exSock := exSock (advance c st)\<rparr> = advance c st" by (simp add: advance_def)
  then show ?thesis
    using c assms(3) by (intro exI [of _ c]) (subst chunked_loop.simps, simp)
qed

lemma chunked_loop_decodes:
  assumes "\<forall>c \<in> set cs. chunk_ok c" "CR \<notin> set final" "sscanf_x final = Some 0"
    and "ex_reading (sp @ chunk_stream cs final tail) st" "sp \<in> {[], [LF]}"
  shows "\<exists>c. chunked_loop b0 k st = Some (ThrowInt (-1), advance c (st\<lparr>exResp := exResp st @ concat (map snd cs)\<rparr>))"
  using assms
proof (induction cs arbitrary: sp st b0 k)
  case Nil
  have "ex_reading ((sp @ final) @ CRLF @ tail) st" "CR \<notin> set (sp @ final)"
    using Nil by (auto simp: chunk_stream_def)
  moreover have "sscanf_x (sp @ final) = Some 0"
    using Nil sscanf_x_space [of LF final] by (auto simp: is_space_def)
  ultimately show ?case using chunked_end [of "sp @ final" tail st b0 k] by simp
next
  case (Cons x cs)
  obtain h d where x: "x = (h, d)" by fastforce
  have ok: "CR \<notin> set h" "d \<noteq> []" "length d < 4294967296" "sscanf_x h = Some (word_of_nat (length d))"
    using Cons.prems(1) by (auto simp: x chunk_ok_def)
  have "ex_reading ((sp @ h) @ CRLF @ d @ CRLF @ chunk_stream cs final tail) st" "CR \<notin> set (sp @ h)"
    using Cons.prems ok(1) by (auto simp: chunk_stream_def x)
  moreover have "sscanf_x (sp @ h) = Some (word_of_nat (length d))"
    using Cons.prems(5) ok(4) sscanf_x_space [of LF h] by (auto simp: is_space_def)
  ultimately obtain c b1 k' rest where c:
      "chunked_loop b0 k st = chunked_loop b1 k' (advance c (st\<lparr>exResp := exResp st @ d\<rparr>))"
      "ex_reading rest (advance c st)" "rest = chunk_stream cs final tail \<or> rest = LF # chunk_stream cs final tail"
    using chunked_step [of "sp @ h" d "chunk_stream cs final tail" st b0 k] ok(2,3) by blast
  let ?st = "advance c (st\<lparr>exResp := exResp st @ d\<rparr>)"
  obtain sp' where sp': "ex_reading (sp' @ chunk_stream cs final tail) ?st" "sp' \<in> {[], [LF]}"
    using c(2,3) by (auto simp: ex_reading_def)
  have "\<forall>c \<in> set cs. chunk_ok c" using Cons.prems(1) by simp
  from Cons.IH [OF this Cons.prems(2,3) sp', of b1 k'] obtain c' where
    "chunked_loop b1 k' ?st = Some (ThrowInt (-1), advance c' (?st\<lparr>exResp := exResp ?st @ concat (map snd cs)\<rparr>))"
    by blast
  with c(1) show ?case by (intro exI [of _ c']) (simp add: x)
qed

section \<open>The response header\<close>

lemma client_header_step:
  assumes "ex_reading (b # bs) st"
  shows "\<exists>c. client_header_loop b0 line ex st =
      (if b = CR then client_header_loop b line ex (advance c st)
       else if b = LF then
         (case client_line line (advance c st) of
            (Inl e, st2) \<Rightarrow> Some (Inl e, st2)
          | (Inr _, st2) \<Rightarrow>
              (if ex + 1 = 2 then Some (Inr (), st2) else client_header_loop b [] (ex + 1) st2))
       else client_header_loop b (line @ cstr [b]) 0 (advance c st)) \<and>
    ex_reading bs (advance c st)"
proof -
  obtain c where c: "readBuffer (Suc 0) (exSock st) = (Inr (1, [b]), set_chan c (exSock st))"
      "ex_reading bs (advance c st)"
    using ex_read1 [OF assms] by blast
  then show ?thesis
    by (intro exI [of _ c]) (subst client_header_loop.simps, simp add: Let_def advance_def split: prod.split sum.split)
qed

lemma client_header_chars:
  "ex_reading (l @ bs) st \<Longrightarrow> clean_line l \<Longrightarrow>
   \<exists>c b1. client_header_loop b0 line ex st =
       client_header_loop b1 (line @ l) (if l = [] then ex else 0) (advance c st) \<and>
     ex_reading bs (advance c st)"
proof (induction l arbitrary: st b0 line ex)
  case Nil
  then show ?case
    by (intro exI [of _ "chan (exSock st)"] exI [of _ b0]) (simp add: advance_def)
next
  case (Cons b l)
  then have b: "b \<noteq> CR" "b \<noteq> LF" "cstr [b] = [b]" "clean_line l" by (auto simp: cstr_def)
  have bs: "ex_reading (b # (l @ bs)) st" using Cons.prems(1) by simp
  obtain c where c: "client_header_loop b0 line ex st = client_header_loop b (line @ [b]) 0 (advance c st)"
      "ex_reading (l @ bs) (advance c st)"
    using client_header_step [OF bs, of b0 line ex] b(1-3) by (simp only: if_False) blast
  obtain c' b1 where "client_header_loop b (line @ [b]) 0 (advance c st) =
      client_header_loop b1 ((line @ [b]) @ l) (if l = [] then 0 else 0) (advance c' (advance c st))"
      "ex_reading bs (advance c' (advance c st))"
    using Cons.IH [OF c(2) b(4), of b "line @ [b]" 0] by blast
  with c(1) show ?case by (intro exI [of _ c'] exI [of _ b1]) simp
qed

text \<open>A line's effect does not depend on the socket.\<close>

lemma client_line_advance:
  "client_line l (advance c st) = (case client_line l st of (r, st') \<Rightarrow> (r, advance c st'))"
  by (simp add: client_line_def Let_def advance_def split: sum.split)

lemma client_line_sock: "exSock (snd (client_line l st)) = exSock st"
  by (simp add: client_line_def Let_def split: sum.split)

lemma client_header_line:
  assumes "ex_reading (l @ CRLF @ bs) st" "clean_line l" "client_line l st = (Inr (), st1)"
  shows "\<exists>c b1. client_header_loop b0 [] ex st =
      (if l = [] \<and> ex = 1 then Some (Inr (), advance c st1)
       else client_header_loop b1 [] (if l = [] then ex + 1 else 1) (advance c st1)) \<and>
    ex_reading bs (advance c st1)"
proof -
  obtain c b1 where c: "client_header_loop b0 [] ex st =
      client_header_loop b1 ([] @ l) (if l = [] then ex else 0) (advance c st)"
      "ex_reading (CR # LF # bs) (advance c st)"
    using client_header_chars [OF assms(1,2), of b0 "[]" ex] unfolding append_Cons append_Nil by blast
  let ?ex = "if l = [] then ex else 0"
  obtain c1 where c1: "client_header_loop b1 l ?ex (advance c st) = client_header_loop CR l ?ex (advance c1 (advance c st))"
      "ex_reading (LF # bs) (advance c1 (advance c st))"
    using client_header_step [OF c(2), of b1 l ?ex] by auto
  obtain c2 where c2: "client_header_loop CR l ?ex (advance c1 (advance c st)) =
      (case client_line l (advance c2 (advance c1 (advance c st))) of
            (Inl e, st2) \<Rightarrow> Some (Inl e, st2)
          | (Inr _, st2) \<Rightarrow>
              (if ?ex + 1 = 2 then Some (Inr (), st2) else client_header_loop LF [] (?ex + 1) st2))"
      "ex_reading bs (advance c2 (advance c1 (advance c st)))"
    using client_header_step [OF c1(2), of CR l ?ex] by auto
  have "exSock st1 = exSock st" using client_line_sock [of l st] assms(3) by simp
  then have "ex_reading bs (advance c2 st1)" using c2(2) by (simp add: ex_reading_def)
  with c(1) c1(1) c2(1) show ?thesis
    by (intro exI [of _ c2] exI [of _ LF]) (simp add: client_line_advance assms(3))
qed

lemma client_lines_advance:
  "run_acts (map client_line ks) (advance d s) =
    (case run_acts (map client_line ks) s of (r, s') \<Rightarrow> (r, advance d s'))"
proof (induction ks arbitrary: s)
  case (Cons k ks)
  obtain r s1 where r: "client_line k s = (r, s1)" by fastforce
  show ?case using Cons.IH [of s1] by (cases r) (simp_all add: client_line_advance r)
qed simp

text \<open>A block of lines, ended by a blank one, which the loop takes as a line too.\<close>

lemma client_header_block:
  assumes "\<forall>l \<in> set ls. clean_line l \<and> l \<noteq> []" "ls \<noteq> [] \<or> ex = 1"
    and "ex_reading (concat (map (\<lambda>l. l @ CRLF) ls) @ CRLF @ rest) st"
    and "run_acts (map client_line (ls @ [[]])) st = (Inr (), st1)"
  shows "\<exists>c. client_header_loop b0 [] ex st = Some (Inr (), advance c st1) \<and> ex_reading rest (advance c st1)"
  using assms
proof (induction ls arbitrary: st st1 ex b0)
  case Nil
  then obtain st2 where "client_line [] st = (Inr (), st2)" "st1 = st2"
    by (auto split: prod.splits sum.splits)
  moreover have "ex_reading ([] @ CRLF @ rest) st" using Nil by simp
  ultimately show ?case using client_header_line [of "[]" rest st st2 b0 ex] Nil(2) by auto
next
  case (Cons l ls)
  obtain st2 where st2: "client_line l st = (Inr (), st2)" "run_acts (map client_line (ls @ [[]])) st2 = (Inr (), st1)"
    using Cons.prems(4) by (auto split: prod.splits sum.splits)
  have l: "clean_line l" "l \<noteq> []" "ex_reading (l @ CRLF @ (concat (map (\<lambda>l. l @ CRLF) ls) @ CRLF @ rest)) st"
    using Cons.prems by auto
  obtain c b1 where c: "client_header_loop b0 [] ex st = client_header_loop b1 [] 1 (advance c st2)"
      "ex_reading (concat (map (\<lambda>l. l @ CRLF) ls) @ CRLF @ rest) (advance c st2)"
    using client_header_line [OF l(3,1) st2(1), of b0 ex] by (simp only: l(2) simp_thms if_False) blast
  have run: "run_acts (map client_line (ls @ [[]])) (advance c st2) = (Inr (), advance c st1)"
    unfolding client_lines_advance st2(2) by simp
  have ok: "\<forall>l \<in> set ls. clean_line l \<and> l \<noteq> []" using Cons.prems(1) by simp
  have one: "ls \<noteq> [] \<or> (1::nat) = 1" by simp
  from Cons.IH [OF ok one c(2) run] obtain c' where "client_header_loop b1 [] 1 (advance c st2) = Some (Inr (), advance c' (advance c st1))"
      "ex_reading rest (advance c' (advance c st1))" by blast
  with c(1) show ?case by (intro exI [of _ c']) simp
qed

section \<open>What a header line does\<close>

lemma as_int_small: "p < 2147483648 \<Longrightarrow> as_int (Some p) = int p"
  by (simp add: as_int_def)

lemma as_int_None [simp]: "as_int None = -1"
  by (simp add: as_int_def npos_value i32_def signed_of_int)

lemma size_of_int_small [simp]: "0 \<le> v \<Longrightarrow> v < 2147483648 \<Longrightarrow> size_of_int v = nat v"
  by (simp add: size_of_int_def)

lemma client_status_line:
  assumes "code' < 2147483648" "length desc < 1000"
  shows "client_line (''HTTP/1.1 '' @ dec_of_nat code' @ '' '' @ desc) st = (Inr (), st\<lparr>exCode := int code'\<rparr>)"
proof -
  let ?l = "''HTTP/1.1 '' @ dec_of_nat code' @ '' '' @ desc"
  let ?s = "dec_of_nat code' @ '' '' @ desc"
  have http: "find_str ''HTTP/1.1'' ?l \<noteq> None" by simp
  have "find_ch SP ?l = Some 8" by simp
  then have "as_int (find_ch SP ?l) = 8" using as_int_small [of 8] by (simp only: of_nat_numeral)
  then have "size_of_int (as_int (find_ch SP ?l) + 1) = 9" by (simp only:) simp
  then have cut: "substr_from ?l (size_of_int (as_int (find_ch SP ?l) + 1)) = Inr ?s"
    by (simp add: substr_from_def)
  have sp: "find_ch SP ?s = Some (length (dec_of_nat code'))"
    using find_ch_append [of SP "dec_of_nat code'" desc] by simp
  have val: "substr ?s 0 (size_of_int (as_int (find_ch SP ?s))) = Inr (dec_of_nat code')"
  proof (cases "length (dec_of_nat code') < 2147483648")
    case True
    with sp show ?thesis by (simp add: as_int_small substr_def)
  next
    case False
    have "length (dec_of_nat n) \<le> Suc n" for n
    proof (induction n rule: dec_of_nat.induct)
      case (1 n)
      show ?case
      proof (cases "n < 10")
        case False
        with 1 have "length (dec_of_nat (n div 10)) \<le> Suc (n div 10)" by simp
        moreover have "n div 10 < n" using False by simp
        ultimately show ?thesis using False by (simp add: dec_of_nat.simps [of n])
      qed (simp add: dec_of_nat.simps [of n])
    qed
    then have "length (dec_of_nat code') \<le> Suc code'" .
    with False assms(1) have "code' = 2147483647" by simp
    then have "length (dec_of_nat code') = 10" by (simp add: dec_of_nat.simps)
    with False show ?thesis by simp
  qed
  have "client_line ?l st = (Inr (), st\<lparr>exCode := atoi (dec_of_nat code')\<rparr>)"
    unfolding client_line_def Let_def cut by (simp only: http not_False_eq_True if_True sum.case val)
  with assms(1) show ?thesis by simp
qed

text \<open>A field whose name and value fit on a line and do not look like a status line.\<close>

definition field_fits :: "string \<times> string \<Rightarrow> bool" where
  "field_fits f \<longleftrightarrow> CHR '':'' \<notin> set (fst f) \<and> clean_line (fst f) \<and> clean_line (snd f) \<and>
    find_str ''HTTP/1.1'' (fst f @ '': '' @ snd f) = None \<and> length (fst f @ '': '' @ snd f) < 2147483648"

lemma client_field_line:
  assumes "field_fits f"
  shows "client_line (fst f @ '': '' @ snd f) st =
    (Inr (), st\<lparr>exHeaders := smap_set (trim (strtolower (fst f))) (trim (snd f)) (exHeaders st)\<rparr>)"
proof -
  let ?l = "fst f @ '': '' @ snd f"
  have c: "find_ch (CHR '':'') ?l = Some (length (fst f))"
    using assms find_ch_append [of "CHR '':''" "fst f" "'' '' @ snd f"] by (simp add: field_fits_def)
  have len: "length (fst f) < 2147483646" using assms by (simp add: field_fits_def)
  have "trim ('' '' @ snd f) = trim (snd f)" using trim_space [of SP "snd f"] by (simp add: is_space_def)
  with c len assms show ?thesis
    by (simp add: client_line_def field_fits_def as_int_small substr_def substr_from_def)
      (simp add: nat_add_distrib)
qed

lemma client_blank_line: "client_line [] st = (Inr (), st\<lparr>exHeaders := smap_set [] [] (exHeaders st)\<rparr>)"
proof -
  have t: "trim [] = []" by (rule trim_id) simp_all
  show ?thesis by (simp add: client_line_def substr_def substr_from_def size_of_int_def strtolower_def t)
qed

definition put_field :: "string \<times> string \<Rightarrow> smap \<Rightarrow> smap" where
  "put_field f m = smap_set (trim (strtolower (fst f))) (trim (snd f)) m"

lemma client_fields:
  assumes "\<forall>f \<in> set fs. field_fits f"
  shows "run_acts (map client_line (map (\<lambda>f. fst f @ '': '' @ snd f) fs @ [[]])) st =
    (Inr (), st\<lparr>exHeaders := smap_set [] [] (fold put_field fs (exHeaders st))\<rparr>)"
  using assms
proof (induction fs arbitrary: st)
  case (Cons f fs)
  have "client_line (fst f @ '': '' @ snd f) st = (Inr (), st\<lparr>exHeaders := put_field f (exHeaders st)\<rparr>)"
    using client_field_line [of f st] Cons.prems by (simp add: put_field_def)
  with Cons show ?case by simp
qed (simp add: client_blank_line)

text \<open>Field names as the client keys them, and the last value under a name.\<close>

lemma get_put_fields:
  "smap_get (fold put_field fs m) k =
    (case map_of (rev (map (\<lambda>f. (trim (strtolower (fst f)), trim (snd f))) fs)) k of
       Some v \<Rightarrow> Some v | None \<Rightarrow> smap_get m k)"
proof (induction fs arbitrary: m)
  case (Cons f fs)
  then show ?case by (simp add: put_field_def smap_get_set map_add_def split: option.split)
qed simp

section \<open>The server's response, read by the client\<close>

text \<open>The fields of a response of the server, in the order it writes them.\<close>

definition sid_field :: "string \<Rightarrow> (string \<times> string) list" where
  "sid_field sid = (if sid \<noteq> [] then [(''Set-Cookie'', ''SolusekSID='' @ sid @ ''; SameSite=Strict; Path=/'')] else [])"

definition cookie_field :: "MCookie \<Rightarrow> string \<times> string" where
  "cookie_field c = (''Set-Cookie'', ckName c @ ''='' @ ckValue c @ ''; SameSite=Strict'' @
    (if ckPath c \<noteq> [] then ''; Path='' @ ckPath c else []))"

definition response_fields :: "string \<Rightarrow> MResponse \<Rightarrow> (string \<times> string) list" where
  "response_fields dt r =
    [(''Date'', response_date dt r), (''Content-Type'', rsContentType r),
     (''Content-Length'', dec_of_nat (u32 (length (rsBody r)))), (''Last-Modified'', response_date dt r)] @
    sid_field (rsSID r) @ map cookie_field (rsCookies r) @
    [(''Server'', ''Solusek/1.0 (Linux)''), (''Connection'', ''close'')]"

lemma render_fields:
  "render dt r = ''HTTP/1.1 '' @ dec_of_int (rsCode r) @ '' '' @ getCodeDescription r @ CRLF @
    concat (map (\<lambda>f. (fst f @ '': '' @ snd f) @ CRLF) (response_fields dt r)) @ CRLF @ rsBody r"
proof -
  have c: "concat (cookie_writes c) = (fst (cookie_field c) @ '': '' @ snd (cookie_field c)) @ CRLF" for c
    by (simp add: cookie_writes_def cookie_field_def)
  have cs: "concat (concat (map cookie_writes cs)) =
      concat (map (\<lambda>f. (fst f @ '': '' @ snd f) @ CRLF) (map cookie_field cs))" for cs
    by (induction cs) (simp_all add: c)
  have sid: "concat (sid_writes s) = concat (map (\<lambda>f. (fst f @ '': '' @ snd f) @ CRLF) (sid_field s))" for s
    by (simp add: sid_writes_def sid_field_def)
  show ?thesis
    unfolding render_def response_writes_def Let_def response_fields_def concat_append map_append sid cs
    by simp
qed

definition response_fits :: "string \<Rightarrow> MResponse \<Rightarrow> bool" where
  "response_fits dt r \<longleftrightarrow> list_all field_fits (response_fields dt r) \<and> 0 \<le> rsCode r \<and> rsCode r < 2147483648 \<and>
    length (rsBody r) < 2147483648 \<and> trim (rsContentType r) \<noteq> []"

definition response_keys :: "string \<Rightarrow> MResponse \<Rightarrow> (string \<times> string) list" where
  "response_keys dt r = map (\<lambda>f. (trim (strtolower (fst f)), trim (snd f))) (response_fields dt r)"

lemma trim_plain:
  "list_all (\<lambda>c. \<not> is_space c) s \<Longrightarrow> trim s = s"
  by (rule trim_id) (cases s; auto simp: list_all_iff)+

lemma lower_names:
  "trim (strtolower ''Date'') = ''date''" "trim (strtolower ''Content-Type'') = ''content-type''"
  "trim (strtolower ''Content-Length'') = ''content-length''" "trim (strtolower ''Last-Modified'') = ''last-modified''"
  "trim (strtolower ''Set-Cookie'') = ''set-cookie''" "trim (strtolower ''Server'') = ''server''"
  "trim (strtolower ''Connection'') = ''connection''"
  by code_simp+

lemma trim_dec: "trim (dec_of_nat n) = dec_of_nat n"
  by (rule trim_plain) (auto simp: list_all_iff dest: dec_of_nat_digits digit_not_space)

lemma response_values:
  "map_of (rev (response_keys dt r)) ''content-type'' = Some (trim (rsContentType r))"
  "map_of (rev (response_keys dt r)) ''content-length'' = Some (dec_of_nat (u32 (length (rsBody r))))"
  "map_of (rev (response_keys dt r)) ''location'' = None"
proof -
  have sid: "map_of (rev (map (\<lambda>f. (trim (strtolower (fst f)), trim (snd f))) (sid_field s))) k = None"
    if "k \<noteq> ''set-cookie''" for s k
    using that by (simp add: sid_field_def lower_names)
  have cs: "map_of (rev (map (\<lambda>f. (trim (strtolower (fst f)), trim (snd f))) (map cookie_field cs))) k = None"
    if "k \<noteq> ''set-cookie''" for cs k
    using that by (auto simp: map_of_eq_None_iff cookie_field_def lower_names)
  show "map_of (rev (response_keys dt r)) ''content-type'' = Some (trim (rsContentType r))"
    "map_of (rev (response_keys dt r)) ''content-length'' = Some (dec_of_nat (u32 (length (rsBody r))))"
    "map_of (rev (response_keys dt r)) ''location'' = None"
    unfolding response_keys_def response_fields_def map_append rev_append map_of_append
    by (simp_all add: map_add_def sid cs lower_names trim_dec del: map_map)
qed

text \<open>A new exchange: no code, no body, no header yet.\<close>

definition new_exchange :: "exchange \<Rightarrow> bool" where
  "new_exchange st \<longleftrightarrow> exCode st = 0 \<and> exResp st = [] \<and> exHeaders st = [] \<and> exLocation st = []"

lemma status_line_clean: "clean_line (''HTTP/1.1 '' @ dec_of_nat n @ '' '' @ getCodeDescription r)"
proof -
  have "clean_line (dec_of_nat n)" by (simp add: clean_line_def)
  then show ?thesis by (simp add: getCodeDescription_def)
qed

lemma getCodeDescription_short: "length (getCodeDescription r) < 1000"
  by (simp add: getCodeDescription_def)

lemma field_line_nonempty: "fst f @ '': '' @ snd f \<noteq> []"
  by simp

lemma client_reads_header:
  assumes "response_fits dt r" "ex_reading (render dt r) st" "exHeaders st = []"
  shows "\<exists>c. client_header_loop b0 [] 0 st = Some (Inr (),
      advance c (st\<lparr>exCode := rsCode r, exHeaders := smap_set [] [] (fold put_field (response_fields dt r) [])\<rparr>)) \<and>
    ex_reading (rsBody r) (advance c st)"
proof -
  define n where "n = nat (rsCode r)"
  have n: "rsCode r = int n" "n < 2147483648" using assms(1) by (auto simp: n_def response_fits_def)
  then have dec: "dec_of_int (rsCode r) = dec_of_nat n" by (simp add: dec_of_int_def)
  let ?s = "''HTTP/1.1 '' @ dec_of_nat n @ '' '' @ getCodeDescription r"
  let ?fs = "map (\<lambda>f. fst f @ '': '' @ snd f) (response_fields dt r)"
  have fits: "\<forall>f \<in> set (response_fields dt r). field_fits f"
    using assms(1) by (simp add: response_fits_def list_all_iff)
  have lines: "\<forall>l \<in> set (?s # ?fs). clean_line l \<and> l \<noteq> []"
    using fits status_line_clean [of n r] by (auto simp: field_fits_def)
  have some: "?s # ?fs \<noteq> [] \<or> (0::nat) = 1" by simp
  have bytes: "ex_reading (concat (map (\<lambda>l. l @ CRLF) (?s # ?fs)) @ CRLF @ rsBody r) st"
    using assms(2) unfolding render_fields dec by (simp add: comp_def)
  let ?st1 = "st\<lparr>exCode := rsCode r\<rparr>"
  have "run_acts (map client_line ((?s # ?fs) @ [[]])) st =
      (Inr (), ?st1\<lparr>exHeaders := smap_set [] [] (fold put_field (response_fields dt r) (exHeaders ?st1))\<rparr>)"
    using client_status_line [OF n(2) getCodeDescription_short, of r st] client_fields [OF fits, of ?st1] n(1)
    by simp
  from client_header_block [OF lines some bytes this, of b0] assms(3)
  show ?thesis by (auto simp: ex_reading_def)
qed

lemma client_gets_response:
  assumes "response_fits dt r" "ex_reading (render dt r) st" "new_exchange st"
  shows "\<exists>st'. read_response b0 k timeout st = Some (Inr (), st') \<and>
    exchange_response st' = (new_MResponse (rsCode r) (rsBody r) [])\<lparr>rsContentType := trim (rsContentType r)\<rparr> \<and>
    pending (chan (exSock st')) = []"
proof -
  have st: "exHeaders st = []" "exResp st = []" "exLocation st = []" using assms(3) by (simp_all add: new_exchange_def)
  let ?hs = "smap_set [] [] (fold put_field (response_fields dt r) [])"
  obtain c where c: "client_header_loop b0 [] 0 st =
      Some (Inr (), advance c (st\<lparr>exCode := rsCode r, exHeaders := ?hs\<rparr>))" "ex_reading (rsBody r) (advance c st)"
    using client_reads_header [OF assms(1,2) st(1)] by blast
  have get: "smap_index ?hs key = (case map_of (rev (response_keys dt r)) key of Some v \<Rightarrow> v | None \<Rightarrow> [])"
    if "key \<noteq> []" for key
    using that by (simp add: smap_index_def smap_get_set get_put_fields response_keys_def)
      (simp add: smap_get_def split: option.split)
  have idx: "smap_index ?hs ''content-type'' = trim (rsContentType r)"
      "smap_index ?hs ''content-length'' = dec_of_nat (u32 (length (rsBody r)))" "smap_index ?hs ''location'' = []"
    using get [of "''content-type''"] get [of "''content-length''"] get [of "''location''"]
    by (simp_all add: response_values)
  have body: "length (rsBody r) < 2147483648" "trim (rsContentType r) \<noteq> []"
    using assms(1) by (simp_all add: response_fits_def)
  then have len: "unat (uint_of_int (atoi (dec_of_nat (u32 (length (rsBody r)))))) = length (rsBody r)"
    by (simp add: uint_of_int_def unat_of_nat)
  let ?st1 = "(advance c (st\<lparr>exCode := rsCode r, exHeaders := ?hs\<rparr>))\<lparr>exContentType := trim (rsContentType r)\<rparr>"
  have "ex_reading (rsBody r @ []) ?st1" using c(2) by (simp add: ex_reading_def)
  then obtain c' where c': "read_bytes (length (rsBody r)) ?st1 =
      (Inr (), advance c' (?st1\<lparr>exResp := exResp ?st1 @ rsBody r\<rparr>))" "ex_reading [] (advance c' ?st1)"
    using read_bytes_data [of "rsBody r" "[]" ?st1] by blast
  have "read_response b0 k timeout st = Some (Inr (), advance c' (?st1\<lparr>exResp := exResp ?st1 @ rsBody r\<rparr>))"
    using c(1) c'(1) body(2) idx len by (simp add: read_response_def read_response_body_def Let_def)
  then show ?thesis
    using c'(2) st by (simp add: exchange_response_def new_MResponse_def ex_reading_def)
qed

text \<open>C7 (roundtrip). The client reads back what \<open>writeResponse\<close> sends: from the bytes of a
  response, in any segmentation, it gets the status code, the content type and exactly the
  body, and no location.\<close>
theorem client_reads_server_response:
  assumes "response_fits dt r" "ex_reading (render dt r) st" "new_exchange st"
  shows "\<exists>st'. read_response b0 k timeout st = Some (Inr (), st') \<and>
    exchange_response st' = (new_MResponse (rsCode r) (rsBody r) [])\<lparr>rsContentType := trim (rsContentType r)\<rparr> \<and>
    pending (chan (exSock st')) = []"
  using assms by (rule client_gets_response)

definition sample_exchange :: "string list \<Rightarrow> exchange" where
  "sample_exchange segs =
    \<lparr>exSock = setThrowExceptions True (plain_sock (idle_channel\<lparr>rx := segs\<rparr>)), exCode = 0, exResp = [],
     exHeaders = [], exContentType = ''application/json'', exLocation = []\<rparr>"

lemma sample_exchange_reading [simp]: "ex_reading (concat segs) (sample_exchange segs)"
  by (simp add: ex_reading_def sample_exchange_def plain_sock_def new_sock_def setThrowExceptions_def
      chan_def chan_ok_def idle_channel_def pending_def)

lemma sample_exchange_new [simp]: "new_exchange (sample_exchange segs)"
  by (simp add: new_exchange_def sample_exchange_def)

definition fixed_date :: string where
  "fixed_date = ''Thu Jan  1 00:00:00 1970'' @ [LF]"

lemma sample_response_fits: "response_fits fixed_date (new_MResponse 200 ''hello'' ''7'')"
proof -
  have "trim ''application/json'' = ''application/json''" "dec_of_nat (Suc (Suc (Suc (Suc (Suc 0))))) = ''5''"
    by code_simp+
  then show ?thesis
    by (simp add: response_fits_def response_fields_def new_MResponse_def sid_field_def response_date_def
        fixed_date_def field_fits_def)
qed

lemma client_reads_server_response_witness:
  "\<exists>st'. read_response NUL 0 1 (sample_exchange [render fixed_date (new_MResponse 200 ''hello'' ''7'')]) = Some (Inr (), st') \<and>
    rsBody (exchange_response st') = ''hello''"
  using client_reads_server_response [OF sample_response_fits, of "sample_exchange [render fixed_date (new_MResponse 200 ''hello'' ''7'')]" NUL 0 1]
    sample_exchange_reading [of "[render fixed_date (new_MResponse 200 ''hello'' ''7'')]"]
  by (auto simp: new_MResponse_def)

text \<open>C24 (functional). A chunked body is decoded to the concatenation of its chunks, whatever
  the segmentation, and the request ends normally: the end of the stream is an exception that
  the inner handler takes.\<close>
theorem chunked_body_decoded:
  assumes "list_all chunk_ok cs" "CR \<notin> set final" "sscanf_x final = Some 0"
    and "ex_reading (chunk_stream cs final tail) st"
  shows "\<exists>st'. read_chunked b0 k timeout st = Some (Inr (), st') \<and> exResp st' = exResp st @ concat (map snd cs)"
proof -
  obtain c where "chunked_loop b0 k st = Some (ThrowInt (-1), advance c (st\<lparr>exResp := exResp st @ concat (map snd cs)\<rparr>))"
    using chunked_loop_decodes [of cs final "[]" tail st b0 k] assms by (auto simp: list_all_iff)
  then show ?thesis by (simp add: read_chunked_def)
qed

lemma chunked_body_decoded_witness:
  "\<exists>st'. read_chunked NUL 9 1 (sample_exchange [chunk_stream [(hex_of_nat 3, ''abc''), (hex_of_nat 1, ''d'')] (hex_of_nat 0) CRLF]) =
      Some (Inr (), st') \<and> exResp st' = ''abcd''"
proof -
  let ?cs = "[(hex_of_nat 3, ''abc''), (hex_of_nat 1, ''d'')]"
  have no_cr: "CR \<notin> set (hex_of_nat n)" for n
    using hex_of_nat_digits [of CR n] by (auto simp: hex_digit_def)
  have "list_all chunk_ok ?cs"
    using sscanf_x_print [of 3] sscanf_x_print [of 1] no_cr by (simp add: chunk_ok_def)
  moreover have "sscanf_x (hex_of_nat 0) = Some 0" using sscanf_x_print [of 0] by simp
  ultimately show ?thesis
    using chunked_body_decoded [of ?cs "hex_of_nat 0" CRLF "sample_exchange [chunk_stream ?cs (hex_of_nat 0) CRLF]" NUL 9 1]
      sample_exchange_reading [of "[chunk_stream ?cs (hex_of_nat 0) CRLF]"] no_cr
    by (simp add: sample_exchange_def)
qed

section \<open>The endpoint\<close>

lemma find_str_scheme: "CHR '':'' \<notin> set p \<Longrightarrow> find_str ''://'' (p @ ''://'' @ r) = Some (length p)"
  by (induction p) auto

text \<open>A URL with its parts: no separator inside the scheme and the host.\<close>

definition url_parts_ok :: "string \<Rightarrow> string \<Rightarrow> string \<Rightarrow> bool" where
  "url_parts_ok proto host path \<longleftrightarrow> CHR '':'' \<notin> set proto \<and>
    CHR '':'' \<notin> set host \<and> CHR ''/'' \<notin> set host \<and> CHR ''@'' \<notin> set host \<and>
    (path = [] \<or> hd path = CHR ''/'')"

definition default_port :: "string \<Rightarrow> int" where
  "default_port proto = (if proto = ''https'' then 443 else 80)"

lemma find_ch_skip:
  "c \<notin> set h \<Longrightarrow> find_ch c (h @ p) = (case find_ch c p of None \<Rightarrow> None | Some q \<Rightarrow> Some (length h + q))"
  by (induction h) (auto split: option.split)

lemma drop_auth_none:
  assumes "CHR ''@'' \<notin> set host" "CHR ''/'' \<notin> set host" "path = [] \<or> hd path = CHR ''/''"
  shows "drop_auth (host @ path) = host @ path"
proof (cases path)
  case Nil
  then show ?thesis using assms(1) by (simp add: drop_auth_def find_ch_None [THEN iffD2])
next
  case (Cons x p)
  then have "find_ch (CHR ''/'') (host @ path) = Some (length host)"
    using assms(2,3) by (simp add: str_simps)
  then show ?thesis
    using assms(1) by (simp add: drop_auth_def find_ch_skip split: option.split)
qed

lemma drop_auth_user:
  assumes "CHR ''@'' \<notin> set user" "CHR ''/'' \<notin> set user" "length user < 4294967290"
  shows "drop_auth (user @ CHR ''@'' # r) = r"
proof -
  have at: "find_ch (CHR ''@'') (user @ CHR ''@'' # r) = Some (length user)"
    using assms(1) by (simp add: str_simps)
  have "length user < as_size (find_ch (CHR ''/'') (user @ CHR ''@'' # r))"
  proof (cases "find_ch (CHR ''/'') (user @ CHR ''@'' # r)")
    case None
    with assms(3) show ?thesis by (simp add: npos_value)
  next
    case (Some q)
    have "length u < q" if "find_ch (CHR ''/'') (u @ CHR ''@'' # r) = Some q" "CHR ''/'' \<notin> set u" for u
      using that by (induction u arbitrary: q) auto
    with Some assms(2) show ?thesis by simp
  qed
  with at show ?thesis by (simp add: drop_auth_def)
qed

text \<open>The authority of a URL: an optional user, the host, and an optional port.\<close>

definition user_part :: "string option \<Rightarrow> string" where
  "user_part u = (case u of Some x \<Rightarrow> x @ ''@'' | None \<Rightarrow> [])"

definition user_ok :: "string option \<Rightarrow> bool" where
  "user_ok u = (case u of
     Some x \<Rightarrow> CHR ''@'' \<notin> set x \<and> CHR ''/'' \<notin> set x \<and> length x < 4294967290
   | None \<Rightarrow> True)"

lemma drop_user:
  assumes "user_ok u" "CHR ''@'' \<notin> set host" "CHR ''/'' \<notin> set host" "path = [] \<or> hd path = CHR ''/''"
  shows "drop_auth (user_part u @ host @ path) = host @ path"
  using assms drop_auth_none [OF assms(2-4)] drop_auth_user
  by (auto simp: user_part_def user_ok_def split: option.split)

lemma parse_endpoint_scheme:
  assumes "CHR '':'' \<notin> set proto"
  shows "find_str ''://'' (proto @ ''://'' @ r) = Some (length proto)" "take (length proto) (proto @ ''://'' @ r) = proto"
    "drop (length proto + 3) (proto @ ''://'' @ r) = r"
  using find_str_scheme [OF assms, of r] by simp_all

text \<open>C34 (roundtrip). The client takes a URL apart into what it was put together from: scheme,
  host, port (given, or the scheme's default) and path, with or without a user part, when the
  port is given or there is no colon in the path.\<close>
theorem parse_endpoint_parts:
  assumes "url_parts_ok proto host path" "user_ok u" "port < 2147483648"
  shows "parse_endpoint (proto @ ''://'' @ user_part u @ host @ '':'' @ dec_of_nat port @ path) =
      Some (proto, host, int port, if path = [] then ''/'' else path) \<and>
    (CHR '':'' \<in> set path \<or>
      parse_endpoint (proto @ ''://'' @ user_part u @ host @ path) =
        Some (proto, host, default_port proto, if path = [] then ''/'' else path))"
proof (intro conjI)
  have p: "CHR '':'' \<notin> set proto" "CHR '':'' \<notin> set host" "CHR ''/'' \<notin> set host" "CHR ''@'' \<notin> set host"
      "path = [] \<or> hd path = CHR ''/''"
    using assms(1) by (auto simp: url_parts_ok_def)
  let ?hp = "host @ '':'' @ dec_of_nat port"
  have hp: "CHR ''@'' \<notin> set ?hp" "CHR ''/'' \<notin> set ?hp" using p by (auto simp: is_digit_def)
  have d: "drop_auth (user_part u @ host @ '':'' @ dec_of_nat port @ path) = host @ CHR '':'' # dec_of_nat port @ path"
    using drop_user [OF assms(2) hp p(5)] by simp
  have c: "find_ch (CHR '':'') (host @ CHR '':'' # dec_of_nat port @ path) = Some (length host)"
    using p(2) by (simp add: str_simps)
  have "find_ch (CHR ''/'') (dec_of_nat port @ path) = (if path = [] then None else Some (length (dec_of_nat port)))"
  proof (cases path)
    case Nil
    then show ?thesis by (simp add: find_ch_None)
  next
    case (Cons x q)
    with p(5) find_ch_append [of "CHR ''/''" "dec_of_nat port" q] show ?thesis by simp
  qed
  then show "parse_endpoint (proto @ ''://'' @ user_part u @ host @ '':'' @ dec_of_nat port @ path) =
      Some (proto, host, int port, if path = [] then ''/'' else path)"
    unfolding parse_endpoint_def parse_endpoint_scheme [OF p(1)] option.case Let_def d c
    using assms(3) by simp
  show "CHR '':'' \<in> set path \<or> parse_endpoint (proto @ ''://'' @ user_part u @ host @ path) =
      Some (proto, host, default_port proto, if path = [] then ''/'' else path)"
  proof (cases "CHR '':'' \<in> set path")
    case False
    have colon: "find_ch (CHR '':'') (host @ path) = None" using False p(2) by (simp add: find_ch_None)
    have "find_ch (CHR ''/'') (host @ path) = (if path = [] then None else Some (length host))"
    proof (cases path)
      case Nil
      then show ?thesis using p(3) by (simp add: find_ch_None)
    next
      case (Cons x q)
      with p(3,5) show ?thesis by (simp add: str_simps)
    qed
    then show ?thesis
      unfolding parse_endpoint_def parse_endpoint_scheme [OF p(1)] option.case Let_def
        drop_user [OF assms(2) p(4,3,5)] colon
      by (simp add: default_port_def)
  qed simp
qed

lemma parse_endpoint_parts_witness:
  "parse_endpoint ''https://me@h/x'' = Some (''https'', ''h'', 443, ''/x'')"
  using parse_endpoint_parts [of "''https''" "''h''" "''/x''" "Some ''me''" 1]
  by (simp add: url_parts_ok_def user_ok_def user_part_def default_port_def)

text \<open>Without a port, a colon in the path is taken for the port separator: the
  host then contains the path up to that colon, and the port is what \<open>atoi\<close> reads after it.\<close>
theorem colon_in_path_splits_host:
  assumes "url_parts_ok proto host (CHR ''/'' # a)" "CHR '':'' \<notin> set a" "CHR ''/'' \<notin> set b"
  shows "parse_endpoint (proto @ ''://'' @ host @ CHR ''/'' # a @ CHR '':'' # b) =
    Some (proto, host @ CHR ''/'' # a, atoi b, ''/'')"
proof -
  have p: "CHR '':'' \<notin> set proto" "CHR '':'' \<notin> set host" "CHR ''/'' \<notin> set host" "CHR ''@'' \<notin> set host"
    using assms(1) by (auto simp: url_parts_ok_def)
  have "drop_auth (host @ CHR ''/'' # a @ CHR '':'' # b) = host @ CHR ''/'' # a @ CHR '':'' # b"
    using drop_auth_none [OF p(4,3), of "CHR ''/'' # a @ CHR '':'' # b"] by simp
  moreover have "find_ch (CHR '':'') (host @ CHR ''/'' # a @ CHR '':'' # b) = Some (length (host @ CHR ''/'' # a))"
    using find_ch_append [of "CHR '':''" "host @ CHR ''/'' # a" b] p(2) assms(2) by simp
  moreover have "find_ch (CHR ''/'') b = None" using assms(3) by (simp add: find_ch_None)
  ultimately show ?thesis
    unfolding parse_endpoint_def parse_endpoint_scheme [OF p(1)] option.case Let_def by simp
qed

lemma colon_in_path_splits_host_witness:
  "parse_endpoint ''http://h/t:8'' = Some (''http'', ''h/t'', 8, ''/'')"
proof -
  have "''8'' = dec_of_nat 8" by code_simp
  then have "atoi ''8'' = 8" by simp
  then show ?thesis
    using colon_in_path_splits_host [of "''http''" "''h''" "''t''" "''8''"] by (simp add: url_parts_ok_def)
qed

section \<open>The request\<close>

lemma body_chunks_facts:
  "0 < chunk \<Longrightarrow> chunk \<le> 1024 \<Longrightarrow> n \<le> length body \<Longrightarrow>
   concat (body_chunks body chunk n) = drop n body \<and>
   (\<forall>c \<in> set (body_chunks body chunk n). c \<noteq> [] \<and> length c \<le> 1024)"
proof (induction body chunk n rule: body_chunks.induct)
  case (1 body chunk n)
  show ?case
  proof (cases "n < length body")
    case True
    let ?k = "if n + chunk > length body then length body - n else chunk"
    have k: "0 < ?k" "?k \<le> 1024" "n + ?k \<le> length body" using True "1.prems" by auto
    have IH: "concat (body_chunks body ?k (n + ?k)) = drop (n + ?k) body"
        "\<forall>c \<in> set (body_chunks body ?k (n + ?k)). c \<noteq> [] \<and> length c \<le> 1024"
      using "1.IH" [OF _ refl k] True "1.prems"(1) by simp_all
    have unf: "body_chunks body chunk n = take ?k (drop n body) # body_chunks body ?k (n + ?k)"
      using True "1.prems"(1) by (simp add: body_chunks.simps [of body chunk n] Let_def)
    have "take ?k (drop n body) @ drop (n + ?k) body = drop n body"
      by (metis add.commute append_take_drop_id drop_drop)
    moreover have "take ?k (drop n body) \<noteq> []" "length (take ?k (drop n body)) \<le> 1024"
      using k True by auto
    ultimately show ?thesis unfolding unf using IH by simp
  next
    case False
    then have "body_chunks body chunk n = []" by (simp add: body_chunks.simps [of body chunk n])
    with False "1.prems" show ?thesis by simp
  qed
qed

lemma client_writes_free:
  "ThrowExceptions s \<Longrightarrow> chan_free (chan s) \<Longrightarrow> \<forall>x \<in> set xs. x \<noteq> [] \<and> length x < 2147483648 \<Longrightarrow>
   run_acts (map client_write xs) s = (Inr (), set_chan ((chan s)\<lparr>tx := tx (chan s) @ concat xs\<rparr>) s)"
proof (induction xs arbitrary: s)
  case (Cons x xs)
  have "client_write x s = (Inr (), set_chan ((chan s)\<lparr>tx := tx (chan s) @ x\<rparr>) s)"
    using write_free [of s x] Cons.prems by (simp add: client_write_def)
  with Cons show ?case by (simp add: chan_free_def)
qed simp

text \<open>The fields of the request in the order they are sent; the map of headers is in key order.\<close>

definition request_fields :: "CClient \<Rightarrow> string \<Rightarrow> string \<Rightarrow> (string \<times> string) list" where
  "request_fields cl host body =
    (''Host'', '' '' @ host) # map (\<lambda>h. (fst h, '' '' @ snd h)) (clAdditionalHeaders cl) @
    (if 0 < length body then [(''Content-length'', '' '' @ dec_of_nat (length body))] else [])"

lemma request_text_block:
  "request_text cl host path body = request_block (clMethod cl) path ''HTTP/1.1'' (request_fields cl host body)"
proof -
  have "concat (map header_text hs) = concat (map (\<lambda>l. l @ CRLF) (map field_line (map (\<lambda>h. (fst h, '' '' @ snd h)) hs)))" for hs
    by (induction hs) (simp_all add: header_text_def field_line_def)
  then show ?thesis
    by (simp add: request_text_def request_block_def request_fields_def request_line_def field_line_def)
qed

lemma client_sends_block:
  assumes "ThrowExceptions s" "chan_free (chan s)" "length (request_text cl host path body) < 2147483648"
  shows "send_request (request_text cl host path body) body s =
    (Inr (), set_chan ((chan s)\<lparr>tx := tx (chan s) @
      request_block (clMethod cl) path ''HTTP/1.1'' (request_fields cl host body) @ body\<rparr>) s)"
proof -
  have chunks: "concat (body_chunks body 1024 0) = body" "\<forall>c \<in> set (body_chunks body 1024 0). c \<noteq> [] \<and> length c \<le> 1024"
    using body_chunks_facts [of 1024 0 body] by simp_all
  have "request_text cl host path body \<noteq> []" by (simp add: request_text_def)
  then have "\<forall>x \<in> set (request_text cl host path body # body_chunks body 1024 0). x \<noteq> [] \<and> length x < 2147483648"
    using chunks(2) assms(3) by fastforce
  from client_writes_free [OF assms(1,2) this] chunks(1) show ?thesis
    by (simp add: send_request_def request_text_block)
qed

text \<open>On a connection that accepts everything the client sends exactly the
  request line, \<open>Host\<close>, its own headers in key order, \<open>Content-length\<close> when there is a body, a
  blank line, and the whole body, cut into writes of at most 1024 bytes.\<close>
theorem client_sends_request:
  assumes "ThrowExceptions s" "chan_free (chan s)" "length (request_text cl host path body) < 2147483648"
  shows "send_request (request_text cl host path body) body s =
    (Inr (), set_chan ((chan s)\<lparr>tx := tx (chan s) @
      request_block (clMethod cl) path ''HTTP/1.1'' (request_fields cl host body) @ body\<rparr>) s)"
  using assms by (rule client_sends_block)

lemma client_sends_request_witness:
  "fst (send_request (request_text new_CClient ''h'' ''/'' ''{}'') ''{}'' (setThrowExceptions True (plain_sock idle_channel))) = Inr ()"
proof -
  have "length (request_text new_CClient ''h'' ''/'' ''{}'') < 2147483648"
    by (simp add: request_text_def new_CClient_def header_text_def dec_of_nat.simps)
  then show ?thesis
    using client_sends_request [of "setThrowExceptions True (plain_sock idle_channel)" new_CClient "''h''" "''/''" "''{}''"]
    by (simp add: plain_sock_def new_sock_def setThrowExceptions_def chan_def chan_free_def idle_channel_def)
qed

end
