(* ===== verification/End_To_End.thy ===== *)
theory End_To_End
  imports Http_Handler Http_Client_Facts
begin

text \<open>
  The client and the server together: \<open>CClient::runRequest\<close> at one end of a connection and
  \<open>CNode::run\<close> at the other, each given the bytes the other one sent.
\<close>

lemma setTimeout_chan [simp]: "chan (setTimeout n s) = chan s" "ThrowExceptions (setTimeout n s) = ThrowExceptions s"
  by (simp_all add: setTimeout_def chan_def)

lemma plain_client_sock:
  "(new_sock fd True 0 False False [] c c)\<lparr>SSLMutual := False\<rparr> = new_sock fd True 0 False False [] c c"
  by (simp add: new_sock_def)

lemma client_socket:
  "chan (setThrowExceptions True (new_sock fd True 0 False False [] c c)) = c"
  "ThrowExceptions (setThrowExceptions True (new_sock fd True 0 False False [] c c))"
  "SSLEnabled (setThrowExceptions True (new_sock fd True 0 False False [] c c)) = False"
  by (simp_all add: new_sock_def setThrowExceptions_def chan_def)

text \<open>The client's half: what it gets when the bytes that come back are those of a response.\<close>

lemma client_call_returns:
  assumes url: "parse_endpoint (clEndpoint cl) = Some (''http'', host, port, path)" "\<not> clUseSSL cl"
    and net: "net False host port = c" "chan_free c" "chan_ok c" "pending c = render dt resp"
    and len: "length (request_text cl host path body) < 2147483648"
    and resp: "response_fits dt resp"
  shows "\<exists>c1. runRequest net new_fd b1 k body False cl =
        Some (Inr ((new_MResponse (rsCode resp) (rsBody resp) [])\<lparr>rsContentType := trim (rsContentType resp)\<rparr>), cl, Some c1)
    \<and> pending c1 = []"
proof -
  let ?fs = "request_fields cl host body"
  let ?s = "setTimeout (clTimeout cl) (setThrowExceptions True (new_sock new_fd True 0 False False [] c c))"
  have s: "chan ?s = c" "ThrowExceptions ?s" by (simp_all add: client_socket)
  have snd: "send_request (request_text cl host path body) body ?s = (Inr (), set_chan (c\<lparr>tx := tx c @
      request_block (clMethod cl) path ''HTTP/1.1'' ?fs @ body\<rparr>) ?s)"
    using client_sends_block [OF s(2) _ len] net(2) s(1) by simp
  let ?st = "\<lparr>exSock = set_chan (c\<lparr>tx := tx c @ request_block (clMethod cl) path ''HTTP/1.1'' ?fs @ body\<rparr>) ?s,
    exCode = 0, exResp = [], exHeaders = [], exContentType = ''application/json'', exLocation = []\<rparr>"
  have rd: "ex_reading (render dt resp) ?st" "new_exchange ?st"
    using s net(3,4) by (simp_all add: ex_reading_def new_exchange_def chan_ok_def pending_def)
  obtain st1 where st1: "read_response b1 k (clTimeout cl) ?st = Some (Inr (), st1)"
    "exchange_response st1 = (new_MResponse (rsCode resp) (rsBody resp) [])\<lparr>rsContentType := trim (rsContentType resp)\<rparr>"
    "pending (chan (exSock st1)) = []"
    using client_gets_response [OF resp rd, of b1 k "clTimeout cl"] by blast
  have "client_exchange b1 k cl host path body False (setThrowExceptions True (new_sock new_fd True 0 False False [] c c))
      = Some (Inr (), st1)"
    using snd st1(1) by (simp add: client_exchange_def Let_def)
  then have "runRequest net new_fd b1 k body False cl = Some (Inr (exchange_response st1), cl, Some (chan (exSock st1)))"
    using url net(1) by (simp add: runRequest_def Let_def plain_client_sock)
  with st1 show ?thesis by auto
qed


definition sample_client :: CClient where
  "sample_client = new_CClient\<lparr>clEndpoint := ''http://h/e''\<rparr>"

lemma sample_client_fields:
  "request_fields sample_client ''h'' ''hi'' =
    [(''Host'', '' h''), (''Content-type'', '' application/json''), (''Content-length'', '' 2'')]"
  "clMethod sample_client = ''POST''" "\<not> clUseSSL sample_client"
  "parse_endpoint (clEndpoint sample_client) = Some (''http'', ''h'', 80, ''/e'')"
  by code_simp+

lemma sample_client_wire:
  "wire_ok ''POST'' ''/e'' ''HTTP/1.1'' [(''Host'', '' h''), (''Content-type'', '' application/json''), (''Content-length'', '' 2'')] ''hi''"
proof -
  have "stored_value [(''Host'', '' h''), (''Content-type'', '' application/json''), (''Content-length'', '' 2'')] ''content-length'' = Some ''2''"
    by code_simp
  moreover have "atoi ''2'' = 2"
  proof -
    have "''2'' = dec_of_nat 2" by code_simp
    then show ?thesis by simp
  qed
  ultimately show ?thesis by (simp add: wire_ok_def request_ok_def request_line_def field_ok_def)
qed

lemma sample_response_ok:
  "response_fits asctime_sample (new_MResponse 200 ''hi!'' [])"
proof -
  have "trim ''application/json'' = ''application/json''" "dec_of_nat (Suc (Suc (Suc 0))) = ''3''" by code_simp+
  then show ?thesis
    by (simp add: response_fits_def response_fields_def new_MResponse_def sid_field_def response_date_def
        asctime_sample_def field_fits_def)
qed


end
