(* ===== verification/Remote_Calls.thy ===== *)
theory Remote_Calls
  imports Whole_Server End_To_End
begin

text \<open>
  The server as a shared object. Any number of clients (\<open>CClient::runRequest\<close>) call the endpoints of
  one server (\<open>CServer::run\<close>) at the same time. The specification applies the endpoints' functions to
  the server object one after the other, with no connection, header or thread in sight; the whole
  server of \<open>Whole_Server\<close> implements it.
\<close>

section \<open>The specification\<close>

text \<open>A call: the client object with what \<open>runRequest\<close> makes of its URL, and the body.\<close>

record remote_call =
  rcClient :: CClient
  rcHost :: string
  rcPort :: int
  rcPath :: string
  rcBody :: string

definition call_bytes :: "remote_call \<Rightarrow> string" where
  "call_bytes rc = request_text (rcClient rc) (rcHost rc) (rcPath rc) (rcBody rc) @ rcBody rc"

definition call_fields :: "remote_call \<Rightarrow> (string \<times> string) list" where
  "call_fields rc = request_fields (rcClient rc) (rcHost rc) (rcBody rc)"

definition call_request :: "remote_call \<Rightarrow> MRequest" where
  "call_request rc = request_of (rcPath rc) (call_fields rc) (rcBody rc)"

definition call_endpoint :: "remote_call \<Rightarrow> server \<Rightarrow> MEndpoint option" where
  "call_endpoint rc srv = getEndpoint (path_of (rcPath rc)) (clMethod (rcClient rc)) srv"

definition call_ok :: "remote_call \<Rightarrow> bool" where
  "call_ok rc \<longleftrightarrow> parse_endpoint (clEndpoint (rcClient rc)) = Some (''http'', rcHost rc, rcPort rc, rcPath rc) \<and>
    \<not> clUseSSL (rcClient rc) \<and> wire_ok (clMethod (rcClient rc)) (rcPath rc) ''HTTP/1.1'' (call_fields rc) (rcBody rc) \<and>
    path_of (rcPath rc) \<noteq> [] \<and> length (request_text (rcClient rc) (rcHost rc) (rcPath rc) (rcBody rc)) < 2147483648"

text \<open>The object: each call in turn is the function of its endpoint on the server the last one left.\<close>

fun calls_in_turn :: "(nat \<Rightarrow> callbacks) \<Rightarrow> remote_call list \<Rightarrow> nat list \<Rightarrow> server \<Rightarrow> ((nat \<times> MResponse) list \<times> server) option" where
  "calls_in_turn cb rcs [] srv = Some ([], srv)"
| "calls_in_turn cb rcs (i # is) srv =
    (case call_endpoint (rcs ! i) srv of
       None \<Rightarrow> None
     | Some ep \<Rightarrow>
         (case cb i (epCallback ep) (call_request (rcs ! i)) srv of
            (Inl _, _) \<Rightarrow> None
          | (Inr resp, srv1) \<Rightarrow> map_option (\<lambda>(outs, srv2). ((i, resp) # outs, srv2)) (calls_in_turn cb rcs is srv1)))"

text \<open>What the client sees: its \<open>runRequest\<close> returns the response, whatever the segments the bytes come in.\<close>

definition call_returns :: "remote_call \<Rightarrow> string \<Rightarrow> MResponse \<Rightarrow> bool" where
  "call_returns rc bytes resp \<longleftrightarrow> (\<forall>net fd b k c. net False (rcHost rc) (rcPort rc) = c \<longrightarrow> chan_free c \<longrightarrow> chan_ok c \<longrightarrow> Net_Socket.pending c = bytes \<longrightarrow>
    (\<exists>c1. runRequest net fd b k (rcBody rc) False (rcClient rc) =
      Some (Inr ((new_MResponse (rsCode resp) (rsBody resp) [])\<lparr>rsContentType := trim (rsContentType resp)\<rparr>), rcClient rc, Some c1)
      \<and> Net_Socket.pending c1 = []))"

lemma call_returns_rendered: "call_ok rc \<Longrightarrow> response_fits dt resp \<Longrightarrow> call_returns rc (render dt resp) resp"
  unfolding call_returns_def call_ok_def using client_call_returns by blast

section \<open>One call on one connection\<close>

text \<open>A connection that carries the bytes of a call to an endpoint of the server.\<close>

definition carries :: "server \<Rightarrow> CNode \<Rightarrow> remote_call \<Rightarrow> bool" where
  "carries srv nd rc \<longleftrightarrow> call_ok rc \<and> call_endpoint rc srv \<noteq> None \<and> node_reading (call_bytes rc) nd \<and>
    chan_free (chan (ndSocket nd)) \<and> ndHeaders nd = [] \<and> ndQueryString nd = []"

text \<open>The endpoint's function answers the call with a response that can be sent and read.\<close>

definition answers_well :: "(server \<Rightarrow> bool) \<Rightarrow> thread_env \<Rightarrow> callbacks \<Rightarrow> remote_call \<Rightarrow> bool" where
  "answers_well holds en cb rc \<longleftrightarrow> (\<forall>srv srv1 ep resp. holds srv \<longrightarrow> call_endpoint rc srv = Some ep \<longrightarrow>
    cb (epCallback ep) (call_request rc) srv = (Inr resp, srv1) \<longrightarrow>
    complete_response (teDate en) resp \<and> response_fits (teDate en) resp)"

lemma sent_bytes_of: "tx (chan s) = tx (chan k) @ out \<Longrightarrow> drop (length (tx (chan k))) (tx (chan s)) = out"
  by simp

lemma call_runs_alone:
  assumes "carries srv nd rc" "call_endpoint rc srv = Some ep"
    and "cb (epCallback ep) (call_request rc) srv = (Inr resp, srv1)" "complete_response (teDate en) resp"
  shows "\<exists>nd1. run_alone en cb nd (srv, fs) = Some (nd1, (srv1, fs)) \<and>
    tx (chan (ndSocket nd1)) = tx (chan (ndSocket nd)) @ render (teDate en) resp"
proof -
  let ?w = "\<lparr>wNode = nd, wServer = srv, wFiles = fs\<rparr>" and ?m = "clMethod (rcClient rc)"
  have bytes: "call_bytes rc = wire_request ?m (rcPath rc) ''HTTP/1.1'' (call_fields rc) (rcBody rc)"
    by (simp add: call_bytes_def wire_request_def call_fields_def request_text_block)
  have fresh: "fresh_world (wire_request ?m (rcPath rc) ''HTTP/1.1'' (call_fields rc) (rcBody rc)) ?w"
    using assms(1) by (simp add: carries_def fresh_world_def bytes)
  have wire: "wire_ok ?m (rcPath rc) ''HTTP/1.1'' (call_fields rc) (rcBody rc)" "path_of (rcPath rc) \<noteq> []"
    using assms(1) by (simp_all add: carries_def call_ok_def)
  have "dispatch (teFbuf en) (teDate en) cb (?w\<lparr>wNode := nd2\<rparr>)
      = (Inr (), (?w\<lparr>wServer := srv1\<rparr>)\<lparr>wNode := Http_Node_Facts.sent (render (teDate en) resp) nd2\<rparr>)"
    if "ndPath nd2 = path_of (rcPath rc)" "ndMethod nd2 = ?m" "node_request nd2 = request_of (rcPath rc) (call_fields rc) (rcBody rc)"
      "writer_ok nd2" for nd2
    using that assms(2-4) wire(2) by (simp add: dispatch_def Let_def respond_complete call_endpoint_def call_request_def)
  from node_run_wire [OF fresh wire(1) this] obtain w1 where
    w1: "node_run (teBuf0 en) (teFbuf en) (teDate en) cb ?w = Some (Inr (), w1)" "wServer w1 = srv1" "wFiles w1 = fs"
      "tx (chan (ndSocket (wNode w1))) = tx (chan (ndSocket nd)) @ render (teDate en) resp" by fastforce
  then show ?thesis by (simp add: run_alone_def)
qed

section \<open>All calls\<close>

lemma call_endpoint_same: "srvEndpoints srv = srvEndpoints srv1 \<Longrightarrow> call_endpoint rc srv = call_endpoint rc srv1"
  unfolding call_endpoint_def by (rule same_endpoint)

lemma carries_same: "srvEndpoints srv = srvEndpoints srv1 \<Longrightarrow> carries srv nd rc = carries srv1 nd rc"
  using call_endpoint_same [of srv srv1 rc] by (simp add: carries_def)

definition all_carry :: "(server \<Rightarrow> bool) \<Rightarrow> (nat \<Rightarrow> thread_env) \<Rightarrow> (nat \<Rightarrow> callbacks) \<Rightarrow> server \<Rightarrow> CNode list \<Rightarrow> remote_call list \<Rightarrow> nat \<Rightarrow> bool" where
  "all_carry holds env cb srv nds rcs i \<longleftrightarrow> carries srv (nds ! i) (rcs ! i) \<and> answers_well holds (env i) (cb i) (rcs ! i)"

lemma one_call:
  assumes "functions_keep cb holds" "keeps_endpoints (cb i)" "holds srv" "all_carry holds env cb srv nds rcs i"
  obtains ep resp srv1 nd1 where "call_endpoint (rcs ! i) srv = Some ep" "cb i (epCallback ep) (call_request (rcs ! i)) srv = (Inr resp, srv1)"
    "holds srv1" "srvEndpoints srv1 = srvEndpoints srv" "response_fits (teDate (env i)) resp"
    "run_alone (env i) (cb i) (nds ! i) (srv, fs) = Some (nd1, (srv1, fs))"
    "tx (chan (ndSocket nd1)) = tx (chan (ndSocket (nds ! i))) @ render (teDate (env i)) resp"
proof -
  have c: "carries srv (nds ! i) (rcs ! i)" "answers_well holds (env i) (cb i) (rcs ! i)"
    using assms(4) by (simp_all add: all_carry_def)
  then obtain ep where ep: "call_endpoint (rcs ! i) srv = Some ep" by (metis carries_def not_None_eq)
  obtain resp srv1 where cb: "cb i (epCallback ep) (call_request (rcs ! i)) srv = (Inr resp, srv1)" "holds srv1"
    using assms(1,3) unfolding functions_keep_def by blast
  have "srvEndpoints srv1 = srvEndpoints srv" using assms(2) cb(1) unfolding keeps_endpoints_def by (metis snd_conv)
  moreover have fits: "complete_response (teDate (env i)) resp" "response_fits (teDate (env i)) resp"
    using c(2) assms(3) ep cb(1) unfolding answers_well_def by blast+
  moreover obtain nd1 where "run_alone (env i) (cb i) (nds ! i) (srv, fs) = Some (nd1, (srv1, fs))"
    "tx (chan (ndSocket nd1)) = tx (chan (ndSocket (nds ! i))) @ render (teDate (env i)) resp"
    using call_runs_alone [where en = "env i" and fs = fs and cb = "cb i", OF c(1) ep cb(1) fits(1)] by blast
  ultimately show thesis by (intro that [OF ep cb])
qed

text \<open>The connection has been sent the response of its call.\<close>

definition got :: "(nat \<Rightarrow> thread_env) \<Rightarrow> CNode list \<Rightarrow> (nat \<times> MResponse) list \<Rightarrow> nat \<Rightarrow> CNode \<Rightarrow> bool" where
  "got env nds resps i nd \<longleftrightarrow> (\<exists>resp. (i, resp) \<in> set resps \<and> response_fits (teDate (env i)) resp \<and>
    tx (chan (ndSocket nd)) = tx (chan (ndSocket (nds ! i))) @ render (teDate (env i)) resp)"

lemma got_more: "got env nds resps i nd \<Longrightarrow> got env nds (x # resps) i nd"
  by (auto simp: got_def)

lemma served_calls:
  assumes "serve_in_turn env cb nds order (srv, fs) = Some (outs, s2)"
    and "functions_keep cb holds" "\<forall>i. keeps_endpoints (cb i)" "holds srv" "\<forall>i \<in> set order. all_carry holds env cb srv nds rcs i"
  shows "\<exists>resps. calls_in_turn cb rcs order srv = Some (resps, fst s2) \<and> snd s2 = fs \<and>
    (\<forall>(i, nd) \<in> set outs. got env nds resps i nd)"
  using assms(1,4,5)
proof (induction order arbitrary: srv outs)
  case Nil
  then show ?case by auto
next
  case (Cons i order)
  have i: "all_carry holds env cb srv nds rcs i" using Cons.prems(3) by simp
  obtain ep resp srv1 nd1 where one: "call_endpoint (rcs ! i) srv = Some ep"
    "cb i (epCallback ep) (call_request (rcs ! i)) srv = (Inr resp, srv1)" "holds srv1" "srvEndpoints srv1 = srvEndpoints srv"
    "response_fits (teDate (env i)) resp" "run_alone (env i) (cb i) (nds ! i) (srv, fs) = Some (nd1, (srv1, fs))"
    "tx (chan (ndSocket nd1)) = tx (chan (ndSocket (nds ! i))) @ render (teDate (env i)) resp"
    by (rule one_call [OF assms(2) _ Cons.prems(2) i, where fs = fs]) (use assms(3) in simp_all)
  obtain outs1 where rest: "serve_in_turn env cb nds order (srv1, fs) = Some (outs1, s2)" "outs = (i, nd1) # outs1"
    using Cons.prems(1) one(6) by (auto split: option.splits)
  have "\<forall>j \<in> set order. all_carry holds env cb srv1 nds rcs j"
    using Cons.prems(3) carries_same [OF one(4)] by (simp add: all_carry_def)
  from Cons.IH [OF rest(1) one(3) this] obtain resps where r: "calls_in_turn cb rcs order srv1 = Some (resps, fst s2)" "snd s2 = fs"
    "\<forall>(i, nd) \<in> set outs1. got env nds resps i nd" by blast
  have "calls_in_turn cb rcs (i # order) srv = Some ((i, resp) # resps, fst s2)" using one(1,2) r(1) by simp
  moreover have "got env nds ((i, resp) # resps) i nd1" using one(5,7) by (auto simp: got_def)
  then have "\<forall>(j, nd) \<in> set outs. got env nds ((i, resp) # resps) j nd"
    using r(3) got_more [of env nds resps _ _ "(i, resp)"] unfolding rest(2) by fastforce
  ultimately show ?case using r(2) by blast
qed

lemma subseq_member: "subseq xs ys \<Longrightarrow> x \<in> set xs \<Longrightarrow> x \<in> set ys"
  by (induction rule: list_emb.induct) auto

lemma remote_calls_in_turn:
  assumes "srvThreadLimit srv \<noteq> - 1" and "functions_keep cb holds" and "\<forall>i. keeps_endpoints (cb i)" and "holds srv"
    and "\<forall>nd \<in> set (nodes_of es). carries srv nd (ask nd) \<and> (\<forall>i. answers_well holds (env i) (cb i) (ask nd))"
    and "whole_run env cb es (whole_start srv fs) = Some w" and "\<not> huAbort (whHub w)"
  obtains nds order resps where "subseq nds (nodes_of es)" "length nds = length (workers w)" "distinct order"
    "subseq order (answers_of es)" "set order \<subseteq> {..<length nds}" "calls_in_turn cb (map ask nds) order srv = Some (resps, huServer (whHub w))"
    "huFiles (whHub w) = fs"
    "\<forall>i < length nds. gone_on (workers w ! i) \<longrightarrow> (\<exists>nd resp. huConns (whHub w) ! i = Served nd \<and> (i, resp) \<in> set resps \<and>
       call_returns (ask (nds ! i)) (drop (length (tx (chan (ndSocket (nds ! i))))) (tx (chan (ndSocket nd)))) resp)"
proof -
  obtain nds order outs where lin: "subseq nds (nodes_of es)" "length nds = length (workers w)" "distinct order"
    "subseq order (answers_of es)" "set order \<subseteq> {..<length nds}"
    "serve_in_turn env cb nds order (srv, fs) = Some (outs, (huServer (whHub w), huFiles (whHub w)))"
    "\<forall>i < length nds. gone_on (workers w ! i) \<longrightarrow> (\<exists>nd. (i, nd) \<in> set outs \<and> huConns (whHub w) ! i = Served nd)"
    "\<forall>i < length nds. waiting (workers w ! i) \<longrightarrow> i \<notin> set order"
    by (rule whole_server_in_turn [OF assms(1,3,6,7)])
  have ask: "carries srv (nds ! i) (ask (nds ! i))" "answers_well holds (env j) (cb j) (ask (nds ! i))" if "i < length nds" for i j
    using assms(5) subseq_member [OF lin(1) nth_mem [OF that]] by blast+
  then have "\<forall>i \<in> set order. all_carry holds env cb srv nds (map ask nds) i"
    using lin(5) by (auto simp: all_carry_def)
  from served_calls [OF lin(6) assms(2,3,4) this] obtain resps where r: "calls_in_turn cb (map ask nds) order srv = Some (resps, huServer (whHub w))"
    "huFiles (whHub w) = fs" "\<And>i nd. (i, nd) \<in> set outs \<Longrightarrow> got env nds resps i nd" by fastforce
  have "\<exists>nd resp. huConns (whHub w) ! i = Served nd \<and> (i, resp) \<in> set resps \<and>
      call_returns (ask (nds ! i)) (drop (length (tx (chan (ndSocket (nds ! i))))) (tx (chan (ndSocket nd)))) resp"
    if i: "i < length nds" "gone_on (workers w ! i)" for i
  proof -
    from lin(7) i obtain nd where nd: "(i, nd) \<in> set outs" "huConns (whHub w) ! i = Served nd" by blast
    from r(3) [OF nd(1)] obtain resp where resp: "(i, resp) \<in> set resps" "response_fits (teDate (env i)) resp"
      "tx (chan (ndSocket nd)) = tx (chan (ndSocket (nds ! i))) @ render (teDate (env i)) resp" unfolding got_def by blast
    have "call_ok (ask (nds ! i))" using ask(1) [OF i(1)] by (simp add: carries_def)
    from call_returns_rendered [OF this resp(2)] nd(2) resp(1) show ?thesis by (auto simp: resp(3))
  qed
  with that lin(1-5) r(1,2) show thesis by blast
qed


section \<open>An example\<close>

definition sample_call :: remote_call where
  "sample_call = \<lparr>rcClient = sample_client, rcHost = ''h'', rcPort = 80, rcPath = ''/e'', rcBody = ''hi''\<rparr>"

definition call_socket :: "remote_call \<Rightarrow> sock" where
  "call_socket rc = plain_sock (idle_channel\<lparr>rx := [call_bytes rc]\<rparr>)"

lemma call_carried:
  assumes "call_ok rc" "call_endpoint rc srv \<noteq> None"
  shows "carries srv (new_CNode 7 (call_socket rc)) rc"
proof -
  let ?nd = "new_CNode 7 (call_socket rc)"
  have "?nd = sample_node [call_bytes rc]" by (simp add: sample_node_def call_socket_def)
  then have "node_reading (call_bytes rc) ?nd" using sample_node_reading [of "[call_bytes rc]"] by simp
  moreover have "chan_free (chan (ndSocket ?nd))" "ndHeaders ?nd = []" "ndQueryString ?nd = []"
    by (simp_all add: new_CNode_def call_socket_def plain_sock_def new_sock_def setTimeout_def setThrowExceptions_def chan_def
        chan_free_def idle_channel_def)
  ultimately show ?thesis using assms by (simp add: carries_def)
qed

lemma carries_open: "carries srv nd rc \<Longrightarrow> node_open nd"
  by (simp add: carries_def node_open_def node_reading_def)

definition dated_env :: "nat \<Rightarrow> thread_env" where
  "dated_env i = \<lparr>teBuf0 = NUL, teFbuf = replicate 512 NUL, teDate = asctime_sample\<rparr>"

lemma sample_call_ok: "call_ok sample_call"
proof -
  have "path_of ''/e'' = ''/e''" by (simp add: path_of_def)
  moreover have "length (request_text sample_client ''h'' ''/e'' ''hi'') < 2147483648"
    by (simp add: request_text_def sample_client_def new_CClient_def header_text_def dec_of_nat.simps)
  ultimately show ?thesis
    using sample_client_fields sample_client_wire by (simp add: call_ok_def sample_call_def call_fields_def)
qed

lemma sample_call_carried:
  "carries (wServer (sample_world [])) (new_CNode 7 (call_socket sample_call)) sample_call"
  "answers_well (\<lambda>_. True) (dated_env i) echo_callbacks sample_call"
proof -
  have "path_of ''/e'' = ''/e''" by (simp add: path_of_def)
  then have "call_endpoint sample_call (wServer (sample_world [])) = Some (new_MEndpoint ''/e'' 1 ''POST'')"
    by (simp add: call_endpoint_def sample_call_def sample_client_fields sample_world_def getEndpoint_def registerEndpoint_def
        new_CServer_def new_MEndpoint_def addDefaultMimeTypes_def default_mime_types_def addMimeType_def)
  with sample_call_ok show "carries (wServer (sample_world [])) (new_CNode 7 (call_socket sample_call)) sample_call"
    by (intro call_carried) simp_all
  have "rqBody (call_request sample_call) = ''hi''"
    unfolding call_request_def call_fields_def sample_call_def by code_simp
  then show "answers_well (\<lambda>_. True) (dated_env i) echo_callbacks sample_call"
    using sample_complete sample_response_ok by (auto simp: answers_well_def echo_callbacks_def dated_env_def)
qed


end
