(* ===== verification/Sample_Calls.thy ===== *)
theory Sample_Calls
  imports Remote_Calls
begin

text \<open>
  The clients of the running sample server (\<open>sample-server/main.cpp\<close>). For its clients the server is a
  list of session identifiers: a call of the set endpoint appends one, a call of the get endpoint
  looks one up, and this is true of all calls of all clients together, in one order.
\<close>

section \<open>The sessions of the sample\<close>

text \<open>Every listed session holds the two values the set endpoint stores.\<close>

definition filled :: "server \<Rightarrow> bool" where
  "filled srv \<longleftrightarrow> tidy srv \<and> (\<forall>p \<in> set (srvSessions srv). map_option snd (session_view srv p) = Some sample_values)"

definition session_ids :: "server \<Rightarrow> string list" where
  "session_ids srv = map (\<lambda>p. fst (the (session_view srv p))) (srvSessions srv)"

lemma filled_start: "mem_ok m \<Longrightarrow> \<forall>x. memory.live m x = None \<Longrightarrow> filled (sample_main m n) \<and> session_ids (sample_main m n) = []"
  using sample_main_tidy(1) [of m n]
  by (simp add: filled_def session_ids_def sample_main_def setThreadLimit_def registerEndpoint_def registerStaticIndex_def
      addStaticDirectory_def setListenPort_def new_CServer_def addDefaultMimeTypes_def default_mime_types_def addMimeType_def)

lemma find_session_find:
  "\<forall>p \<in> set ps. h p \<noteq> None \<Longrightarrow> find_session h sid ps = Inr (find (\<lambda>p. sesID (the (h p)) = sid) ps)"
  by (induction ps) auto

definition session_found :: MResponse where
  "session_found = new_MResponse 200 (session_text ''val1'' ''val2'') []"

definition no_session :: "string \<Rightarrow> MResponse" where
  "no_session sid = new_MResponse 200 (''NO session found. Looking for ID: '' @ sid) []"

lemma getSessionEndpoint_filled:
  assumes "filled srv"
  shows "getSessionEndpoint rq srv = (Inr (if rqSID rq \<in> set (session_ids srv) then session_found else no_session (rqSID rq)), srv)"
proof -
  let ?h = "srvHeap srv" and ?sid = "rqSID rq"
  have t: "tidy srv" using assms by (simp add: filled_def)
  have live: "\<forall>p \<in> set (srvSessions srv). ?h p \<noteq> None" using tidyD [OF t] by (metis option.distinct(1))
  then have ids: "session_ids srv = map (\<lambda>p. sesID (the (?h p))) (srvSessions srv)"
    by (auto simp: session_ids_def session_view_def)
  have get: "getSession ?sid srv = Inr (find (\<lambda>p. sesID (the (?h p)) = ?sid) (srvSessions srv))"
    unfolding getSession_def by (rule find_session_find [OF live])
  show ?thesis
  proof (cases "find (\<lambda>p. sesID (the (?h p)) = ?sid) (srvSessions srv)")
    case None
    then have "?sid \<notin> set (session_ids srv)" by (auto simp: ids find_None_iff)
    with get None show ?thesis by (simp add: getSessionEndpoint_def no_session_def)
  next
    case (Some p)
    then have p: "p \<in> set (srvSessions srv)" "sesID (the (?h p)) = ?sid" by (auto dest: find_SomeD)
    then have "?sid \<in> set (session_ids srv)" by (force simp: ids)
    moreover obtain ses where "?h p = Some ses" "ses_wf ses (srvMemory srv)" by (rule tidyD [OF t p(1)])
    moreover have "map_option snd (session_view srv p) = Some sample_values" using assms p(1) by (simp add: filled_def)
    ultimately show ?thesis using get Some
      by (simp add: getSessionEndpoint_def at_getStringValue_def getStringValue_abs bind_act_def return_act_def session_view_def session_found_def)
  qed
qed

lemma setSessionEndpoint_filled:
  assumes "filled srv"
  obtains sid i srv1 where "setSessionEndpoint now rq srv = (Inr (new_MResponse 200 ''Session set.'' sid), srv1)"
    "sid = dec_of_nat now @ dec_of_nat i" "i < 4294967295" "filled srv1" "srvStaticIndexes srv1 = srvStaticIndexes srv"
    "session_ids srv1 = session_ids srv @ [sid]"
proof -
  have t: "tidy srv" using assms by (simp add: filled_def)
  obtain p i sid srv1 where s: "setSessionEndpoint now rq srv = (Inr (new_MResponse 200 ''Session set.'' sid), srv1)"
    "sid = dec_of_nat now @ dec_of_nat i" "i < 4294967295" "tidy srv1" "srvStaticIndexes srv1 = srvStaticIndexes srv"
    "srvSessions srv1 = srvSessions srv @ [p]" "session_view srv1 p = Some (sid, sample_values)"
    "\<forall>q \<in> set (srvSessions srv). session_view srv1 q = session_view srv q"
    by (rule setSessionEndpoint_tidy [OF t, of now rq])
  then have "filled srv1" "session_ids srv1 = session_ids srv @ [sid]"
    using assms by (auto simp: filled_def session_ids_def)
  with s that show thesis by blast
qed

section \<open>What the endpoints answer can be sent and read\<close>

text \<open>The date that the C library gives, and a request whose cookies are not absurdly long.\<close>

definition date_ok :: "string \<Rightarrow> bool" where
  "date_ok dt \<longleftrightarrow> butlast dt \<noteq> [] \<and> field_fits (''Date'', butlast dt) \<and> field_fits (''Last-Modified'', butlast dt)"

definition small_request :: "MRequest \<Rightarrow> bool" where
  "small_request rq \<longleftrightarrow> length (rqSID rq) < 2147483000 \<and> length (ckValue (getCookie rq ''test'')) < 2147483000"

definition test_cookie :: MCookie where
  "test_cookie = (new_MCookie ''test'' ''value'')\<lparr>ckPath := ''/''\<rparr>"

definition sample_response :: "MResponse \<Rightarrow> bool" where
  "sample_response r \<longleftrightarrow> (\<exists>body sid cks. r = (new_MResponse 200 body sid)\<lparr>rsCookies := cks\<rparr> \<and> body \<noteq> [] \<and>
    length body < 2147483648 \<and> length sid < 100 \<and> list_all is_digit sid \<and> (\<forall>c \<in> set cks. c = test_cookie))"

lemma find_str_first: "c \<notin> set s \<Longrightarrow> find_str (c # cs) s = None"
  by (auto simp: find_str_None)

lemma field_fits_short:
  assumes "list_all (\<lambda>c. c \<notin> {CR, LF, NUL, CHR ''H''}) (fst f @ snd f)" "CHR '':'' \<notin> set (fst f)" "length (fst f @ snd f) < 2147483600"
  shows "field_fits f"
proof -
  have "CHR ''H'' \<notin> set (fst f @ '': '' @ snd f)" using assms(1) by (auto simp: list_all_iff)
  then have "find_str ''HTTP/1.1'' (fst f @ '': '' @ snd f) = None" by (rule find_str_first)
  with assms show ?thesis by (auto simp: field_fits_def clean_line_def list_all_iff)
qed

lemma digits_plain: "list_all is_digit s \<Longrightarrow> list_all (\<lambda>c. c \<notin> {CR, LF, NUL, CHR ''H''}) s"
  by (erule list.pred_mono_strong) (auto simp: is_digit_def)

lemma dec_of_nat_length: "n < 10 ^ Suc k \<Longrightarrow> length (dec_of_nat n) \<le> Suc k"
proof (induction k arbitrary: n)
  case (Suc k)
  then have "n div 10 < 10 ^ Suc k" by simp
  from Suc.IH [OF this] show ?case by (subst dec_of_nat.simps) simp
qed (simp add: dec_of_nat.simps)

lemma sample_response_sent:
  assumes "sample_response r" "date_ok dt"
  shows "complete_response dt r \<and> response_fits dt r"
proof -
  obtain body sid cks where r: "r = (new_MResponse 200 body sid)\<lparr>rsCookies := cks\<rparr>" "body \<noteq> []" "length body < 2147483648"
    "length sid < 100" "list_all is_digit sid" "(\<forall>c \<in> set cks. c = test_cookie)" using assms(1) unfolding sample_response_def by blast
  note defs = r(1) new_MResponse_def response_date_def getCodeDescription_def
  have len: "length (dec_of_nat (u32 n)) < 100" for n
  proof -
    have "u32 n < 4294967296" by (simp add: u32_def)
    then show ?thesis using dec_of_nat_length [of "u32 n" 9] by simp
  qed
  have code: "dec_of_nat 200 = ''200''" by code_simp
  have date: "length (butlast dt) < 2147483648" "butlast dt \<noteq> []" using assms(2) by (simp_all add: date_ok_def field_fits_def)
  have "complete_response dt r"
    using r(2-6) date len [of "length body"] unfolding complete_response_def pieces_small_def
    by (auto simp: response_writes_def defs Let_def sid_writes_def cookie_writes_def dec_of_int_def code test_cookie_def new_MCookie_def
        dec_of_nat_nonempty [symmetric] simp del: dec_of_nat_nonempty split: if_splits)
  moreover have "list_all field_fits (sid_field sid)"
    using r(4) digits_plain [OF r(5)] by (auto simp: sid_field_def intro!: field_fits_short)
  moreover have "list_all field_fits (map cookie_field cks)"
    using r(6) by (auto simp: list_all_iff cookie_field_def test_cookie_def new_MCookie_def intro!: field_fits_short)
  moreover have "field_fits (''Content-Length'', dec_of_nat (u32 (length body)))"
    using len [of "length body"] digits_plain [of "dec_of_nat (u32 (length body))"] dec_of_nat_digits
    by (intro field_fits_short) (auto simp: list_all_iff)
  moreover have "trim ''application/json'' = ''application/json''" by code_simp
  moreover have "field_fits (''Content-Type'', ''application/json'')" "field_fits (''Server'', ''Solusek/1.0 (Linux)'')"
    "field_fits (''Connection'', ''close'')"
    by (auto simp: field_fits_def clean_line_def)
  ultimately show ?thesis using assms(2) r(3) by (simp add: response_fits_def response_fields_def date_ok_def defs)
qed

lemma sample_answers:
  assumes "filled srv" "sample_callbacks now p rq srv = (Inr resp, srv1)" "now < 10 ^ 20" "small_request rq"
  shows "sample_response resp"
proof -
  have small: "length (rqSID rq) < 2147483000" "length (ckValue (getCookie rq ''test'')) < 2147483000"
    using assms(4) by (simp_all add: small_request_def)
  consider "p = 0" | "p = 1" | "p = 2" | "p > 2" by linarith
  then show ?thesis
  proof cases
    case 1
    with assms(2) show ?thesis unfolding sample_response_def
      by (intro exI [of _ "''Cookie set!''"] exI [of _ "[]"] exI [of _ "[test_cookie]"])
        (auto simp: sample_callbacks_def setCookieEndpoint_def default_MResponse_def new_MResponse_def test_cookie_def Let_def)
  next
    case 2
    with assms(2) small(2) show ?thesis unfolding sample_response_def
      by (intro exI [of _ "rsBody resp"] exI [of _ "[]"])
        (auto simp: sample_callbacks_def getCookieEndpoint_def default_MResponse_def new_MResponse_def Let_def split: if_splits)
  next
    case 3
    obtain sid i srv2 where s: "setSessionEndpoint now rq srv = (Inr (new_MResponse 200 ''Session set.'' sid), srv2)"
      "sid = dec_of_nat now @ dec_of_nat i" "i < 4294967295"
      by (rule setSessionEndpoint_filled [OF assms(1), of now rq])
    have "length sid \<le> 20 + 10" "list_all is_digit sid"
      using dec_of_nat_length [of now 19] dec_of_nat_length [of i 9] assms(3) s(2,3) dec_of_nat_digits by (auto simp: list_all_iff)
    with 3 assms(2) s(1) show ?thesis unfolding sample_response_def
      by (intro exI [of _ "''Session set.''"] exI [of _ sid] exI [of _ "[]"]) (auto simp: sample_callbacks_def new_MResponse_def)
  next
    case 4
    then have "resp = (if rqSID rq \<in> set (session_ids srv) then session_found else no_session (rqSID rq))"
      using assms(2) getSessionEndpoint_filled [OF assms(1), of rq] by (auto simp: sample_callbacks_def)
    with small(1) show ?thesis unfolding sample_response_def
      by (intro exI [of _ "rsBody resp"] exI [of _ "[]"])
        (auto simp: session_found_def no_session_def session_text_def new_MResponse_def)
  qed
qed

lemma sample_answers_well:
  "clock i < 10 ^ 20 \<Longrightarrow> date_ok (teDate en) \<Longrightarrow> small_request (call_request rc) \<Longrightarrow> answers_well filled en (sample_callbacks (clock i)) rc"
  using sample_answers sample_response_sent unfolding answers_well_def by blast

lemma sample_functions_fill: "functions_keep (\<lambda>i. sample_callbacks (clock i)) filled"
  unfolding functions_keep_def
proof (intro allI impI)
  fix i p :: nat and rq srv
  assume f: "filled srv"
  consider "p \<le> 1" | "p = 2" | "p > 2" by linarith
  then show "\<exists>resp srv1. sample_callbacks (clock i) p rq srv = (Inr resp, srv1) \<and> filled srv1 \<and>
      srvStaticIndexes srv1 = srvStaticIndexes srv"
  proof cases
    case 1
    with f show ?thesis by (auto simp: sample_callbacks_def setCookieEndpoint_def getCookieEndpoint_def Let_def)
  next
    case 2
    obtain sid j srv1 where
      "setSessionEndpoint (clock i) rq srv = (Inr (new_MResponse 200 ''Session set.'' sid), srv1)" "sid = dec_of_nat (clock i) @ dec_of_nat j"
      "j < 4294967295" "filled srv1" "srvStaticIndexes srv1 = srvStaticIndexes srv"
      by (rule setSessionEndpoint_filled [OF f, of "clock i" rq])
    with 2 show ?thesis by (simp add: sample_callbacks_def)
  qed (use f getSessionEndpoint_filled [OF f, of rq] in \<open>simp add: sample_callbacks_def\<close>)
qed

interpretation sample_sessions: endpoint_functions "\<lambda>i. sample_callbacks (clock i)" filled
  by unfold_locales (rule sample_functions_fill)

section \<open>Calls of the sample's endpoints, one after the other\<close>

definition set_call :: "remote_call \<Rightarrow> bool" where
  "set_call rc \<longleftrightarrow> path_of (rcPath rc) = ''/api/session/set'' \<and> clMethod (rcClient rc) = ''GET''"

definition get_call :: "remote_call \<Rightarrow> bool" where
  "get_call rc \<longleftrightarrow> path_of (rcPath rc) = ''/api/session/get'' \<and> clMethod (rcClient rc) = ''GET''"

text \<open>The identifiers that calls of the set endpoint were answered with.\<close>

definition opened :: "remote_call list \<Rightarrow> (nat \<times> MResponse) list \<Rightarrow> string list" where
  "opened rcs rs = map (\<lambda>r. rsSID (snd r)) (filter (\<lambda>r. set_call (rcs ! fst r)) rs)"

lemma sample_endpoint:
  assumes "srvEndpoints srv = srvEndpoints (sample_main m n)" "call_endpoint rc srv = Some ep"
  shows "(epCallback ep = 2 \<longleftrightarrow> set_call rc) \<and> (get_call rc \<longrightarrow> epCallback ep = 3)"
  using assms
  by (simp add: call_endpoint_def getEndpoint_def set_call_def get_call_def sample_main_def setThreadLimit_def registerEndpoint_def
      registerStaticIndex_def addStaticDirectory_def setListenPort_def new_CServer_def addDefaultMimeTypes_def default_mime_types_def
      addMimeType_def new_MEndpoint_def split: if_splits) auto

lemma sample_function_ids:
  assumes "filled srv" "sample_callbacks now p rq srv = (Inr resp, srv1)"
  shows "session_ids srv1 = session_ids srv @ (if p = 2 then [rsSID resp] else [])"
proof (cases "p = 2")
  case True
  obtain sid i srv2 where "setSessionEndpoint now rq srv = (Inr (new_MResponse 200 ''Session set.'' sid), srv2)"
    "sid = dec_of_nat now @ dec_of_nat i" "session_ids srv2 = session_ids srv @ [sid]"
    by (rule setSessionEndpoint_filled [OF assms(1), of now rq])
  with True assms(2) show ?thesis by (auto simp: sample_callbacks_def new_MResponse_def)
next
  case False
  with assms(2) getSessionEndpoint_filled [OF assms(1), of rq] show ?thesis
    by (auto simp: sample_callbacks_def setCookieEndpoint_def getCookieEndpoint_def Let_def split: if_splits)
qed

lemma sample_calls_in_turn:
  assumes "calls_in_turn (\<lambda>i. sample_callbacks (clock i)) rcs order srv = Some (rs, srv1)"
    and "filled srv" "srvEndpoints srv = srvEndpoints (sample_main m n)"
  shows "filled srv1 \<and> session_ids srv1 = session_ids srv @ opened rcs rs \<and>
    (\<forall>b < length rs. get_call (rcs ! fst (rs ! b)) \<longrightarrow> snd (rs ! b) =
      (let sid = rqSID (call_request (rcs ! fst (rs ! b)))
       in if sid \<in> set (session_ids srv @ opened rcs (take b rs)) then session_found else no_session sid))"
  using assms
proof (induction order arbitrary: srv rs)
  case (Cons i order)
  obtain ep where ep: "call_endpoint (rcs ! i) srv = Some ep" using Cons.prems(1) by (auto split: option.splits)
  let ?rq = "call_request (rcs ! i)"
  obtain resp srv2 where cb: "sample_callbacks (clock i) (epCallback ep) ?rq srv = (Inr resp, srv2)" "filled srv2"
    using sample_functions_fill [of clock] Cons.prems(2) unfolding functions_keep_def by blast
  obtain rs1 where rest: "calls_in_turn (\<lambda>i. sample_callbacks (clock i)) rcs order srv2 = Some (rs1, srv1)" "rs = (i, resp) # rs1"
    using Cons.prems(1) ep cb(1) by auto
  have "srvEndpoints srv2 = srvEndpoints srv" using sample_keeps_endpoints cb(1) unfolding keeps_endpoints_def by (metis snd_conv)
  then have reg: "srvEndpoints srv2 = srvEndpoints (sample_main m n)" using Cons.prems(3) by simp
  note kind = sample_endpoint [OF Cons.prems(3) ep]
  have ids: "session_ids srv2 = session_ids srv @ opened rcs [(i, resp)]"
    using sample_function_ids [OF Cons.prems(2) cb(1)] kind by (simp add: opened_def)
  have first: "resp = (if rqSID ?rq \<in> set (session_ids srv) then session_found else no_session (rqSID ?rq))" if "get_call (rcs ! i)"
    using getSessionEndpoint_filled [OF Cons.prems(2), of ?rq] cb(1) kind that by (auto simp: sample_callbacks_def)
  note ih = Cons.IH [OF rest(1) cb(2) reg]
  have op: "opened rcs ((i, resp) # xs) = opened rcs [(i, resp)] @ opened rcs xs" for xs by (simp add: opened_def)
  have "snd (rs ! b) = (let sid = rqSID (call_request (rcs ! fst (rs ! b)))
      in if sid \<in> set (session_ids srv @ opened rcs (take b rs)) then session_found else no_session sid)"
    if b: "b < length rs" "get_call (rcs ! fst (rs ! b))" for b
  proof (cases b)
    case 0
    with b first show ?thesis by (simp add: rest(2) opened_def Let_def)
  next
    case (Suc c)
    with b ih have "snd (rs1 ! c) = (let sid = rqSID (call_request (rcs ! fst (rs1 ! c)))
      in if sid \<in> set (session_ids srv2 @ opened rcs (take c rs1)) then session_found else no_session sid)" by (simp add: rest(2))
    moreover have "opened rcs (take b rs) = opened rcs [(i, resp)] @ opened rcs (take c rs1)"
      by (simp add: Suc rest(2) op [of "take c rs1"])
    ultimately show ?thesis unfolding ids by (simp add: Suc rest(2))
  qed
  with ih ids op [of rs1] show ?case by (simp add: rest(2))
qed (simp add: opened_def)

section \<open>All clients of the running sample\<close>


text \<open>A client of the set endpoint.\<close>

definition session_call :: remote_call where
  "session_call = \<lparr>rcClient = new_CClient\<lparr>clEndpoint := ''http://h/api/session/set'', clMethod := ''GET''\<rparr>,
    rcHost = ''h'', rcPort = 80, rcPath = ''/api/session/set'', rcBody = []\<rparr>"

lemma session_call_ok: "call_ok session_call" "set_call session_call" "small_request (call_request session_call)"
proof -
  have fields: "call_fields session_call = [(''Host'', '' h''), (''Content-type'', '' application/json'')]"
    "clMethod (rcClient session_call) = ''GET''" "\<not> clUseSSL (rcClient session_call)" "rcBody session_call = []"
    "rcHost session_call = ''h''" "rcPort session_call = 80" "rcPath session_call = ''/api/session/set''"
    "parse_endpoint (clEndpoint (rcClient session_call)) = Some (''http'', ''h'', 80, ''/api/session/set'')"
    by code_simp+
  have "stored_value [(''Host'', '' h''), (''Content-type'', '' application/json'')] ''content-length'' = None" by code_simp
  then have "wire_ok ''GET'' ''/api/session/set'' ''HTTP/1.1'' [(''Host'', '' h''), (''Content-type'', '' application/json'')] []"
    by (simp add: wire_ok_def request_ok_def request_line_def field_ok_def)
  moreover have path: "path_of ''/api/session/set'' = ''/api/session/set''" by (simp add: path_of_def)
  moreover have "length (request_text (rcClient session_call) ''h'' ''/api/session/set'' []) < 2147483648"
    by (simp add: request_text_def session_call_def new_CClient_def header_text_def)
  ultimately show "call_ok session_call" by (simp add: call_ok_def fields)
  show "set_call session_call" by (simp add: set_call_def fields path)
  have "call_request session_call = (new_MRequest [])\<lparr>rqHost := ''h''\<rparr>"
    unfolding call_request_def fields by code_simp
  then show "small_request (call_request session_call)"
    by (simp add: small_request_def new_MRequest_def getCookie_def MCookie_none_def)
qed

text \<open>A client that comes back with the identifier: the call reaches the get endpoint and carries it.\<close>

definition revisit :: "string \<Rightarrow> remote_call" where
  "revisit sid = \<lparr>rcClient = new_CClient\<lparr>clEndpoint := ''http://h/api/session/get'', clMethod := ''GET'',
      clAdditionalHeaders := smap_set ''Cookie'' (''SolusekSID='' @ sid) (clAdditionalHeaders new_CClient)\<rparr>,
    rcHost = ''h'', rcPort = 80, rcPath = ''/api/session/get'', rcBody = []\<rparr>"

lemma revisit_fields:
  "call_fields (revisit sid) = [(''Host'', '' h''), (''Content-type'', '' application/json''), (''Cookie'', '' SolusekSID='' @ sid)]"
  "clMethod (rcClient (revisit sid)) = ''GET''" "\<not> clUseSSL (rcClient (revisit sid))" "rcBody (revisit sid) = []"
  "rcHost (revisit sid) = ''h''" "rcPort (revisit sid) = 80" "rcPath (revisit sid) = ''/api/session/get''"
  "clEndpoint (rcClient (revisit sid)) = ''http://h/api/session/get''"
  by (simp_all add: call_fields_def request_fields_def revisit_def new_CClient_def)

lemma sid_trimmed: "list_all is_digit sid \<Longrightarrow> trim (''SolusekSID='' @ sid) = ''SolusekSID='' @ sid"
proof -
  assume "list_all is_digit sid"
  then have "list_all (\<lambda>c. \<not> is_space c) sid" by (rule list.pred_mono_strong) (simp add: digit_not_space)
  then show ?thesis by (intro trim_plain) (simp add: is_space_def)
qed

lemma revisit_ok:
  assumes "list_all is_digit sid" "length sid < 100"
  shows "call_ok (revisit sid)" "get_call (revisit sid)" "rqSID (call_request (revisit sid)) = sid"
proof -
  let ?fs = "[(''Host'', '' h''), (''Content-type'', '' application/json''), (''Cookie'', '' SolusekSID='' @ sid)]"
  have parse: "parse_endpoint ''http://h/api/session/get'' = Some (''http'', ''h'', 80, ''/api/session/get'')" by code_simp
  have path: "path_of ''/api/session/get'' = ''/api/session/get''" by (simp add: path_of_def)
  have lower: "strtolower ''content-length'' = ''content-length''" "strtolower ''Host'' = ''host''" "strtolower ''Cookie'' = ''cookie''"
    "strtolower ''Content-type'' = ''content-type''" "strtolower ''X-SSL-Client-CN'' = ''x-ssl-client-cn''" by code_simp+
  have plain: "list_all (\<lambda>c. c \<notin> {CR, LF, NUL, CHR ''H''}) sid" by (rule digits_plain [OF assms(1)])
  have "stored_value ?fs ''content-length'' = None" by (simp add: stored_value_def lower)
  moreover have "list_all field_ok ?fs" using plain by (auto simp: field_ok_def clean_line_def list_all_iff)
  ultimately have "wire_ok ''GET'' ''/api/session/get'' ''HTTP/1.1'' ?fs []"
    by (simp add: wire_ok_def request_ok_def request_line_def)
  moreover have "length (request_text (rcClient (revisit sid)) ''h'' ''/api/session/get'' []) < 2147483648"
    using assms(2) by (simp add: request_text_def revisit_def new_CClient_def header_text_def)
  ultimately show "call_ok (revisit sid)" using parse path by (simp add: call_ok_def revisit_fields)
  show "get_call (revisit sid)" by (simp add: get_call_def revisit_fields path)
  have "CHR '';'' \<notin> set sid" using assms(1) by (auto simp: list_all_iff is_digit_def)
  then have pair: "\<forall>nv \<in> set [(''SolusekSID'', sid)]. pair_ok nv"
    using assms(2) sid_trimmed [OF assms(1)] by (simp add: pair_ok_def cookie_pair_def)
  have cookies: "cookie_loop (''SolusekSID='' @ sid) rq = with_cookies [(''SolusekSID'', sid)] rq" for rq
    using cookie_loop_space [OF _ pair, of "[]" rq] by (simp add: cookie_line_def cookie_pair_def)
  have "stored_value ?fs ''Cookie'' = Some (''SolusekSID='' @ sid)"
    using sid_trimmed [OF assms(1)] by (simp add: stored_value_def lower trim_space is_space_def)
  with cookies show "rqSID (call_request (revisit sid)) = sid"
    by (simp add: call_request_def revisit_fields request_of_def Let_def with_cookies_def cookie_pair_def
        add_cookie_pair [of "''SolusekSID''", simplified])
qed

lemma session_endpoints:
  assumes "srvEndpoints srv = srvEndpoints (sample_main m n)"
  shows "call_endpoint session_call srv = Some (new_MEndpoint ''/api/session/set'' 2 ''GET'')"
    "call_endpoint (revisit sid) srv = Some (new_MEndpoint ''/api/session/get'' 3 ''GET'')"
proof -
  have path: "path_of ''/api/session/set'' = ''/api/session/set''" "path_of ''/api/session/get'' = ''/api/session/get''"
    by (simp_all add: path_of_def)
  show "call_endpoint session_call srv = Some (new_MEndpoint ''/api/session/set'' 2 ''GET'')"
    "call_endpoint (revisit sid) srv = Some (new_MEndpoint ''/api/session/get'' 3 ''GET'')"
    using assms
    by (simp_all add: call_endpoint_def getEndpoint_def session_call_def revisit_fields new_CClient_def path sample_main_def setThreadLimit_def
        registerEndpoint_def registerStaticIndex_def addStaticDirectory_def setListenPort_def new_CServer_def addDefaultMimeTypes_def
        default_mime_types_def addMimeType_def new_MEndpoint_def)
qed

lemma session_revisited:
  assumes "filled srv" "srvEndpoints srv = srvEndpoints (sample_main m n)" "now < 10 ^ 20"
  shows "\<exists>sid srv1. call_ok (revisit sid) \<and> calls_in_turn (\<lambda>_. sample_callbacks now) [session_call, revisit sid] [0, 1] srv =
    Some ([(0, new_MResponse 200 ''Session set.'' sid), (1, session_found)], srv1)"
proof -
  obtain sid i srv1 where s: "setSessionEndpoint now (call_request session_call) srv = (Inr (new_MResponse 200 ''Session set.'' sid), srv1)"
    "sid = dec_of_nat now @ dec_of_nat i" "i < 4294967295" "filled srv1" "session_ids srv1 = session_ids srv @ [sid]"
    by (rule setSessionEndpoint_filled [OF assms(1), of now "call_request session_call"])
  have "length sid \<le> 20 + 10" "list_all is_digit sid"
    using dec_of_nat_length [of now 19] dec_of_nat_length [of i 9] assms(3) s(2,3) dec_of_nat_digits by (auto simp: list_all_iff)
  then have sid: "list_all is_digit sid" "length sid < 100" by simp_all
  have set: "sample_callbacks now 2 (call_request session_call) srv = (Inr (new_MResponse 200 ''Session set.'' sid), srv1)"
    using s(1) by (simp add: sample_callbacks_def)
  have get: "sample_callbacks now 3 (call_request (revisit sid)) srv1 = (Inr session_found, srv1)"
    using getSessionEndpoint_filled [OF s(4), of "call_request (revisit sid)"] s(5) revisit_ok(3) [OF sid]
    by (simp add: sample_callbacks_def)
  have "srvEndpoints srv1 = srvEndpoints (sample_main m n)"
    using sample_keeps_endpoints set assms(2) unfolding keeps_endpoints_def by (metis snd_conv)
  from session_endpoints(2) [OF this, of sid] session_endpoints(1) [OF assms(2)] set get revisit_ok(1) [OF sid]
  show ?thesis by (intro exI [of _ sid] exI [of _ srv1]) (simp add: new_MEndpoint_def)
qed


end
