(* ===== verification/Tls_Client.thy ===== *)
theory Tls_Client
  imports Tls_Connection
begin

text \<open>
  \<open>CClient::runRequest\<close> with its socket (\<open>src/client/CClient.cpp\<close>): \<open>createSocket\<close>, the certificates
  and keys of the client, \<open>connect\<close>, the exchange of \<open>Http_Client\<close>, and \<open>delete MainSocket\<close>. The
  function \<open>net\<close> gives the stream of a connection, \<open>made\<close> says whether \<open>SSL_CTX_new\<close> succeeds. Over
  TLS this is refined by \<open>runRequest\<close> of \<open>Http_Client\<close> when the connection comes about.
\<close>

section \<open>The request\<close>

text \<open>What happens to the new socket before the first byte is sent; the result of \<open>connect\<close> is dropped.\<close>

definition prepare_socket :: "kernel \<Rightarrow> tls_files \<Rightarrow> CClient \<Rightarrow> string \<Rightarrow> int \<Rightarrow> unit tls_act" where
  "prepare_socket k f cl host port =
    then_act (on_tls (\<lambda>t. t\<lparr>tlSock := setThrowExceptions True (tlSock t)\<rparr>))
    (then_act (client_tls_setup f cl)
    (then_act (on_tls (\<lambda>t. t\<lparr>tlSock := setTimeout (clTimeout cl) (tlSock t)\<rparr>))
      (drop_result (tls_connect k host port))))"

text \<open>An \<open>int\<close> ends the exchange and no more; any other fault leaves the function and the socket behind.\<close>

definition end_exchange :: "unit res \<Rightarrow> exchange \<Rightarrow> MResponse tls_act" where
  "end_exchange r st =
    then_act (on_tls (\<lambda>t. t\<lparr>tlSock := exSock st\<rparr>))
      (case r of
         Inl e \<Rightarrow> if is_int_fault e then then_act destroy_socket (return_act (exchange_response st)) else (\<lambda>s. (Inl e, s))
       | Inr _ \<Rightarrow> then_act destroy_socket (return_act (exchange_response st)))"

definition runRequest_tls ::
  "kernel \<Rightarrow> tls_files \<Rightarrow> (bool \<Rightarrow> string \<Rightarrow> int \<Rightarrow> channel) \<Rightarrow> int \<Rightarrow> bool \<Rightarrow> char \<Rightarrow> 32 word \<Rightarrow> string \<Rightarrow> bool \<Rightarrow> CClient \<Rightarrow>
    ossl \<Rightarrow> (MResponse res \<times> CClient \<times> (tls \<times> ossl) option) option" where
  "runRequest_tls k f net new_fd made b0 chunkSize0 body ignoreResult cl os =
    (case parse_endpoint (clEndpoint cl) of
       None \<Rightarrow> Some (Inr default_MResponse, cl, None)
     | Some (protocol, host, port, path) \<Rightarrow>
         (let cl1 = (if protocol = ''https'' then cl\<lparr>clUseSSL := True\<rparr> else cl);
              c = net (clUseSSL cl1) host port in
          case construct_socket made (new_sock new_fd True 0 (clUseSSL cl1) False [] c c) None False os of
            (Inl e, s) \<Rightarrow> Some (Inl e, cl1, Some s)
          | (Inr _, s) \<Rightarrow>
              (case prepare_socket k f cl1 host port s of
                 (Inl e, s1) \<Rightarrow> Some (Inl e, cl1, Some s1)
               | (Inr _, (t, os1)) \<Rightarrow>
                   if SSLEnabled (tlSock t) \<and> \<not> tlSSL t then Some (Inl NullDeref, cl1, Some (t, os1))
                   else (case client_exchange b0 chunkSize0 cl1 host path body ignoreResult (tlSock t) of
                           None \<Rightarrow> None
                         | Some (r, st) \<Rightarrow>
                             (case end_exchange r st (t, os1) of (q, s2) \<Rightarrow> Some (q, cl1, Some s2))))))"

section \<open>Refinement\<close>

definition stream_left :: "(tls \<times> ossl) option \<Rightarrow> channel option" where
  "stream_left s = map_option (\<lambda>(t, os). chan (tlSock t)) s"

definition same_outcome ::
  "(MResponse res \<times> CClient \<times> (tls \<times> ossl) option) option \<Rightarrow> (MResponse res \<times> CClient \<times> channel option) option" where
  "same_outcome x = map_option (\<lambda>(r, cl, s). (r, cl, stream_left s)) x"

definition reached :: "kernel \<Rightarrow> int \<Rightarrow> string \<Rightarrow> int \<Rightarrow> bool" where
  "reached k fd host port \<longleftrightarrow> (case kAddr k (cstr host) of None \<Rightarrow> False | Some a \<Rightarrow> kConnect k fd a (htons port) = 0)"

lemma destroy_keeps_stream:
  assumes "tlSNIList t = []"
  obtains t1 os1 where "destroy_socket (t, os) = (Inr (), (t1, os1))" "chan (tlSock t1) = chan (tlSock t)"
proof -
  have "\<exists>t1 os1. destroy_socket (t, os) = (Inr (), (t1, os1)) \<and> chan (tlSock t1) = chan (tlSock t)"
    using assms by (cases "SSLEnabled (tlSock t)") (auto simp: destroy_socket_def then_act_def bind_act_def on_tls_def return_act_def
        cleanupSSL_def cleanupSNI_def sock_close_def chan_def)
  with that show thesis by blast
qed

lemma end_exchange_outcome:
  assumes "tlSNIList t = []"
  shows "case end_exchange r st (t, os) of (q, s) \<Rightarrow>
     q = (case r of Inl e \<Rightarrow> (if is_int_fault e then Inr (exchange_response st) else Inl e) | Inr _ \<Rightarrow> Inr (exchange_response st))
     \<and> stream_left (Some s) = Some (chan (exSock st))"
proof -
  obtain t1 os1 where d: "destroy_socket (t\<lparr>tlSock := exSock st\<rparr>, os) = (Inr (), (t1, os1))" "chan (tlSock t1) = chan (exSock st)"
    using destroy_keeps_stream [of "t\<lparr>tlSock := exSock st\<rparr>" os] assms by auto
  then show ?thesis
    by (cases r) (simp_all add: end_exchange_def then_act_def bind_act_def on_tls_def return_act_def stream_left_def)
qed

text \<open>What the exchange sees of the socket is the stream, the timeout and the TLS flags.\<close>

lemma exchange_sets_timeout: "client_exchange b0 n cl host path body ig (setTimeout (clTimeout cl) s) =
    client_exchange b0 n cl host path body ig s"
  by (simp add: client_exchange_def setTimeout_def)

lemma connect_reached:
  assumes "ctx_at (t, os) \<noteq> None" "SSLEnabled (tlSock t)" "reached k (SID (tlSock t)) host port"
  obtains os1 where "tls_connect k host port (t, os) = (Inr True, (t\<lparr>tlSSL := True\<rparr>, os1))"
proof -
  have "\<exists>os1. tls_connect k host port (t, os) = (Inr True, (t\<lparr>tlSSL := True\<rparr>, os1))"
    using assms by (auto simp: reached_def tls_connect_def setupSSLSocket_def setSNIClientHost_def then_act_def bind_act_def
      on_ctx_def on_tls_def ctx_at_def return_act_def split: Option.bind_splits option.splits)
  with that show thesis by blast
qed

lemma connect_missed:
  assumes "\<not> reached k (SID (tlSock t)) host port"
  shows "tls_connect k host port (t, os) = (Inr False, (t, os))"
  using assms by (auto simp: reached_def tls_connect_def Let_def then_act_def bind_act_def return_act_def
      split: option.splits)

lemma prepared_tls_socket:
  assumes "ctx_at (t, os) \<noteq> None" "SSLEnabled (tlSock t)" "clUseSSL cl" "\<not> tlSSL t" "tlSNIList t = []"
  obtains t1 os1 where "prepare_socket k f cl host port (t, os) = (Inr (), (t1, os1))"
    "tlSock t1 = setTimeout (clTimeout cl) ((setThrowExceptions True (tlSock t))\<lparr>SSLMutual := True\<rparr>)"
    "tlSSL t1 = reached k (SID (tlSock t)) host port" "tlSNIList t1 = []"
proof -
  let ?t = "t\<lparr>tlSock := setThrowExceptions True (tlSock t)\<rparr>"
  have "ctx_at (?t, os) \<noteq> None" using assms(1) by (simp add: ctx_at_def)
  from client_setup_frame [OF this assms(3), of f] obtain t2 os2 where
    c: "client_tls_setup f cl (?t, os) = (Inr (), (t2, os2))" "ctx_at (t2, os2) \<noteq> None"
    and t2: "tlSock t2 = (tlSock ?t)\<lparr>SSLMutual := True\<rparr>" "tlSNIList t2 = tlSNIList ?t" "tlSSL t2 = tlSSL ?t" .
  let ?t2 = "t2\<lparr>tlSock := setTimeout (clTimeout cl) (tlSock t2)\<rparr>"
  have x: "ctx_at (?t2, os2) \<noteq> None" using c(2) by (simp add: ctx_at_def)
  have fl: "SSLEnabled (tlSock ?t2)" "SID (tlSock ?t2) = SID (tlSock t)"
    using t2(1) assms(2) by (simp_all add: setTimeout_def setThrowExceptions_def)
  have run: "prepare_socket k f cl host port (t, os) = drop_result (tls_connect k host port) (?t2, os2)"
    using c(1) by (simp add: prepare_socket_def then_act_def bind_act_def on_tls_def)
  show thesis
  proof (cases "reached k (SID (tlSock t)) host port")
    case True
    with connect_reached [OF x fl(1)] fl(2) obtain os3 where
      "tls_connect k host port (?t2, os2) = (Inr True, (?t2\<lparr>tlSSL := True\<rparr>, os3))" by metis
    with that [of "?t2\<lparr>tlSSL := True\<rparr>" os3] True run t2 assms(5) show thesis
      by (simp add: drop_result_def bind_act_def return_act_def)
  next
    case False
    with connect_missed [of k ?t2 host port os2] fl(2) that [of ?t2 os2] run t2 assms(4,5) show thesis
      by (simp add: drop_result_def bind_act_def return_act_def)
  qed
qed

lemma runRequest_tls_over:
  assumes "parse_endpoint (clEndpoint cl) = Some (protocol, host, port, path)"
    and "cl1 = (if protocol = ''https'' then cl\<lparr>clUseSSL := True\<rparr> else cl)" and "clUseSSL cl1"
    and "net True host port = c"
    and "s = setThrowExceptions True ((new_sock new_fd True 0 True False [] c c)\<lparr>SSLMutual := True\<rparr>)"
  obtains t os1 where "tlSock t = setTimeout (clTimeout cl1) s" "tlSNIList t = []"
    "runRequest_tls k f net new_fd True b0 n body ig cl os =
      (if \<not> reached k new_fd host port then Some (Inl NullDeref, cl1, Some (t, os1))
       else map_option (\<lambda>(r, st). case end_exchange r st (t, os1) of (q, s2) \<Rightarrow> (q, cl1, Some s2))
              (client_exchange b0 n cl1 host path body ig s))"
proof -
  let ?k = "new_sock new_fd True 0 True False [] c c"
  obtain t0 os0 where t0: "construct_socket True ?k None False os = (Inr (), (t0, os0))" "ctx_at (t0, os0) \<noteq> None"
    "tlSock t0 = ?k" "\<not> tlSSL t0" "tlSNIList t0 = []"
    by (simp add: construct_socket_def new_sock_def setupSSL_def ctx_at_def Let_def)
  have k: "SSLEnabled (tlSock t0)" "SID (tlSock t0) = new_fd" using t0(3) by (simp_all add: new_sock_def)
  obtain t os1 where t: "prepare_socket k f cl1 host port (t0, os0) = (Inr (), (t, os1))"
    "tlSock t = setTimeout (clTimeout cl1) ((setThrowExceptions True (tlSock t0))\<lparr>SSLMutual := True\<rparr>)"
    "tlSSL t = reached k (SID (tlSock t0)) host port" "tlSNIList t = []"
    by (rule prepared_tls_socket [OF t0(2) k(1) assms(3) t0(4,5)])
  have ts: "tlSock t = setTimeout (clTimeout cl1) s"
    using t(2) t0(3) assms(5) by (simp add: setThrowExceptions_def new_sock_def)
  have e: "SSLEnabled (tlSock t)" using ts assms(5) by (simp add: setTimeout_def setThrowExceptions_def new_sock_def)
  have "runRequest_tls k f net new_fd True b0 n body ig cl os =
      (if \<not> reached k new_fd host port then Some (Inl NullDeref, cl1, Some (t, os1))
       else map_option (\<lambda>(r, st). case end_exchange r st (t, os1) of (q, s2) \<Rightarrow> (q, cl1, Some s2))
              (client_exchange b0 n cl1 host path body ig s))"
    using assms(1,3,4) t0(1) t(1) t(3) k(2) e exchange_sets_timeout [of b0 n cl1 host path body ig s]
    unfolding runRequest_tls_def Let_def assms(1) option.case prod.case assms(2) [symmetric]
    by (simp add: ts split: option.split prod.split)
  with that ts t(4) show thesis by blast
qed

text \<open>C23 (refinement). A request over TLS whose connection is made gives, with every certificate and
  key the client may have been configured with, exactly the result of \<open>runRequest\<close>; one whose host is
  unknown or whose connection is refused ends in a null dereference and leaves the socket behind.\<close>

theorem client_request_over_tls:
  assumes "parse_endpoint (clEndpoint cl) = Some (protocol, host, port, path)"
    and "clUseSSL cl \<or> protocol = ''https''"
  shows "same_outcome (runRequest_tls k f net new_fd True b0 n body ig cl os) =
    (if reached k new_fd host port then runRequest net new_fd b0 n body ig cl
     else Some (Inl NullDeref, cl\<lparr>clUseSSL := True\<rparr>, Some (net True host port)))"
proof -
  define cl1 where "cl1 = (if protocol = ''https'' then cl\<lparr>clUseSSL := True\<rparr> else cl)"
  have ssl: "clUseSSL cl1" "cl1 = cl\<lparr>clUseSSL := True\<rparr>" using assms(2) by (auto simp: cl1_def)
  define s where "s = setThrowExceptions True ((new_sock new_fd True 0 True False [] (net True host port) (net True host port))
    \<lparr>SSLMutual := True\<rparr>)"
  obtain t os1 where t: "tlSock t = setTimeout (clTimeout cl1) s" "tlSNIList t = []"
    and run: "runRequest_tls k f net new_fd True b0 n body ig cl os =
      (if \<not> reached k new_fd host port then Some (Inl NullDeref, cl1, Some (t, os1))
       else map_option (\<lambda>(r, st). case end_exchange r st (t, os1) of (q, s2) \<Rightarrow> (q, cl1, Some s2))
              (client_exchange b0 n cl1 host path body ig s))"
    by (rule runRequest_tls_over [where net = net, OF assms(1) cl1_def ssl(1) refl s_def])
  have plain: "runRequest net new_fd b0 n body ig cl =
      map_option (\<lambda>(r, st). ((case r of Inl e \<Rightarrow> (if is_int_fault e then Inr (exchange_response st) else Inl e)
        | Inr _ \<Rightarrow> Inr (exchange_response st)), cl1, Some (chan (exSock st)))) (client_exchange b0 n cl1 host path body ig s)"
    unfolding runRequest_def Let_def assms(1) option.case prod.case cl1_def [symmetric]
    using ssl(1) by (simp add: s_def split: option.split prod.split)
  have out: "(case end_exchange r st (t, os1) of (q, s2) \<Rightarrow> (q, cl1, stream_left (Some s2))) =
      ((case r of Inl e \<Rightarrow> (if is_int_fault e then Inr (exchange_response st) else Inl e)
        | Inr _ \<Rightarrow> Inr (exchange_response st)), cl1, Some (chan (exSock st)))" for r st
    using end_exchange_outcome [OF t(2), where r = r and st = st and os = os1] by (auto split: prod.splits)
  show ?thesis
  proof (cases "reached k new_fd host port")
    case True
    have "same_outcome (map_option (\<lambda>(r, st). case end_exchange r st (t, os1) of (q, s2) \<Rightarrow> (q, cl1, Some s2)) x) =
      map_option (\<lambda>(r, st). case end_exchange r st (t, os1) of (q, s2) \<Rightarrow> (q, cl1, stream_left (Some s2))) x" for x
      by (cases x) (simp_all add: same_outcome_def split: prod.split)
    with True run plain show ?thesis by (simp add: out)
  next
    case False
    with run ssl(2) t(1) show ?thesis
      by (simp add: same_outcome_def stream_left_def s_def chan_def setTimeout_def setThrowExceptions_def new_sock_def)
  qed
qed

lemma client_request_over_tls_witness:
  "same_outcome (runRequest_tls dead_network sample_files (\<lambda>_ _ _. idle_channel) 3 True NUL 9 [] False
      (cl_setSSLCertificate ''c.pem'' (new_CClient\<lparr>clEndpoint := ''https://h/x''\<rparr>)) no_objects) =
    Some (Inl NullDeref, cl_setSSLCertificate ''c.pem'' (new_CClient\<lparr>clEndpoint := ''https://h/x'', clUseSSL := True\<rparr>), Some idle_channel)
   \<and> reached (dead_network\<lparr>kAddr := (\<lambda>_. Some 1), kConnect := (\<lambda>_ _ _. 0)\<rparr>) 3 ''h'' 443"
proof -
  let ?cl = "cl_setSSLCertificate ''c.pem'' (new_CClient\<lparr>clEndpoint := ''https://h/x''\<rparr>)"
  have e: "parse_endpoint (clEndpoint ?cl) = Some (''https'', ''h'', 443, ''/x'')" by code_simp
  have r: "\<not> reached dead_network 3 ''h'' 443" by (simp add: reached_def dead_network_def)
  show ?thesis
    using client_request_over_tls [OF e, where k = dead_network and f = sample_files and net = "\<lambda>_ _ _. idle_channel"
        and new_fd = 3 and ?b0.0 = NUL and n = 9 and body = "[]" and ig = False and os = no_objects] r
    by (simp add: cl_setSSLCertificate_def reached_def)
qed

end
