(* ===== verification/Trust_Store.thy ===== *)
theory Trust_Store
  imports Tls_Socket
begin

text \<open>
  \<open>CTrustStore\<close> (\<open>src/server/CTrustStore.h\<close>): a vector of certificates looked up by the hex text of
  their public key, with a pointer to the last match. The vector's storage has a number that changes
  when \<open>push_back\<close> moves it, so that a pointer into the old storage is visible; \<open>grow\<close> is the
  library's new capacity for an old one, always larger.
\<close>

record CTrustCert =
  tcPublicKeyHex :: string
  tcID :: "64 word"
  tcType :: int

record CTrustStore =
  tsList :: "CTrustCert list"
  tsStorage :: nat
  tsCapacity :: nat
  tsCurrent :: "(nat \<times> nat) option"

definition new_CTrustStore :: CTrustStore where
  "new_CTrustStore = \<lparr>tsList = [], tsStorage = 0, tsCapacity = 0, tsCurrent = None\<rparr>"

definition getCurrent :: "CTrustStore \<Rightarrow> (nat \<times> nat) option" where
  "getCurrent ts = tsCurrent ts"

definition addKeyEx :: "(nat \<Rightarrow> nat) \<Rightarrow> CTrustCert \<Rightarrow> CTrustStore \<Rightarrow> CTrustStore" where
  "addKeyEx grow cert ts = (if length (tsList ts) < tsCapacity ts then ts\<lparr>tsList := tsList ts @ [cert]\<rparr>
    else ts\<lparr>tsList := tsList ts @ [cert], tsStorage := Suc (tsStorage ts), tsCapacity := grow (tsCapacity ts)\<rparr>)"

definition addKey :: "(nat \<Rightarrow> nat) \<Rightarrow> string \<Rightarrow> CTrustStore \<Rightarrow> CTrustStore" where
  "addKey grow hex ts = addKeyEx grow \<lparr>tcPublicKeyHex = hex, tcID = 0, tcType = 0\<rparr> ts"

text \<open>The loop of \<open>validate\<close> from index \<open>n\<close>.\<close>

fun validate_loop :: "string \<Rightarrow> nat \<Rightarrow> CTrustCert list \<Rightarrow> nat option" where
  "validate_loop hex n [] = None"
| "validate_loop hex n (c # cs) = (if tcPublicKeyHex c = hex then Some n else validate_loop hex (Suc n) cs)"

definition validate :: "string \<Rightarrow> CTrustStore \<Rightarrow> bool \<times> CTrustStore" where
  "validate hex ts = (case validate_loop hex 0 (tsList ts) of
      Some n \<Rightarrow> (True, ts\<lparr>tsCurrent := Some (tsStorage ts, n)\<rparr>)
    | None \<Rightarrow> (False, ts))"

text \<open>Reading the certificate through the pointer \<open>getCurrent\<close> returned.\<close>

definition read_current :: "(nat \<times> nat) option \<Rightarrow> CTrustStore \<Rightarrow> CTrustCert res" where
  "read_current p ts = (case p of
      None \<Rightarrow> Inl NullDeref
    | Some (b, n) \<Rightarrow> if b = tsStorage ts then Inr (tsList ts ! n) else Inl UseAfterFree)"

section \<open>A first-match registry\<close>

lemma validate_loop_index:
  "validate_loop hex k cs = Some n \<Longrightarrow> k \<le> n \<and> n < k + length cs \<and> find (\<lambda>c. tcPublicKeyHex c = hex) cs = Some (cs ! (n - k))"
proof (induction cs arbitrary: k)
  case (Cons c cs)
  show ?case
  proof (cases "tcPublicKeyHex c = hex")
    case False
    with Cons.prems have v: "validate_loop hex (Suc k) cs = Some n" by simp
    from Cons.IH [OF v] False show ?thesis
      by (auto simp: nth_Cons split: nat.splits) (metis Suc_diff_Suc Suc_le_lessD diff_Suc_Suc nat.inject)+
  qed (use Cons.prems in simp)
qed simp

lemma validate_loop_None: "validate_loop hex k cs = None \<longleftrightarrow> find (\<lambda>c. tcPublicKeyHex c = hex) cs = None"
  by (induction cs arbitrary: k) auto

definition trusted :: "string \<Rightarrow> CTrustStore \<Rightarrow> CTrustCert option" where
  "trusted hex ts = find (\<lambda>c. tcPublicKeyHex c = hex) (tsList ts)"

lemma validate_finds:
  "fst (validate hex ts) \<longleftrightarrow> trusted hex ts \<noteq> None"
  by (cases "validate_loop hex 0 (tsList ts)")
    (use validate_loop_None [of hex 0 "tsList ts"] in \<open>auto simp: validate_def trusted_def dest: validate_loop_index\<close>)

lemma validate_current:
  "trusted hex ts = Some c \<Longrightarrow> read_current (getCurrent (snd (validate hex ts))) (snd (validate hex ts)) = Inr c"
proof -
  assume c: "trusted hex ts = Some c"
  then obtain n where n: "validate_loop hex 0 (tsList ts) = Some n"
    using validate_loop_None [of hex 0 "tsList ts"] by (auto simp: trusted_def)
  from validate_loop_index [OF this] c show ?thesis
    by (simp add: validate_def n getCurrent_def read_current_def trusted_def)
qed

interpretation trust: registry tsList "\<lambda>hex c. tcPublicKeyHex c = hex" trusted "addKeyEx grow" for grow
  by unfold_locales (simp_all add: trusted_def addKeyEx_def)

section \<open>Properties\<close>

text \<open>The bytes a hex text stands for, two digits each.\<close>

fun unhex :: "string \<Rightarrow> 8 word list option" where
  "unhex [] = Some []"
| "unhex [c] = None"
| "unhex (a # b # cs) = (case (hex_digit a, hex_digit b, unhex cs) of
      (Some x, Some y, Some bs) \<Rightarrow> Some (word_of_nat (16 * x + y) # bs)
    | _ \<Rightarrow> None)"

lemma uc2hexstr_concat: "uc2hexstr buf = concat (List.map hex2 buf)"
proof -
  have "foldl (\<lambda>ret b. ret @ hex2 b) acc buf = acc @ concat (List.map hex2 buf)" for acc
    by (induction buf arbitrary: acc) auto
  then show ?thesis by (simp add: uc2hexstr_def)
qed

lemma unhex_hex2: "unhex (hex2 b @ cs) = map_option (Cons b) (unhex cs)"
proof -
  have "unat b < 256" using unsigned_less [where w = b] by simp
  then have "hex_digit (hex_char (unat b div 16)) = Some (unat b div 16)"
    "hex_digit (hex_char (unat b mod 16)) = Some (unat b mod 16)"
    "word_of_nat (16 * (unat b div 16) + unat b mod 16) = b" by simp_all
  then show ?thesis by (simp add: hex2_def split: option.split)
qed

lemma unhex_uc2hexstr: "unhex (uc2hexstr buf) = Some buf"
  unfolding uc2hexstr_concat by (induction buf) (simp_all add: unhex_hex2)

lemma fold_addKey: "fold (addKey grow) hs ts = fold (addKeyEx grow)
    (List.map (\<lambda>h. \<lparr>tcPublicKeyHex = h, tcID = 0, tcType = 0\<rparr>) hs) ts"
  by (induction hs arbitrary: ts) (simp_all add: addKey_def)

text \<open>The hex text of a public key determines the key, two lower-case digits per
  byte; so a trust store filled with the hex texts of some keys accepts exactly those keys, and its
  current certificate is then the accepted one.\<close>

theorem trust_store_accepts_its_keys:
  "(let ts = fold (addKey grow) (List.map uc2hexstr keys) new_CTrustStore; (ok, ts1) = validate (uc2hexstr k) ts
    in (ok \<longleftrightarrow> k \<in> set keys) \<and>
       (if ok then map_sum id tcPublicKeyHex (read_current (getCurrent ts1) ts1) = Inr (uc2hexstr k)
        else ts1 = ts))
   \<and> length (uc2hexstr k) = 2 * length k \<and> unhex (uc2hexstr k) = Some k"
proof -
  let ?ts = "fold (addKey grow) (List.map uc2hexstr keys) new_CTrustStore"
  have inj: "uc2hexstr a = uc2hexstr b \<longleftrightarrow> a = b" for a b
    using unhex_uc2hexstr by (metis option.inject)
  have l: "tsList ?ts = List.map (\<lambda>h. \<lparr>tcPublicKeyHex = h, tcID = 0, tcType = 0\<rparr>) (List.map uc2hexstr keys)"
    unfolding fold_addKey trust.entries_add_all by (simp add: new_CTrustStore_def)
  have ok: "fst (validate (uc2hexstr k) ?ts) \<longleftrightarrow> k \<in> set keys"
    unfolding validate_finds trusted_def l by (auto simp: find_None_iff inj)
  have cur: "map_sum id tcPublicKeyHex (read_current (getCurrent (snd (validate (uc2hexstr k) ?ts)))
      (snd (validate (uc2hexstr k) ?ts))) = Inr (uc2hexstr k)"
    if f: "fst (validate (uc2hexstr k) ?ts)"
  proof -
    from f obtain c where c: "trusted (uc2hexstr k) ?ts = Some c" unfolding validate_finds by blast
    from validate_current [OF c] trust.look_sound [OF c] show ?thesis by simp
  qed
  have same: "snd (validate (uc2hexstr k) ?ts) = ?ts" if "\<not> fst (validate (uc2hexstr k) ?ts)"
    using that by (simp add: validate_def split: option.splits)
  have "length (uc2hexstr k) = 2 * length k" unfolding uc2hexstr_concat by (induction k) auto
  then show ?thesis using ok cur same unhex_uc2hexstr
    by (cases "validate (uc2hexstr k) ?ts") (simp add: Let_def)
qed

text \<open>
  The pointer \<open>getCurrent\<close> returned does not survive an addition that moves the vector, the first
  one after a full capacity.
\<close>

lemma current_dangles:
  assumes "trusted hex ts = Some c" "tsCapacity ts = length (tsList ts)"
  shows "read_current (getCurrent (snd (validate hex ts))) (addKeyEx grow d (snd (validate hex ts))) = Inl UseAfterFree"
proof -
  obtain n where n: "validate_loop hex 0 (tsList ts) = Some n"
    using assms(1) validate_loop_None [of hex 0 "tsList ts"] by (auto simp: trusted_def)
  then show ?thesis using assms(2) by (simp add: validate_def getCurrent_def addKeyEx_def read_current_def)
qed

end
