(* ===== verification/Spin_Lock.thy ===== *)
theory Spin_Lock
  imports Contracts
begin

text \<open>
  The flag by which \<open>CTransaction\<close> (the static \<open>Lock\<close>) and \<open>CDatabase\<close> (\<open>Hold\<close>) mean to exclude
  each other's threads: \<open>while(flag) usleep(1); flag = true; ...; flag = false;\<close>. The other theories
  take what lies between as one step; here the test, the assignment and the release are steps of
  their own, and a thread may leave by an exception, which skips the release.
\<close>

datatype spin_pc = Outside | Passed | Inside

record spin_sys =
  ssFlag :: bool
  ssThreads :: "spin_pc list"

definition spin_start :: "nat \<Rightarrow> spin_sys" where
  "spin_start n = \<lparr>ssFlag = False, ssThreads = replicate n Outside\<rparr>"

datatype spin_event = Spins nat | Claims nat | Releases nat | Throws nat

definition moves :: "nat \<Rightarrow> spin_pc \<Rightarrow> spin_pc \<Rightarrow> spin_sys \<Rightarrow> spin_sys option" where
  "moves w a b s = (if w < length (ssThreads s) \<and> ssThreads s ! w = a
    then Some (s\<lparr>ssThreads := (ssThreads s)[w := b]\<rparr>) else None)"

definition spin_test :: "nat \<Rightarrow> spin_sys \<Rightarrow> spin_sys option" where
  "spin_test w s = moves w Outside (if ssFlag s then Outside else Passed) s"

definition spin_set :: "nat \<Rightarrow> spin_sys \<Rightarrow> spin_sys option" where
  "spin_set w s = map_option (\<lambda>t. t\<lparr>ssFlag := True\<rparr>) (moves w Passed Inside s)"

definition spin_clear :: "nat \<Rightarrow> spin_sys \<Rightarrow> spin_sys option" where
  "spin_clear w s = map_option (\<lambda>t. t\<lparr>ssFlag := False\<rparr>) (moves w Inside Outside s)"

definition spin_throw :: "nat \<Rightarrow> spin_sys \<Rightarrow> spin_sys option" where
  "spin_throw w s = moves w Inside Outside s"

fun spin_act :: "spin_event \<Rightarrow> spin_sys \<Rightarrow> spin_sys option" where
  "spin_act (Spins w) s = spin_test w s"
| "spin_act (Claims w) s = spin_set w s"
| "spin_act (Releases w) s = spin_clear w s"
| "spin_act (Throws w) s = spin_throw w s"

inductive spin_step :: "spin_sys \<Rightarrow> spin_sys \<Rightarrow> bool" where
  acts: "spin_act e s = Some t \<Longrightarrow> spin_step s t"

inductive_cases spin_stepE: "spin_step s t"

fun spin_run :: "spin_event list \<Rightarrow> spin_sys \<Rightarrow> spin_sys option" where
  "spin_run [] s = Some s"
| "spin_run (e # es) s = (case spin_act e s of None \<Rightarrow> None | Some t \<Rightarrow> spin_run es t)"

lemma spin_run_steps: "spin_run es s = Some t \<Longrightarrow> spin_step\<^sup>*\<^sup>* s t"
proof (induction es arbitrary: s)
  case (Cons e es)
  then obtain u where "spin_act e s = Some u" "spin_run es u = Some t" by (auto split: option.splits)
  with Cons.IH [of u] show ?case by (meson converse_rtranclp_into_rtranclp spin_step.acts)
qed simp

section \<open>A flag nobody will clear\<close>

definition stranded :: "spin_sys \<Rightarrow> bool" where
  "stranded s \<longleftrightarrow> ssFlag s \<and> set (ssThreads s) \<subseteq> {Outside}"

lemma stranded_step: "stranded s \<Longrightarrow> spin_step s t \<Longrightarrow> t = s"
proof (erule spin_stepE)
  fix e assume s: "stranded s" and a: "spin_act e s = Some t"
  have o: "ssThreads s ! w = Outside" if "w < length (ssThreads s)" for w
    using s nth_mem [OF that] unfolding stranded_def by blast
  have "s\<lparr>ssThreads := (ssThreads s)[w := Outside]\<rparr> = s" if "w < length (ssThreads s)" for w
    using o [OF that] list_update_id [of "ssThreads s" w] by simp
  with a s o show "t = s"
    by (cases e) (auto simp: spin_test_def spin_set_def spin_clear_def spin_throw_def moves_def stranded_def split: if_splits)
qed

text \<open>C32 (safety). The flag does not exclude: two threads that have both seen it clear are inside
  together. A thread that leaves by an exception leaves the flag set with nobody inside, and from such
  a state nothing changes again: every later operation on any connection waits for ever.\<close>

theorem spin_flag_contract:
  assumes "ssFlag s" and "set (ssThreads s) \<subseteq> {Outside}" and "spin_step\<^sup>*\<^sup>* s t"
  shows "t = s \<and> (\<exists>u. spin_step\<^sup>*\<^sup>* (spin_start 2) u \<and> ssThreads u = [Inside, Inside])
    \<and> (\<exists>u. spin_step\<^sup>*\<^sup>* (spin_start 2) u \<and> ssFlag u \<and> ssThreads u = [Outside, Outside])"
proof -
  have "t = s"
    using assms(3) by (induction rule: rtranclp_induct) (use assms(1,2) stranded_step in \<open>auto simp: stranded_def\<close>)
  moreover let ?es = "[Spins 0, Spins 1, Claims 0, Claims 1]" and ?fs = "[Spins 0, Claims 0, Throws 0]"
  have "spin_run ?es (spin_start 2) = Some \<lparr>ssFlag = True, ssThreads = [Inside, Inside]\<rparr>"
    "spin_run ?fs (spin_start 2) = Some \<lparr>ssFlag = True, ssThreads = [Outside, Outside]\<rparr>" by code_simp+
  from this [THEN spin_run_steps] have
    "\<exists>u. spin_step\<^sup>*\<^sup>* (spin_start 2) u \<and> ssThreads u = [Inside, Inside]"
    "\<exists>u. spin_step\<^sup>*\<^sup>* (spin_start 2) u \<and> ssFlag u \<and> ssThreads u = [Outside, Outside]" by fastforce+
  ultimately show ?thesis by blast
qed

lemma spin_flag_contract_witness:
  "\<exists>u. spin_step\<^sup>*\<^sup>* (spin_start 2) u \<and> (\<forall>t. spin_step\<^sup>*\<^sup>* u t \<longrightarrow> t = u)"
proof -
  have r: "spin_run [Spins 0, Claims 0, Throws 0] (spin_start 2) = Some \<lparr>ssFlag = True, ssThreads = [Outside, Outside]\<rparr>"
    by code_simp
  have "t = \<lparr>ssFlag = True, ssThreads = [Outside, Outside]\<rparr>"
    if "spin_step\<^sup>*\<^sup>* \<lparr>ssFlag = True, ssThreads = [Outside, Outside]\<rparr> t" for t
    using spin_flag_contract [OF _ _ that] by simp
  with spin_run_steps [OF r] show ?thesis by blast
qed

end
