(* ===== verification/Peer_Address.thy ===== *)
theory Peer_Address
  imports Net_Socket "HOL-Library.Sublist"
begin

text \<open>
  The address of a peer as \<open>accept\<close> sees it (\<open>src/handlers/CNetHandler_linux.cpp\<close>): the bytes the
  kernel fills in, \<open>get_in_addr\<close>, the dotted text of \<open>inet_ntop\<close>, and what the address ranges of the
  filters make of that text. The listening socket is of the family \<open>AF_INET\<close>; \<open>ntop6\<close> is what the C
  library prints for the other family.
\<close>

section \<open>From the bytes to the text\<close>

record sockaddr =
  sa_family :: "16 word"
  sa_data :: "8 word list"

definition AF_INET :: "16 word" where
  "AF_INET = 2"

text \<open>The port comes first; a \<open>sockaddr_in6\<close> has four bytes of flow information before its address.\<close>

definition get_in_addr :: "sockaddr \<Rightarrow> 8 word list" where
  "get_in_addr sa = (if sa_family sa = AF_INET then drop 2 (sa_data sa) else drop 6 (sa_data sa))"

definition dotted :: "8 word \<Rightarrow> 8 word \<Rightarrow> 8 word \<Rightarrow> 8 word \<Rightarrow> string" where
  "dotted a b c d = dec_of_nat (unat a) @ CHR ''.'' # dec_of_nat (unat b) @ CHR ''.'' # dec_of_nat (unat c)
    @ CHR ''.'' # dec_of_nat (unat d)"

definition inet_ntop :: "(8 word list \<Rightarrow> string) \<Rightarrow> 16 word \<Rightarrow> 8 word list \<Rightarrow> string" where
  "inet_ntop ntop6 family bytes =
    (if family = AF_INET then dotted (bytes ! 0) (bytes ! 1) (bytes ! 2) (bytes ! 3) else ntop6 bytes)"

definition accept_peer ::
  "(8 word list \<Rightarrow> string) \<Rightarrow> int list \<Rightarrow> sockaddr \<Rightarrow> channel \<Rightarrow> channel \<Rightarrow> int \<Rightarrow> bool \<Rightarrow> sock \<Rightarrow> sock option res" where
  "accept_peer ntop6 sids sa r t new_fd ready0 s =
    sock_accept sids (inet_ntop ntop6 (sa_family sa) (get_in_addr sa)) r t new_fd ready0 s"

section \<open>Ranges\<close>

lemma dot_not_digit: "\<not> is_digit (CHR ''.'')"
  by (simp add: is_digit_def)

lemma dec_val_bound: "list_all is_digit ds \<Longrightarrow> dec_val a ds < (a + 1) * 10 ^ length ds"
proof (induction ds arbitrary: a)
  case (Cons d ds)
  then have "digit_val d < 10" by (auto simp: is_digit_def digit_val_def)
  then have le: "10 * a + digit_val d + 1 \<le> (a + 1) * 10" by simp
  have "dec_val a (d # ds) < (10 * a + digit_val d + 1) * 10 ^ length ds"
    using Cons.IH [of "10 * a + digit_val d"] Cons.prems by simp
  also have "\<dots> \<le> (a + 1) * 10 * 10 ^ length ds" using le by (rule mult_right_mono) simp
  finally show ?case by (simp only: length_Cons power_Suc mult.assoc)
qed simp

lemma atoi_until_dot:
  assumes "list_all is_digit ds" "length ds \<le> 3"
  shows "atoi (ds @ CHR ''.'' # u) = int (dec_val 0 ds)"
proof (cases ds)
  case Nil
  then show ?thesis by (simp add: atoi_def cstr_def is_space_def is_digit_def sat64_def)
next
  case (Cons c cs)
  have "(10 :: nat) ^ length ds \<le> 10 ^ 3" using assms(2) by (intro power_increasing) simp_all
  with dec_val_bound [OF assms(1), of 0] have b: "dec_val 0 ds < 1000" by simp
  have no_nul: "NUL \<notin> set ds" using assms(1) by (auto simp: list_all_iff is_digit_def)
  have cut: "cstr (ds @ CHR ''.'' # u) = ds @ CHR ''.'' # cstr u"
    using no_nul by (simp add: cstr_append) (simp add: cstr_def)
  have c: "\<not> is_space c" "c \<noteq> CHR ''-''" "c \<noteq> CHR ''+''"
    using assms(1) Cons digit_not_space by (auto simp: is_digit_def)
  have "dec_val 0 (c # cs @ CHR ''.'' # cstr u) = dec_val 0 ds"
    using dec_val_append_digits [of cs "digit_val c" "CHR ''.'' # cstr u"] assms(1) Cons dot_not_digit
    by (simp add: list_all_iff)
  then have val: "dec_val 0 (c # cs @ CHR ''.'' # cstr u) = dec_val 0 ds" .
  have dw: "dropWhile is_space (ds @ CHR ''.'' # cstr u) = c # cs @ CHR ''.'' # cstr u" using c(1) Cons by simp
  have "atoi (ds @ CHR ''.'' # u) = i32 (sat64 (int (dec_val 0 (c # cs @ CHR ''.'' # cstr u))))"
    unfolding atoi_def Let_def cut dw using c(2,3) by simp
  then show ?thesis using b by (simp only: val) (simp add: sat64_def)
qed

text \<open>Two texts up to their first dot.\<close>

lemma prefix_dot:
  assumes "CHR ''.'' \<notin> set a" "CHR ''.'' \<notin> set b"
  shows "prefix (a @ CHR ''.'' # u) (b @ CHR ''.'' # v) \<longleftrightarrow> a = b \<and> prefix u v"
  using assms
proof (induction a arbitrary: b)
  case Nil
  then show ?case by (cases b) auto
next
  case (Cons x a)
  then show ?case by (cases b) auto
qed

lemma prefix_before_dot: "CHR ''.'' \<notin> set a \<Longrightarrow> prefix a (b @ CHR ''.'' # v) \<longleftrightarrow> prefix a b"
proof (induction a arbitrary: b)
  case (Cons x a)
  then show ?case by (cases b) auto
qed simp

lemma no_dot: "CHR ''.'' \<notin> set (dec_of_nat n)"
  using dot_not_digit by simp

lemma dec_of_nat_short: "n < 1000 \<Longrightarrow> length (dec_of_nat n) \<le> 3"
  by (simp add: dec_of_nat.simps)

text \<open>The number that is left of a third octet when another one and one more digit are taken from its front.\<close>

definition octet_overhang :: "nat \<Rightarrow> nat \<Rightarrow> nat \<Rightarrow> bool" where
  "octet_overhang y c v \<longleftrightarrow> (\<exists>d rest. dec_of_nat y = dec_of_nat c @ d # rest \<and> v = dec_val 0 rest)"

lemma octet_inj: "unat a = unat (b :: 8 word) \<longleftrightarrow> a = b"
  by (rule word_unat_eq_iff [symmetric])

lemma take_prefix: "take (length p) s = p \<longleftrightarrow> prefix p s"
  by (metis append_eq_conv_conj append_take_drop_id prefix_def)

lemma dotted_parts: "dotted a b c d = (dec_of_nat (unat a) @ CHR ''.'' # dec_of_nat (unat b) @ CHR ''.'' # dec_of_nat (unat c))
    @ CHR ''.'' # dec_of_nat (unat d)"
  by (simp add: dotted_def)

lemma dotted_prefix:
  "prefix (dec_of_nat (unat a) @ CHR ''.'' # dec_of_nat (unat b) @ CHR ''.'' # dec_of_nat (unat c)) (dotted w x y z)
    \<longleftrightarrow> w = a \<and> x = b \<and> prefix (dec_of_nat (unat c)) (dec_of_nat (unat y))"
  unfolding dotted_def by (simp only: prefix_dot prefix_before_dot no_dot not_False_eq_True dec_of_nat_inj octet_inj) auto

lemma octet_less: "unat (a :: 8 word) < 256"
proof -
  have "unat a < 2 ^ LENGTH(8)" by (rule unsigned_less)
  then show ?thesis by simp
qed

lemma octet_le:
  fixes a :: "8 word"
  shows "uint a \<le> int n \<longleftrightarrow> unat a \<le> n" "int n \<le> uint a \<longleftrightarrow> n \<le> unat a"
proof -
  have i: "int (unat a) = uint a" by simp
  show "uint a \<le> int n \<longleftrightarrow> unat a \<le> n" "int n \<le> uint a \<longleftrightarrow> n \<le> unat a"
    unfolding i [symmetric] by (simp_all only: of_nat_le_iff)
qed

lemma octet_i16: "i16 (uint (a :: 8 word)) = uint a"
proof -
  have "i16 (int (unat a)) = int (unat a)" using octet_less [of a] by (intro i16_small) linarith+
  then show ?thesis by simp
qed

lemma octet_length: "length (dec_of_nat (unat (a :: 8 word))) \<le> 3"
  using octet_less [of a] by (intro dec_of_nat_short) simp

text \<open>\<open>isAddrInRange\<close> compares the text before the last dot without the dot itself.\<close>

lemma in_range_cases:
  fixes w x y z a b c lo hi :: "8 word"
  defines "p \<equiv> dec_of_nat (unat a) @ CHR ''.'' # dec_of_nat (unat b) @ CHR ''.'' # dec_of_nat (unat c)"
  shows "isAddrInRange (dotted w x y z) (dotted a b c lo) (dotted a b c hi) =
    (if prefix p (dotted w x y z)
     then Inr (int (unat lo) \<le> i16 (atoi (drop (length p + 1) (dotted w x y z))) \<and>
               i16 (atoi (drop (length p + 1) (dotted w x y z))) \<le> int (unat hi))
     else Inr False)"
proof -
  have len: "length p < 4294967295"
    using octet_length [of a] octet_length [of b] octet_length [of c] by (simp add: p_def)
  have from_to: "dotted a b c lo = p @ CHR ''.'' # dec_of_nat (unat lo)" "dotted a b c hi = p @ CHR ''.'' # dec_of_nat (unat hi)"
    by (simp_all add: p_def dotted_parts)
  have small: "unat v < 32768" for v :: "8 word" using octet_less [of v] by simp
  have long: "length p + 1 \<le> length (dotted w x y z)" if "prefix p (dotted w x y z)"
  proof -
    from that obtain u where u: "dotted w x y z = p @ u" by (auto simp: prefix_def)
    have "u \<noteq> []"
    proof
      assume "u = []"
      then have "length (filter (\<lambda>ch. ch = CHR ''.'') (dotted w x y z)) = length (filter (\<lambda>ch. ch = CHR ''.'') p)" using u by simp
      moreover have "filter (\<lambda>ch. ch = CHR ''.'') (dec_of_nat n) = []" for n using no_dot by (auto simp: filter_empty_conv)
      ultimately show False by (simp add: dotted_def p_def)
    qed
    with u show ?thesis by (cases u) simp_all
  qed
  show ?thesis
    unfolding isAddrInRange_def Let_def from_to addr_cut(1) [OF len] addr_cut(2) [OF len]
    using len long small [of lo] small [of hi] take_prefix [of p "dotted w x y z"]
    by (auto simp: substr_from_def npos_value octet_i16)
qed

lemma drop_past: "s = p @ ch # u \<Longrightarrow> drop (length p + 1) s = u"
  by simp

lemma range_value:
  assumes "prefix (dec_of_nat (unat c)) (dec_of_nat (unat (y :: 8 word)))"
  obtains (same) "y = c"
  | (longer) d rest where "dec_of_nat (unat y) = dec_of_nat (unat (c :: 8 word)) @ d # rest" "y \<noteq> c"
      "list_all is_digit rest" "length rest \<le> 3"
proof -
  obtain s where s: "dec_of_nat (unat y) = dec_of_nat (unat c) @ s" using assms by (auto simp: prefix_def)
  show thesis
  proof (cases s)
    case Nil
    with s same show thesis by (simp add: dec_of_nat_inj octet_inj)
  next
    case (Cons d rest)
    have "y \<noteq> c" using s Cons by auto
    moreover have "list_all is_digit rest"
      using s Cons dec_of_nat_digits [of _ "unat y"] by (auto simp: list_all_iff)
    moreover have "length rest \<le> 3" using octet_length [of y] s Cons by simp
    ultimately show thesis using longer s Cons by blast
  qed
qed

text \<open>An address range of the filters, over every IPv4 peer: a peer whose first three
  octets are those of the range is in it exactly when its last octet lies between the bounds. A peer
  with the same first two octets is also taken for one of the range when its third octet is that of
  the range with digits added, and the digits after the first of these form a number in the range.\<close>

lemma peer_in_range:
  "isAddrInRange (dotted w x y z) (dotted a b c lo) (dotted a b c hi) =
    Inr (w = a \<and> x = b \<and> (y = c \<and> lo \<le> z \<and> z \<le> hi
      \<or> (\<exists>v. octet_overhang (unat y) (unat c) v \<and> unat lo \<le> v \<and> v \<le> unat hi)))"
proof (cases "w = a \<and> x = b \<and> prefix (dec_of_nat (unat c)) (dec_of_nat (unat y))")
  case True
  let ?p = "dec_of_nat (unat a) @ CHR ''.'' # dec_of_nat (unat b) @ CHR ''.'' # dec_of_nat (unat c)"
  have small: "unat v < 32768" for v :: "8 word" using octet_less [of v] by simp
  from True have "prefix (dec_of_nat (unat c)) (dec_of_nat (unat y))" by simp
  then show ?thesis
  proof (cases rule: range_value)
    case same
    have no: "\<not> octet_overhang (unat y) (unat c) v" for v using same by (simp add: octet_overhang_def)
    have "drop (length ?p + 1) (dotted w x y z) = dec_of_nat (unat z)"
      using True same by (intro drop_past) (simp add: dotted_parts)
    with True same no small [of z] show ?thesis
      unfolding in_range_cases dotted_prefix by (auto simp: word_le_def octet_i16)
  next
    case (longer d rest)
    have "drop (length ?p + 1) (dotted w x y z) = rest @ CHR ''.'' # dec_of_nat (unat z)"
      using True longer(1) by (intro drop_past [of _ _ d]) (simp add: dotted_def)
    moreover have "atoi (rest @ CHR ''.'' # dec_of_nat (unat z)) = int (dec_val 0 rest)"
      by (rule atoi_until_dot [OF longer(3,4)])
    moreover have "octet_overhang (unat y) (unat c) v \<longleftrightarrow> v = dec_val 0 rest" for v
      using longer(1) by (auto simp: octet_overhang_def)
    moreover have "(10 :: nat) ^ length rest \<le> 10 ^ 3" using longer(4) by (intro power_increasing) simp_all
    with dec_val_bound [OF longer(3), of 0] have "dec_val 0 rest < 32768" by simp
    ultimately show ?thesis using True longer(2) unfolding in_range_cases dotted_prefix by (auto simp: octet_le)
  qed
next
  case False
  then show ?thesis unfolding in_range_cases dotted_prefix by (auto simp: octet_overhang_def prefix_def)
qed

text \<open>A peer of the network 10.0.123, whatever its last octet, is taken for the peer 3 of the network 10.0.1.\<close>

lemma neighbour_in_range: "isAddrInRange (dotted 10 0 123 z) (dotted 10 0 1 1) (dotted 10 0 1 5) = Inr True"
proof -
  have d: "dec_of_nat 123 = dec_of_nat 1 @ CHR ''2'' # ''3''" "dec_val 0 ''3'' = 3" by code_simp+
  have "octet_overhang 123 1 v \<longleftrightarrow> v = 3" for v using d by (auto simp: octet_overhang_def)
  then show ?thesis by (simp add: peer_in_range)
qed

text \<open>C35 (functional). With one blacklisted range and no whitelist, \<open>accept\<close> refuses an IPv4 peer exactly
  when its first three octets are those of the range and its last one lies between the bounds, or, the
  first two being equal, when its third octet continues that of the range and the digits after the
  first additional one form a number between the bounds. Every other peer gets a connection that
  carries its dotted address.\<close>

theorem accept_peer_range:
  assumes "sa_family sa = AF_INET" and "sa_data sa = p0 # p1 # w # x # y # z # pad"
    and "dropWhile (\<lambda>i. i = -1) sids = sid # sids1"
    and "Whitelist s = []" and "Blacklist s = [IPAddressItem_range (dotted a b c lo) (dotted a b c hi)]"
  shows "\<exists>r. accept_peer ntop6 sids sa r0 t0 new_fd ready0 s = Inr r
    \<and> (r = None \<longleftrightarrow> w = a \<and> x = b \<and> (y = c \<and> lo \<le> z \<and> z \<le> hi
      \<or> (\<exists>v. octet_overhang (unat y) (unat c) v \<and> unat lo \<le> v \<and> v \<le> unat hi)))
    \<and> pred_option (\<lambda>k. ClientIPAddr k = dotted w x y z) r"
proof -
  have addr: "inet_ntop ntop6 (sa_family sa) (get_in_addr sa) = dotted w x y z"
    using assms(1,2) by (simp add: inet_ntop_def get_in_addr_def)
  have "dotted w x y z \<noteq> []" by (simp add: dotted_def)
  then have "isWhitelisted s (dotted w x y z) = Inr False"
    "isBlacklisted s (dotted w x y z) = Inr (w = a \<and> x = b \<and> (y = c \<and> lo \<le> z \<and> z \<le> hi
      \<or> (\<exists>v. octet_overhang (unat y) (unat c) v \<and> unat lo \<le> v \<and> v \<le> unat hi)))"
    using assms(4,5) by (simp_all add: isWhitelisted_def isBlacklisted_def IPAddressItem_range_def peer_in_range)
  then show ?thesis
    using assms(3) unfolding accept_peer_def addr by (auto simp: sock_accept_def new_sock_def Let_def)
qed

lemma accept_peer_range_witness:
  "accept_peer (\<lambda>_. []) [5] \<lparr>sa_family = 2, sa_data = [31, 144, 10, 0, 1, 7] @ replicate 8 0\<rparr> idle_channel idle_channel 3 True
     (addBlacklist (IPAddressItem_range (dotted 10 0 1 1) (dotted 10 0 1 9)) (plain_sock idle_channel)) = Inr None"
proof -
  let ?s = "addBlacklist (IPAddressItem_range (dotted 10 0 1 1) (dotted 10 0 1 9)) (plain_sock idle_channel)"
  let ?sa = "\<lparr>sa_family = 2, sa_data = [31, 144, 10, 0, 1, 7] @ replicate 8 0\<rparr>"
  have "sa_family ?sa = AF_INET" "sa_data ?sa = 31 # 144 # 10 # 0 # 1 # 7 # replicate 8 0" "Whitelist ?s = []"
    "Blacklist ?s = [IPAddressItem_range (dotted 10 0 1 1) (dotted 10 0 1 9)]"
    by (simp_all add: AF_INET_def addBlacklist_def plain_sock_def new_sock_def)
  from accept_peer_range [OF this(1,2) _ this(3,4), of "[5]" 5 "[]" "\<lambda>_. []" idle_channel idle_channel 3 True]
  show ?thesis by auto
qed

end
