(* ===== verification/Clock_Text.thy ===== *)
theory Clock_Text
  imports Std_Numbers "HOL-Library.List_Lexorder" "HOL-Library.Char_ord"
begin

text \<open>
  Times as text: \<open>CDatabase::now\<close> (\<open>src/server/CDatabase.cpp\<close>) and \<open>timetostr\<close>
  (\<open>src/util/string_util.cpp\<close>). The C library breaks the clock down into fields (\<open>lt\<close>, which knows
  the time zone) and prints them; \<open>strftime\<close> is what it does for the conversions used.
\<close>

section \<open>Printing a time\<close>

record tm =
  tm_sec :: nat
  tm_min :: nat
  tm_hour :: nat
  tm_mday :: nat
  tm_mon :: nat
  tm_year :: int

definition two_digits :: "nat \<Rightarrow> string" where
  "two_digits n = [digit_char (n div 10 mod 10), digit_char (n mod 10)]"

definition tm_field :: "char \<Rightarrow> tm \<Rightarrow> string" where
  "tm_field c t =
    (if c = CHR ''Y'' then dec_of_int (1900 + tm_year t)
     else if c = CHR ''m'' then two_digits (tm_mon t + 1)
     else if c = CHR ''d'' then two_digits (tm_mday t)
     else if c = CHR ''H'' then two_digits (tm_hour t)
     else if c = CHR ''M'' then two_digits (tm_min t)
     else if c = CHR ''S'' then two_digits (tm_sec t)
     else [])"

fun tm_text :: "string \<Rightarrow> tm \<Rightarrow> string" where
  "tm_text (a # b # fmt) t = (if a = CHR ''%'' then tm_field b t @ tm_text fmt t else a # tm_text (b # fmt) t)"
| "tm_text fmt t = fmt"

text \<open>The text and its end mark have to fit; otherwise the buffer holds nothing defined.\<close>

definition strftime :: "nat \<Rightarrow> string \<Rightarrow> tm \<Rightarrow> string option" where
  "strftime max_size fmt t = (if length (tm_text fmt t) < max_size then Some (tm_text fmt t) else None)"

definition db_now :: "(int \<Rightarrow> tm) \<Rightarrow> int \<Rightarrow> string option" where
  "db_now lt clock = strftime 80 ''%Y-%m-%d %H:%M:%S'' (lt clock)"

text \<open>The argument of \<open>timetostr\<close> is not used.\<close>

definition timetostr :: "(int \<Rightarrow> tm) \<Rightarrow> int \<Rightarrow> int \<Rightarrow> string option" where
  "timetostr lt clock t = strftime 32 ''%Y%m%d%H%M%SZ'' (lt clock)"

section \<open>Text order is time order\<close>

text \<open>A broken-down time of the years 1000 to 9999, and its fields from the most significant.\<close>

definition tm_ok :: "tm \<Rightarrow> bool" where
  "tm_ok t \<longleftrightarrow> tm_year t \<in> {-900..8099} \<and> tm_mon t < 12 \<and> tm_mday t < 32 \<and> tm_hour t < 24 \<and> tm_min t < 60 \<and> tm_sec t < 61"

definition tm_key :: "tm \<Rightarrow> nat list" where
  "tm_key t = [nat (1900 + tm_year t), tm_mon t, tm_mday t, tm_hour t, tm_min t, tm_sec t]"

definition four_digits :: "nat \<Rightarrow> string" where
  "four_digits n = two_digits (n div 100) @ two_digits n"

lemma dec_four_digits:
  assumes "1000 \<le> n" "n < 10000"
  shows "dec_of_nat n = four_digits n"
proof -
  have "n div 10 div 10 div 10 < 10" "\<not> n < 10" "\<not> n div 10 < 10" "\<not> n div 10 div 10 < 10"
    using assms by linarith+
  then have "dec_of_nat n = [digit_char (n div 10 div 10 div 10), digit_char (n div 10 div 10 mod 10),
      digit_char (n div 10 mod 10), digit_char (n mod 10)]"
    by (simp add: dec_of_nat.simps)
  moreover have "n div 100 div 10 mod 10 = n div 10 div 10 div 10" "n div 100 mod 10 = n div 10 div 10 mod 10"
    using assms by (simp_all flip: div_mult2_eq)
  ultimately show ?thesis by (simp add: four_digits_def two_digits_def)
qed

lemma digit_char_less: "a < 10 \<Longrightarrow> b < 10 \<Longrightarrow> (digit_char a < digit_char b) = (a < b)"
  by (simp add: digit_char_def less_char_def)

lemma digit_char_same: "a < 10 \<Longrightarrow> b < 10 \<Longrightarrow> (digit_char a = digit_char b) = (a = b)"
  by (metis digit_char_less less_irrefl nat_neq_iff)

text \<open>Parts of equal length are compared one after the other.\<close>

lemma parts_less:
  fixes a b x y :: string
  assumes "length a = length b"
  shows "(a @ x < b @ y) = (a < b \<or> (a = b \<and> x < y))"
  using assms by (induction a b rule: list_induct2) (auto simp: list_less_def)

text \<open>Numbers are compared by quotient and then remainder.\<close>

lemma split_order:
  fixes a b k :: nat
  shows "(a div k < b div k \<or> a div k = b div k \<and> a mod k < b mod k) = (a < b)"
    and "(a div k = b div k \<and> a mod k = b mod k) = (a = b)"
proof -
  show "(a div k = b div k \<and> a mod k = b mod k) = (a = b)" by (metis div_mult_mod_eq)
  consider "a div k < b div k" | "b div k < a div k" | "a div k = b div k" by linarith
  then show "(a div k < b div k \<or> a div k = b div k \<and> a mod k < b mod k) = (a < b)"
  proof cases
    case 3
    define q where "q = b div k * k"
    have "q + a mod k = a" "q + b mod k = b"
      using div_mult_mod_eq [of a k] div_mult_mod_eq [of b k] 3 by (simp_all add: q_def)
    then have "(a mod k < b mod k) = (a < b)" by linarith
    with 3 show ?thesis by simp
  qed (metis div_le_mono less_imp_le_nat not_le)+
qed

lemma two_digits_order:
  assumes "a < 100" "b < 100"
  shows "(two_digits a < two_digits b) = (a < b)" "(two_digits a = two_digits b) = (a = b)"
proof -
  have d: "a div 10 mod 10 = a div 10" "b div 10 mod 10 = b div 10" "a div 10 < 10" "b div 10 < 10" using assms by auto
  have "(two_digits a < two_digits b) = (a div 10 < b div 10 \<or> a div 10 = b div 10 \<and> a mod 10 < b mod 10)"
    using d by (simp add: two_digits_def digit_char_less digit_char_same)
  also have "\<dots> = (a < b)" by (rule split_order)
  finally show "(two_digits a < two_digits b) = (a < b)" .
  have "(two_digits a = two_digits b) = (a div 10 = b div 10 \<and> a mod 10 = b mod 10)"
    using d by (simp add: two_digits_def digit_char_same)
  also have "\<dots> = (a = b)" by (rule split_order)
  finally show "(two_digits a = two_digits b) = (a = b)" .
qed

lemma two_digits_length [simp]: "length (two_digits n) = 2"
  by (simp add: two_digits_def)

lemma four_digits_order:
  assumes "a < 10000" "b < 10000"
  shows "(four_digits a < four_digits b) = (a < b)" "(four_digits a = four_digits b) = (a = b)"
proof -
  have two: "two_digits n = two_digits (n mod 100)" for n
    by (simp add: two_digits_def mod_mult2_eq [of n 10 10, simplified] mod_mod_cancel)
  have q: "a div 100 < 100" "b div 100 < 100" "a mod 100 < 100" "b mod 100 < 100" using assms by auto
  have low: "(two_digits a < two_digits b) = (a mod 100 < b mod 100)" "(two_digits a = two_digits b) = (a mod 100 = b mod 100)"
    using two_digits_order [OF q(3,4)] two [of a] two [of b] by simp_all
  have "(four_digits a < four_digits b) = (a div 100 < b div 100 \<or> a div 100 = b div 100 \<and> a mod 100 < b mod 100)"
    unfolding four_digits_def by (simp add: parts_less two_digits_order [OF q(1,2)] low)
  also have "\<dots> = (a < b)" by (rule split_order)
  finally show "(four_digits a < four_digits b) = (a < b)" .
  have "(four_digits a = four_digits b) = (a div 100 = b div 100 \<and> a mod 100 = b mod 100)"
    unfolding four_digits_def by (simp add: two_digits_order [OF q(1,2)] low)
  also have "\<dots> = (a = b)" by (rule split_order)
  finally show "(four_digits a = four_digits b) = (a = b)" .
qed

lemma four_digits_length [simp]: "length (four_digits n) = 4"
  by (simp add: four_digits_def)

lemma year_text:
  assumes "tm_ok t"
  shows "dec_of_int (1900 + tm_year t) = four_digits (nat (1900 + tm_year t))" "nat (1900 + tm_year t) < 10000"
  using assms dec_four_digits [of "nat (1900 + tm_year t)"] by (auto simp: tm_ok_def dec_of_int_def)

lemma now_text:
  assumes "tm_ok (lt clock)"
  shows "db_now lt clock = Some (four_digits (nat (1900 + tm_year (lt clock))) @ CHR ''-'' # two_digits (tm_mon (lt clock) + 1) @
    CHR ''-'' # two_digits (tm_mday (lt clock)) @ CHR '' '' # two_digits (tm_hour (lt clock)) @ CHR '':'' # two_digits (tm_min (lt clock)) @
    CHR '':'' # two_digits (tm_sec (lt clock)))"
  by (simp add: db_now_def strftime_def tm_field_def year_text(1) [OF assms])

text \<open>C39 (functional). \<open>now\<close> gives a text of 19 characters, and on the years 1000 to 9999 comparing the
  texts byte by byte is comparing the local times: columns filled with it sort by time.\<close>

theorem now_texts_sort:
  assumes "tm_ok (lt a)" and "tm_ok (lt b)"
  shows "\<exists>x y. db_now lt a = Some x \<and> db_now lt b = Some y \<and> length x = 19 \<and>
    (x < y \<longleftrightarrow> tm_key (lt a) < tm_key (lt b)) \<and> (x = y \<longleftrightarrow> tm_key (lt a) = tm_key (lt b))"
proof -
  let ?s = "lt a" and ?t = "lt b"
  define y z where "y = nat (1900 + tm_year ?s)" and "z = nat (1900 + tm_year ?t)"
  have year: "y < 10000" "z < 10000" using year_text(2) assms by (simp_all add: y_def z_def)
  have f: "Suc (tm_mon ?s) < 100" "Suc (tm_mon ?t) < 100" "tm_mday ?s < 100" "tm_mday ?t < 100" "tm_hour ?s < 100" "tm_hour ?t < 100"
    "tm_min ?s < 100" "tm_min ?t < 100" "tm_sec ?s < 100" "tm_sec ?t < 100"
    using assms by (auto simp: tm_ok_def)
  note ord = four_digits_order [OF year] two_digits_order [OF f(1,2)]
    two_digits_order [OF f(3,4)] two_digits_order [OF f(5,6)] two_digits_order [OF f(7,8)] two_digits_order [OF f(9,10)]
  show ?thesis
    unfolding now_text [of lt a, OF assms(1)] now_text [of lt b, OF assms(2)] tm_key_def
    unfolding y_def [symmetric] z_def [symmetric] by (simp add: parts_less ord)
qed

definition utc_day :: "int \<Rightarrow> tm" where
  "utc_day clock = \<lparr>tm_sec = nat (clock mod 60), tm_min = nat (clock div 60 mod 60), tm_hour = nat (clock div 3600 mod 24),
    tm_mday = 1, tm_mon = 0, tm_year = 70\<rparr>"

lemma now_texts_sort_witness:
  "\<exists>x. db_now utc_day 59 = Some x \<and> x < ''1970-01-01 00:01:00'' \<and> length x = 19"
proof -
  have "tm_ok (utc_day 59)" "tm_ok (utc_day 60)" by (simp_all add: tm_ok_def utc_day_def)
  moreover have "tm_key (utc_day 59) < tm_key (utc_day 60)" by (simp add: tm_key_def utc_day_def)
  moreover have "db_now utc_day 60 = Some ''1970-01-01 00:01:00''" by code_simp
  ultimately show ?thesis using now_texts_sort [of utc_day 59 60] by auto
qed

text \<open>\<open>timetostr\<close> prints the present time, whatever time it is given.\<close>

lemma timetostr_ignores_argument: "timetostr lt clock t = timetostr lt clock t1"
  by (simp add: timetostr_def)

end
