(* ===== verification/Process_Hooks.thy ===== *)
theory Process_Hooks
  imports Stop_Connection
begin

text \<open>
  What the program registers with the system and with OpenSSL: signal handlers
  (\<open>CServer::setInterruptCallback\<close>, \<open>src/server/CServer.cpp\<close>), the locking callback for versions of OpenSSL
  that do not lock by themselves and the one-time initialisation (\<open>src/handlers/CNetHandler_openssl.cpp\<close>,
  \<open>CNetHandler.h\<close>), and the thread calls that only pass their arguments on
  (\<open>src/handlers/CThreadHandler_linux.cpp\<close>).
\<close>

unbundle bit_operations_syntax

section \<open>Signals\<close>

definition SIGINT :: int where
  "SIGINT = 2"

definition SIGQUIT :: int where
  "SIGQUIT = 3"

text \<open>A handler acts on the server; without one the system ends the process.\<close>

type_synonym handlers = "int \<Rightarrow> (port_sys \<Rightarrow> port_sys option) option"

definition setInterruptCallback :: "(port_sys \<Rightarrow> port_sys option) \<Rightarrow> handlers \<Rightarrow> handlers" where
  "setInterruptCallback callback hs = hs(SIGINT \<mapsto> callback, SIGQUIT \<mapsto> callback)"

text \<open>\<open>CServer::interrupt\<close> is empty; the sample program installs its own function, which calls \<open>stop\<close>.\<close>

definition server_interrupt :: "port_sys \<Rightarrow> port_sys option" where
  "server_interrupt s = Some s"

definition interruptCallback :: "port_sys \<Rightarrow> port_sys option" where
  "interruptCallback s = port_stop s"

definition deliver :: "handlers \<Rightarrow> int \<Rightarrow> port_sys \<Rightarrow> port_sys option" where
  "deliver hs sig s = (case hs sig of None \<Rightarrow> None | Some h \<Rightarrow> h s)"

text \<open>
  A signal in the middle of \<open>accept\<close> makes the system call return -1, and the loop in
  \<open>CNetHandlerSocket::accept\<close> calls it again: the main thread stays where it is, with a connection to take.
\<close>

lemma interrupted_accept:
  assumes "asMain (ptLoop p) = Accepting" "ptListening p" "\<not> asCrashed (ptLoop p)" "sig \<in> {SIGINT, SIGQUIT}"
  shows "\<exists>q. deliver (setInterruptCallback interruptCallback hs) sig p = Some q \<and> asStopSignal (ptLoop q)
    \<and> asMain (ptLoop q) = Accepting \<and> ptBacklog q > 0 \<and> port_step\<^sup>*\<^sup>* p q"
proof -
  have d: "deliver (setInterruptCallback interruptCallback hs) sig p = port_run [Sets_Stop, Connects] p"
    using assms(4) by (auto simp: deliver_def setInterruptCallback_def interruptCallback_def port_stop_run SIGINT_def SIGQUIT_def)
  show ?thesis
    unfolding d using assms(1-3) port_run_steps [of "[Sets_Stop, Connects]" p]
    by (simp add: stop_flag_def stop_connect_def connect_port_def SOMAXCONN_def accept_act_def server_stop_def)
qed

section \<open>Locks for OpenSSL\<close>

text \<open>
  The mutexes with the thread that holds each, the counters beside them, and \<open>bThreadSetup\<close>. The
  callback either returns, or waits (\<^const>\<open>None\<close>) for the holder of the mutex.
\<close>

record lock_table =
  ltSetup :: bool
  ltOwner :: "nat option list"
  ltCount :: "64 word list"

definition CRYPTO_LOCK :: "32 word" where
  "CRYPTO_LOCK = 1"

definition pthreads_locking_callback :: "nat \<Rightarrow> 32 word \<Rightarrow> nat \<Rightarrow> lock_table \<Rightarrow> lock_table option res" where
  "pthreads_locking_callback self mode i lt =
    (if length (ltOwner lt) \<le> i then Inl WildAccess
     else if mode AND CRYPTO_LOCK \<noteq> 0 then
       Inr (if ltOwner lt ! i = None
            then Some (lt\<lparr>ltOwner := (ltOwner lt)[i := Some self], ltCount := (ltCount lt)[i := ltCount lt ! i + 1]\<rparr>)
            else None)
     else if ltOwner lt ! i = Some self then Inr (Some (lt\<lparr>ltOwner := (ltOwner lt)[i := None]\<rparr>))
     else Inl WildAccess)"

definition pthreads_thread_id :: "nat \<Rightarrow> 64 word" where
  "pthreads_thread_id self = of_nat self"

definition thread_setup :: "nat \<Rightarrow> lock_table \<Rightarrow> lock_table" where
  "thread_setup num_locks lt =
    lt\<lparr>ltOwner := replicate num_locks None, ltCount := replicate num_locks 0, ltSetup := True\<rparr>"

text \<open>The test in \<open>setupSSL\<close>; \<open>mutexSSL\<close> only asks for the thread's number.\<close>

definition setup_once :: "nat \<Rightarrow> lock_table \<Rightarrow> lock_table" where
  "setup_once num_locks lt = (if \<not> ltSetup lt then thread_setup num_locks lt else lt)"

definition mutexSSL :: "lock_table \<Rightarrow> lock_table" where
  "mutexSSL lt = lt"

text \<open>While a thread holds a mutex, no call of another changes that.\<close>

lemma held_until_unlocked:
  assumes "ltOwner lt ! i = Some a" "i < length (ltOwner lt)" "b \<noteq> a"
    and "pthreads_locking_callback b mode j lt = Inr (Some lt1)"
  shows "ltOwner lt1 ! i = Some a \<and> i < length (ltOwner lt1)"
  using assms by (cases "j = i") (auto simp: pthreads_locking_callback_def Let_def split: if_splits)

text \<open>Two threads that make their first TLS socket at the same time both find \<open>bThreadSetup\<close> false; the
  second set-up forgets a mutex the first thread holds, and both have it.\<close>

lemma second_setup_forgets:
  assumes "i < n" "a \<noteq> b"
  shows "\<exists>lt1 lt2. pthreads_locking_callback a CRYPTO_LOCK i (thread_setup n lt) = Inr (Some lt1) \<and> ltOwner lt1 ! i = Some a
    \<and> pthreads_locking_callback b CRYPTO_LOCK i lt1 = Inr None
    \<and> pthreads_locking_callback b CRYPTO_LOCK i (thread_setup n lt1) = Inr (Some lt2)"
  using assms by (simp add: pthreads_locking_callback_def thread_setup_def CRYPTO_LOCK_def)

section \<open>Initialisation\<close>

text \<open>\<open>CNetHandler_SSLInitialized\<close>, and how often the library has been initialised.\<close>

definition initDependencies :: "bool \<times> nat \<Rightarrow> bool \<times> nat" where
  "initDependencies s = (case s of (done, n) \<Rightarrow> if \<not> done then (True, Suc n) else s)"

lemma initDependencies_once: "(initDependencies ^^ Suc k) (False, n) = (True, Suc n)"
  by (induction k) (simp_all add: initDependencies_def)

section \<open>Thread calls\<close>

record thread_api =
  taJoin :: "int \<Rightarrow> int"
  taKill :: "int \<Rightarrow> int \<Rightarrow> int"

definition thread_join :: "thread_api \<Rightarrow> int \<Rightarrow> int" where
  "thread_join api t = taJoin api t"

text \<open>\<open>terminate\<close> gives \<open>pthread_kill\<close> the address of its own parameter for a thread.\<close>

definition thread_terminate :: "thread_api \<Rightarrow> int \<Rightarrow> int \<Rightarrow> int" where
  "thread_terminate api address_of_t t = taKill api address_of_t SIGINT"

end
